(* ===== verification/Prelude.thy ===== *)
theory Prelude imports Main "HOL-Library.Word"
begin

text \<open>
  What the components share: the C integer types as words, C strings as fixed-length
  character arrays, little-endian byte layout, decimal printing and parsing (the parts
  of \<open>stdio\<close> and \<open>stdlib\<close> the firmware uses), the volatile wipe, and two interfaces that
  several components instantiate: constant-width codecs and invariant-preserving
  machines.
\<close>

unbundle bit_operations_syntax

type_synonym u8 = "8 word"
type_synonym u16 = "16 word"
type_synonym u32 = "32 word"
type_synonym u64 = "64 word"

named_theorems layout "sizes of the byte images of records"
named_theorems frame "fields an operation leaves alone"

section \<open>Characters and bytes\<close>

abbreviation NUL :: char where
  "NUL \<equiv> CHR 0x00"

definition byte_of_char :: "char \<Rightarrow> u8" where
  "byte_of_char c = of_nat (of_char c)"

definition char_of_byte :: "u8 \<Rightarrow> char" where
  "char_of_byte b = char_of (unat b)"

lemma of_char_less: "(of_char c :: nat) < 256"
proof -
  have "(of_char (char_of (of_char c :: nat)) :: nat) = of_char c mod 256"
    by (rule of_char_of)
  then have "(of_char c :: nat) = of_char c mod 256"
    by simp
  then show ?thesis
    by (metis mod_less_divisor zero_less_numeral)
qed

lemma unat_byte_of_char: "unat (byte_of_char c) = of_char c"
  using of_char_less [of c]
  by (simp add: byte_of_char_def unsigned_of_nat take_bit_eq_mod)

lemma char_of_byte_of_char [simp]: "char_of_byte (byte_of_char c) = c"
  by (simp add: char_of_byte_def unat_byte_of_char)

lemma byte_of_char_of_byte [simp]: "byte_of_char (char_of_byte b) = b"
  using unsigned_less [of b, where ?'a = nat]
  by (simp add: byte_of_char_def char_of_byte_def)

lemma char_of_byte_comp [simp]: "char_of_byte \<circ> byte_of_char = id"
  by (simp add: fun_eq_iff)

lemma map_char_of_byte_of_char [simp]: "map char_of_byte (map byte_of_char s) = s"
  by (simp add: map_idI)

lemma map_byte_of_char_of_byte [simp]: "map byte_of_char (map char_of_byte bs) = bs"
  by (simp add: map_idI)

lemma byte_of_char_inj: "byte_of_char c = byte_of_char d \<Longrightarrow> c = d"
  by (metis char_of_byte_of_char)

section \<open>Bits of bytes\<close>

lemma u8_eqI:
  fixes a b :: u8
  assumes "bit a 0 = bit b 0" and "bit a 1 = bit b 1" and "bit a 2 = bit b 2"
    and "bit a 3 = bit b 3" and "bit a 4 = bit b 4" and "bit a 5 = bit b 5"
    and "bit a 6 = bit b 6" and "bit a 7 = bit b 7"
  shows "a = b"
proof (rule bit_word_eqI)
  fix n
  assume "n < LENGTH(8)"
  then have "n = 0 \<or> n = 1 \<or> n = 2 \<or> n = 3 \<or> n = 4 \<or> n = 5 \<or> n = 6 \<or> n = 7"
    by auto
  then show "bit a n \<longleftrightarrow> bit b n"
    using assms by blast
qed

lemma u8_bit_top: "8 \<le> n \<Longrightarrow> \<not> bit (w::u8) n"
  using bit_imp_le_length [of w n] by auto

section \<open>C strings in fixed-size arrays\<close>

definition cstr :: "string \<Rightarrow> string" where
  \<comment> \<open>what \<open>printf("%s")\<close>, \<open>strlen\<close> and \<open>strcmp\<close> see of an array: the characters before the NUL\<close>
  "cstr s = takeWhile (\<lambda>c. c \<noteq> NUL) s"

definition strncpy_c :: "string \<Rightarrow> string \<Rightarrow> nat \<Rightarrow> string" where
  \<comment> \<open>\<open>strncpy(dst, src, n)\<close>: at most \<open>n\<close> characters, the rest of the \<open>n\<close> padded with NUL\<close>
  "strncpy_c dst src n =
     take n (cstr src @ replicate n NUL) @ drop n dst"

definition terminated :: "string \<Rightarrow> bool" where
  "terminated s \<longleftrightarrow> NUL \<in> set s"

lemma cstr_noNUL: "NUL \<notin> set s \<Longrightarrow> cstr s = s"
  by (auto simp: cstr_def takeWhile_eq_all_conv)

lemma NUL_notin_cstr [simp]: "NUL \<notin> set (cstr s)"
  by (auto simp: cstr_def dest: set_takeWhileD)

lemma cstr_cstr [simp]: "cstr (cstr s) = cstr s"
  by (simp add: cstr_noNUL)

lemma length_cstr: "length (cstr s) \<le> length s"
  by (simp add: cstr_def length_takeWhile_le)

lemma length_strncpy_c: "n \<le> length dst \<Longrightarrow> length (strncpy_c dst src n) = length dst"
  by (simp add: strncpy_c_def)

lemma cstr_append_NUL: "NUL \<notin> set s \<Longrightarrow> cstr (s @ NUL # t) = s"
  by (induction s) (auto simp: cstr_def)

lemma cstr_strncpy_c:
  assumes "NUL \<notin> set src" and "length src < n"
  shows "cstr (strncpy_c dst src n) = src"
proof -
  have "take n (src @ replicate n NUL) = src @ replicate (n - length src) NUL"
    using assms(2) by simp
  moreover have "replicate (n - length src) NUL = NUL # replicate (n - length src - 1) NUL"
    using assms(2) by (cases "n - length src") auto
  ultimately show ?thesis
    using assms(1) by (simp add: strncpy_c_def cstr_noNUL cstr_append_NUL)
qed

section \<open>Overwriting and wiping buffers\<close>

definition overwrite :: "'a list \<Rightarrow> 'a list \<Rightarrow> 'a list" where
  \<comment> \<open>\<open>memcpy(buf, xs, length xs)\<close> into a larger static buffer\<close>
  "overwrite xs buf = xs @ drop (length xs) buf"

lemma length_overwrite: "length xs \<le> length buf \<Longrightarrow> length (overwrite xs buf) = length buf"
  by (simp add: overwrite_def)

lemma take_overwrite [simp]: "take (length xs) (overwrite xs buf) = xs"
  by (simp add: overwrite_def)

fun secure_wipe :: "nat \<Rightarrow> u8 list \<Rightarrow> u8 list" where
  \<comment> \<open>\<open>shared/wipe.h\<close>: \<open>while (n--) *vp++ = 0\<close>, over a buffer of at least \<open>n\<close> bytes\<close>
  "secure_wipe 0 bs = bs"
| "secure_wipe (Suc n) (b # bs) = 0 # secure_wipe n bs"
| "secure_wipe (Suc n) [] = []"

lemma secure_wipe_eq: "n \<le> length bs \<Longrightarrow> secure_wipe n bs = replicate n 0 @ drop n bs"
  by (induction n bs rule: secure_wipe.induct) auto

lemma secure_wipe_all [simp]: "secure_wipe (length bs) bs = replicate (length bs) 0"
  by (simp add: secure_wipe_eq)

section \<open>Little-endian byte images\<close>

definition le16 :: "u16 \<Rightarrow> u8 list" where
  "le16 w = [ucast w, ucast (drop_bit 8 w)]"

definition le32 :: "u32 \<Rightarrow> u8 list" where
  "le32 w = [ucast w, ucast (drop_bit 8 w), ucast (drop_bit 16 w), ucast (drop_bit 24 w)]"

definition of_le16 :: "u8 list \<Rightarrow> u16" where
  "of_le16 bs = ucast (bs ! 0) OR push_bit 8 (ucast (bs ! 1))"

definition of_le32 :: "u8 list \<Rightarrow> u32" where
  "of_le32 bs = ucast (bs ! 0) OR push_bit 8 (ucast (bs ! 1)) OR
     push_bit 16 (ucast (bs ! 2)) OR push_bit 24 (ucast (bs ! 3))"

lemma length_le16 [simp, layout]: "length (le16 w) = 2"
  by (simp add: le16_def)

lemma length_le32 [simp, layout]: "length (le32 w) = 4"
  by (simp add: le32_def)

lemma of_le16_le16 [simp]: "of_le16 (le16 w) = w"
  by (rule bit_word_eqI) (auto simp: of_le16_def le16_def bit_simps)

lemma of_le32_le32 [simp]: "of_le32 (le32 w) = w"
proof (rule bit_word_eqI)
  fix n
  assume "n < LENGTH(32)"
  then show "bit (of_le32 (le32 w)) n \<longleftrightarrow> bit w n"
    by (cases "n < 24"; cases "n < 16") (auto simp: of_le32_def le32_def bit_simps)
qed

section \<open>Decimal printing and parsing\<close>

definition digit_char :: "nat \<Rightarrow> char" where
  "digit_char d = char_of (48 + d)"

definition char_val :: "char \<Rightarrow> nat" where
  "char_val c = of_char c - 48"

definition is_digit :: "char \<Rightarrow> bool" where
  "is_digit c \<longleftrightarrow> 48 \<le> (of_char c :: nat) \<and> (of_char c :: nat) \<le> 57"

definition is_space :: "char \<Rightarrow> bool" where
  \<comment> \<open>\<open>isspace\<close> in the C locale\<close>
  "is_space c \<longleftrightarrow> of_char c = (32::nat) \<or> 9 \<le> (of_char c :: nat) \<and> (of_char c :: nat) \<le> 13"

fun udec :: "nat \<Rightarrow> string" where
  \<comment> \<open>\<open>%u\<close>\<close>
  "udec n = (if n < 10 then [digit_char n] else udec (n div 10) @ [digit_char (n mod 10)])"

declare udec.simps [simp del]

definition zero_pad :: "nat \<Rightarrow> string \<Rightarrow> string" where
  \<comment> \<open>the \<open>0w\<close> of \<open>%05u\<close>\<close>
  "zero_pad w s = replicate (w - length s) (CHR ''0'') @ s"

definition pad_right :: "nat \<Rightarrow> string \<Rightarrow> string" where
  \<comment> \<open>the \<open>-w\<close> of \<open>%-6u\<close> and \<open>%-24s\<close>\<close>
  "pad_right w s = s @ replicate (w - length s) (CHR '' '')"

definition dec_val :: "string \<Rightarrow> nat" where
  "dec_val s = foldl (\<lambda>a c. a * 10 + char_val c) 0 s"

definition strtoul10 :: "string \<Rightarrow> u32" where
  \<comment> \<open>\<open>strtoul(s, NULL, 10)\<close> with the 32-bit \<open>unsigned long\<close> of the target: no digits give 0,
      an out-of-range number gives \<open>ULONG_MAX\<close>, a minus sign negates modulo \<open>2^32\<close>\<close>
  "strtoul10 s =
     (let s1 = dropWhile is_space s;
          neg = (s1 \<noteq> [] \<and> hd s1 = CHR ''-'');
          s2 = (if s1 \<noteq> [] \<and> (hd s1 = CHR ''-'' \<or> hd s1 = CHR ''+'') then tl s1 else s1);
          v = dec_val (takeWhile is_digit s2)
      in if 2 ^ 32 \<le> v then - 1 else if neg then - of_nat v else of_nat v)"

definition atoi :: "string \<Rightarrow> int" where
  \<comment> \<open>\<open>(int)strtol(s, NULL, 10)\<close>, saturating at the bounds of a 32-bit \<open>long\<close>\<close>
  "atoi s =
     (let s1 = dropWhile is_space s;
          neg = (s1 \<noteq> [] \<and> hd s1 = CHR ''-'');
          s2 = (if s1 \<noteq> [] \<and> (hd s1 = CHR ''-'' \<or> hd s1 = CHR ''+'') then tl s1 else s1);
          v = int (dec_val (takeWhile is_digit s2))
      in if neg then max (- (2 ^ 31)) (- v) else min (2 ^ 31 - 1) v)"

lemma of_char_digit_char: "d < 10 \<Longrightarrow> (of_char (digit_char d) :: nat) = 48 + d"
  by (simp add: digit_char_def)

lemma is_digit_digit_char [simp]: "d < 10 \<Longrightarrow> is_digit (digit_char d)"
  by (simp add: is_digit_def of_char_digit_char)

lemma char_val_digit_char [simp]: "d < 10 \<Longrightarrow> char_val (digit_char d) = d"
  by (simp add: char_val_def of_char_digit_char)

lemma dec_val_snoc [simp]: "dec_val (s @ [c]) = dec_val s * 10 + char_val c"
  by (simp add: dec_val_def)

lemma dec_val_Nil [simp]: "dec_val [] = 0"
  by (simp add: dec_val_def)

lemma set_udec: "c \<in> set (udec n) \<Longrightarrow> is_digit c"
proof (induction n rule: udec.induct)
  case (1 n)
  then show ?case
    by (cases "n < 10") (auto simp: udec.simps [of n])
qed

lemma udec_not_Nil [simp]: "udec n \<noteq> []"
  by (simp add: udec.simps [of n])

lemma dec_val_udec [simp]: "dec_val (udec n) = n"
proof (induction n rule: udec.induct)
  case (1 n)
  show ?case
  proof (cases "n < 10")
    case True
    then show ?thesis
      by (simp add: udec.simps [of n] dec_val_def)
  next
    case False
    with 1 show ?thesis
      by (simp add: udec.simps [of n])
  qed
qed

lemma udec_inj: "udec m = udec n \<Longrightarrow> m = n"
  by (metis dec_val_udec)

lemma length_udec: "n < 10 ^ Suc k \<Longrightarrow> length (udec n) \<le> Suc k"
proof (induction k arbitrary: n)
  case 0
  then show ?case
    by (simp add: udec.simps [of n])
next
  case (Suc k)
  then have "n div 10 < 10 ^ Suc k"
    by auto
  with Suc.IH have "length (udec (n div 10)) \<le> Suc k"
    by blast
  then show ?case
    by (simp add: udec.simps [of n])
qed

lemma dec_val_zeros: "dec_val (replicate k (CHR ''0'') @ s) = dec_val s"
proof -
  have "foldl (\<lambda>a c. a * 10 + char_val c) 0 (replicate k (CHR ''0'')) = 0"
    by (induction k) (auto simp: char_val_def)
  then show ?thesis
    by (simp add: dec_val_def)
qed

lemma digits_parse:
  assumes "\<forall>c \<in> set s. is_digit c"
  shows "takeWhile is_digit s = s" and "dropWhile is_space s = s"
    and "s \<noteq> [] \<Longrightarrow> hd s \<noteq> CHR ''-'' \<and> hd s \<noteq> CHR ''+''"
proof -
  show "takeWhile is_digit s = s"
    using assms by (auto simp: takeWhile_eq_all_conv)
  show "dropWhile is_space s = s"
    using assms by (cases s) (auto simp: is_digit_def is_space_def)
  show "s \<noteq> [] \<Longrightarrow> hd s \<noteq> CHR ''-'' \<and> hd s \<noteq> CHR ''+''"
    using assms by (cases s) (auto simp: is_digit_def)
qed

lemma strtoul10_digits:
  assumes "\<forall>c \<in> set s. is_digit c" and "dec_val s < 2 ^ 32"
  shows "strtoul10 s = of_nat (dec_val s)"
  using digits_parse [OF assms(1)] assms(2)
  by (cases "s = []") (auto simp: strtoul10_def Let_def simp del: takeWhile_eq_all_conv)

lemma atoi_digits:
  assumes "\<forall>c \<in> set s. is_digit c" and "dec_val s < 2 ^ 31"
  shows "atoi s = int (dec_val s)"
  using digits_parse [OF assms(1)] assms(2)
  by (cases "s = []") (auto simp: atoi_def Let_def simp del: takeWhile_eq_all_conv)

section \<open>Interfaces shared by several components\<close>

locale fixed_codec =
  fixes enc :: "'a \<Rightarrow> u8 list"
    and dec :: "u8 list \<Rightarrow> 'a"
    and width :: nat
    and ok :: "'a \<Rightarrow> bool"
  assumes enc_width: "ok x \<Longrightarrow> length (enc x) = width"
    and dec_enc: "ok x \<Longrightarrow> dec (enc x) = x"
begin

lemma enc_inj: "ok x \<Longrightarrow> ok y \<Longrightarrow> enc x = enc y \<Longrightarrow> x = y"
  by (metis dec_enc)

lemma length_image: "\<forall>x \<in> set xs. ok x \<Longrightarrow> length (concat (map enc xs)) = length xs * width"
  by (induction xs) (auto simp: enc_width)

text \<open>Element \<open>i\<close> of the array is read back from its own slice.\<close>

lemma dec_slice:
  assumes "\<forall>x \<in> set xs. ok x" and "i < length xs"
  shows "dec (take width (drop (i * width) (concat (map enc xs) @ rest))) = xs ! i"
  using assms
proof (induction xs arbitrary: i)
  case Nil
  then show ?case by simp
next
  case (Cons x xs)
  then show ?case
    by (cases i) (auto simp: enc_width dec_enc drop_append)
qed

lemma image_inj:
  assumes "\<forall>x \<in> set xs. ok x" and "\<forall>y \<in> set ys. ok y" and "length xs = length ys"
    and "concat (map enc xs) = concat (map enc ys)"
  shows "xs = ys"
proof (rule nth_equalityI [OF assms(3)])
  fix i
  assume "i < length xs"
  then show "xs ! i = ys ! i"
    using dec_slice [OF assms(1), of i "[]"] dec_slice [OF assms(2), of i "[]"] assms(3,4)
    by simp
qed

end

locale inv_machine =
  fixes step :: "'s \<Rightarrow> 'e \<Rightarrow> 's"
    and inv :: "'s \<Rightarrow> bool"
  assumes step_inv: "inv s \<Longrightarrow> inv (step s e)"
begin

lemma run_inv: "inv s \<Longrightarrow> inv (foldl step s es)"
  by (induction es arbitrary: s) (auto intro: step_inv)

lemma always_inv: "inv s \<Longrightarrow> inv (foldl step s (take k es))"
  by (rule run_inv)

end

locale inv_steps =
  fixes step :: "'s \<Rightarrow> 's \<Rightarrow> bool"
    and inv :: "'s \<Rightarrow> bool"
  assumes preserved: "step s s' \<Longrightarrow> inv s \<Longrightarrow> inv s'"
begin

lemma steps_inv: "step\<^sup>*\<^sup>* s s' \<Longrightarrow> inv s \<Longrightarrow> inv s'"
  by (induction rule: rtranclp_induct) (auto dest: preserved)

end

sublocale inv_machine \<subseteq> moves: inv_steps "\<lambda>s s'. \<exists>e. s' = step s e" inv
  by unfold_locales (auto intro: step_inv)

end
