(* ===== verification/Lfs.thy ===== *)
theory Lfs imports Prelude "HOL-Library.AList"
begin

text \<open>
  littlefs is a git submodule of the repository, so its operations are parameters of the
  storage layer: the fields of the record \<open>lfs_api\<close>, over a file system state \<open>'fs\<close> and an
  open file \<open>'f\<close> (\<open>lfs_t\<close> and \<open>lfs_file_t\<close>). What the storage layer relies on is
  \<open>lfs_laws\<close>, stated over three views: the committed contents of the regular files, the set
  of directories and, of an open file, its path, data, position and dirty flag. An
  operation that returns a negative code changes no committed file. Two further hypotheses
  are not behaviour of littlefs but of a run in which the flash does not fail: \<open>lfs_reliable\<close>
  (finding, reading, listing and removing what is there does not fail) and \<open>lfs_commits\<close> (no
  close does); what rests on them names them. \<open>ram_api\<close> is an instance with which the theorems
  are evaluated.
\<close>

datatype lfs_type = LFS_TYPE_REG | LFS_TYPE_DIR

record lfs_info =
  info_type :: lfs_type
  info_name :: string

datatype open_mode =
    RDONLY
  | WRONLY
  | WRONLY_CREAT_TRUNC

record ('fs, 'f) lfs_api =
  lfs_format :: "'fs \<Rightarrow> int \<times> 'fs"
  lfs_mount :: "'fs \<Rightarrow> int \<times> 'fs"
  lfs_stat :: "'fs \<Rightarrow> string \<Rightarrow> int"
  lfs_mkdir :: "'fs \<Rightarrow> string \<Rightarrow> int \<times> 'fs"
  lfs_file_open :: "'fs \<Rightarrow> string \<Rightarrow> open_mode \<Rightarrow> int \<times> 'f \<times> 'fs"
  lfs_file_read :: "'fs \<Rightarrow> 'f \<Rightarrow> nat \<Rightarrow> int \<times> u8 list \<times> 'f \<times> 'fs"
  lfs_file_write :: "'fs \<Rightarrow> 'f \<Rightarrow> u8 list \<Rightarrow> int \<times> 'f \<times> 'fs"
  lfs_file_size :: "'fs \<Rightarrow> 'f \<Rightarrow> int"
  lfs_file_sync :: "'fs \<Rightarrow> 'f \<Rightarrow> int \<times> 'f \<times> 'fs"
  lfs_file_close :: "'fs \<Rightarrow> 'f \<Rightarrow> int \<times> 'fs"
  lfs_remove :: "'fs \<Rightarrow> string \<Rightarrow> int \<times> 'fs"
  lfs_dir_entries :: "'fs \<Rightarrow> string \<Rightarrow> lfs_info list option"
    \<comment> \<open>\<open>lfs_dir_open\<close> and the successive \<open>lfs_dir_read\<close> results until one is not positive\<close>

record fview =
  vpath :: string
  vdata :: "u8 list"
  vpos :: nat
  vdirty :: bool

type_synonym files = "string \<rightharpoonup> u8 list"

record ('fs, 'f) lfs_view =
  files :: "'fs \<Rightarrow> files"
  dirs :: "'fs \<Rightarrow> string set"
  handle :: "'f \<Rightarrow> fview option"  \<comment> \<open>\<open>None\<close>: a write failed, the file is not committed any more\<close>

definition splice_at :: "u8 list \<Rightarrow> nat \<Rightarrow> u8 list \<Rightarrow> u8 list" where
  "splice_at d pos b = take pos d @ b @ drop (pos + length b) d"

definition commit :: "fview option \<Rightarrow> files \<Rightarrow> files" where
  "commit h m = (case h of
     Some v \<Rightarrow> if vdirty v then m(vpath v \<mapsto> vdata v) else m
   | None \<Rightarrow> m)"

section \<open>The documented behaviour\<close>

definition volume_laws :: "('fs, 'f) lfs_api \<Rightarrow> ('fs, 'f) lfs_view \<Rightarrow> bool" where
  "volume_laws L V \<longleftrightarrow>
     (\<forall>s rc s'. lfs_format L s = (rc, s') \<longrightarrow> 0 \<le> rc \<longrightarrow>
        files V s' = Map.empty \<and> dirs V s' = {}) \<and>
     (\<forall>s rc s'. lfs_mount L s = (rc, s') \<longrightarrow> files V s' = files V s \<and> dirs V s' = dirs V s) \<and>
     (\<forall>s p rc s'. lfs_mkdir L s p = (rc, s') \<longrightarrow> files V s' = files V s \<and>
        dirs V s' = (if 0 \<le> rc then insert p (dirs V s) else dirs V s)) \<and>
     (\<forall>s p. 0 \<le> lfs_stat L s p \<longrightarrow> p \<in> dom (files V s) \<or> p \<in> dirs V s) \<and>
     (\<forall>s p rc s'. lfs_remove L s p = (rc, s') \<longrightarrow> p \<notin> dirs V s \<longrightarrow>
        files V s' = (if 0 \<le> rc then (files V s)(p := None) else files V s) \<and>
        dirs V s' = dirs V s \<and> (0 \<le> rc \<longrightarrow> p \<in> dom (files V s)))"

definition same_volume :: "('fs, 'f) lfs_view \<Rightarrow> 'fs \<Rightarrow> 'fs \<Rightarrow> bool" where
  "same_volume V s s' \<longleftrightarrow> files V s' = files V s \<and> dirs V s' = dirs V s"

definition open_laws :: "('fs, 'f) lfs_api \<Rightarrow> ('fs, 'f) lfs_view \<Rightarrow> bool" where
  "open_laws L V \<longleftrightarrow>
     (\<forall>s p m rc h s'. lfs_file_open L s p m = (rc, h, s') \<longrightarrow> m \<noteq> WRONLY_CREAT_TRUNC \<longrightarrow>
        same_volume V s s' \<and>
        (0 \<le> rc \<longrightarrow> (\<exists>d. files V s p = Some d \<and>
           handle V h = Some \<lparr>vpath = p, vdata = d, vpos = 0, vdirty = False\<rparr>))) \<and>
     (\<forall>s p rc h s'. lfs_file_open L s p WRONLY_CREAT_TRUNC = (rc, h, s') \<longrightarrow>
        dirs V s' = dirs V s \<and>
        (if 0 \<le> rc
         then files V s' = (if files V s p = None then (files V s)(p \<mapsto> []) else files V s) \<and>
              handle V h = Some \<lparr>vpath = p, vdata = [], vpos = 0, vdirty = True\<rparr>
         else files V s' = files V s))"

definition read_laws :: "('fs, 'f) lfs_api \<Rightarrow> ('fs, 'f) lfs_view \<Rightarrow> bool" where
  "read_laws L V \<longleftrightarrow>
     (\<forall>s h n rc bs h' s' v. lfs_file_read L s h n = (rc, bs, h', s') \<longrightarrow> handle V h = Some v \<longrightarrow>
        same_volume V s s' \<and>
        (\<exists>k. handle V h' = Some (v\<lparr>vpos := k\<rparr>)) \<and>
        (0 \<le> rc \<longrightarrow> bs = take n (drop (vpos v) (vdata v)) \<and> rc = int (length bs) \<and>
           handle V h' = Some (v\<lparr>vpos := vpos v + length bs\<rparr>)))"

definition write_laws :: "('fs, 'f) lfs_api \<Rightarrow> ('fs, 'f) lfs_view \<Rightarrow> bool" where
  "write_laws L V \<longleftrightarrow>
     (\<forall>s h b rc h' s'. lfs_file_write L s h b = (rc, h', s') \<longrightarrow>
        same_volume V s s' \<and>
        (handle V h = None \<longrightarrow> handle V h' = None) \<and>
        (\<forall>v. handle V h = Some v \<longrightarrow>
          (0 \<le> rc \<longrightarrow> rc = int (length b) \<and>
             handle V h' = Some (v\<lparr>vdata := splice_at (vdata v) (vpos v) b,
                                   vpos := vpos v + length b, vdirty := True\<rparr>)) \<and>
          (rc < 0 \<longrightarrow> handle V h' = None)))"

definition sync_laws :: "('fs, 'f) lfs_api \<Rightarrow> ('fs, 'f) lfs_view \<Rightarrow> bool" where
  "sync_laws L V \<longleftrightarrow>
     (\<forall>s h v. handle V h = Some v \<longrightarrow> lfs_file_size L s h = int (length (vdata v))) \<and>
     (\<forall>s h rc h' s'. lfs_file_sync L s h = (rc, h', s') \<longrightarrow>
        files V s' = (if 0 \<le> rc then commit (handle V h) (files V s) else files V s) \<and>
        dirs V s' = dirs V s \<and>
        (\<forall>v. handle V h = Some v \<longrightarrow>
          handle V h' = None \<or> (\<exists>d. handle V h' = Some (v\<lparr>vdirty := d\<rparr>) \<and> (d \<longrightarrow> vdirty v))) \<and>
        (handle V h = None \<longrightarrow> handle V h' = None))"

definition close_laws :: "('fs, 'f) lfs_api \<Rightarrow> ('fs, 'f) lfs_view \<Rightarrow> bool" where
  "close_laws L V \<longleftrightarrow>
     (\<forall>s h rc s'. lfs_file_close L s h = (rc, s') \<longrightarrow>
        files V s' = (if 0 \<le> rc then commit (handle V h) (files V s) else files V s) \<and>
        dirs V s' = dirs V s)"

definition dir_laws :: "('fs, 'f) lfs_api \<Rightarrow> ('fs, 'f) lfs_view \<Rightarrow> bool" where
  "dir_laws L V \<longleftrightarrow>
     (\<forall>s p es. lfs_dir_entries L s p = Some es \<longrightarrow>
        (let ns = map info_name (filter (\<lambda>e. info_type e = LFS_TYPE_REG) es) in
         distinct ns \<and> set ns \<subseteq> {n. CHR ''/'' \<notin> set n \<and> p @ ''/'' @ n \<in> dom (files V s)}))"

definition lfs_laws :: "('fs, 'f) lfs_api \<Rightarrow> ('fs, 'f) lfs_view \<Rightarrow> bool" where
  "lfs_laws L V \<longleftrightarrow> volume_laws L V \<and> open_laws L V \<and> read_laws L V \<and> write_laws L V \<and>
     sync_laws L V \<and> close_laws L V \<and> dir_laws L V"

definition lfs_reliable :: "('fs, 'f) lfs_api \<Rightarrow> ('fs, 'f) lfs_view \<Rightarrow> bool" where
  \<comment> \<open>no fault in finding, reading, listing and removing what is there; nothing is said of writes,
      syncs and closes, which may fail\<close>
  "lfs_reliable L V \<longleftrightarrow>
     (\<forall>s p. p \<in> dom (files V s) \<longrightarrow> 0 \<le> lfs_stat L s p) \<and>
     (\<forall>s p. p \<in> dom (files V s) \<longrightarrow> 0 \<le> fst (lfs_file_open L s p RDONLY)) \<and>
     (\<forall>s h n. 0 \<le> fst (lfs_file_read L s h n)) \<and>
     (\<forall>s p. p \<in> dom (files V s) \<longrightarrow> 0 \<le> fst (lfs_remove L s p)) \<and>
     (\<forall>s p es. lfs_dir_entries L s p = Some es \<longrightarrow>
        {n. CHR ''/'' \<notin> set n \<and> p @ ''/'' @ n \<in> dom (files V s)} \<subseteq>
        info_name ` {e \<in> set es. info_type e = LFS_TYPE_REG}) \<and>
     (\<forall>s p. p \<in> dirs V s \<longrightarrow> lfs_dir_entries L s p \<noteq> None)"

definition lfs_commits :: "('fs, 'f) lfs_api \<Rightarrow> bool" where
  \<comment> \<open>no close fails: what was written is committed\<close>
  "lfs_commits L \<longleftrightarrow> (\<forall>s h. 0 \<le> fst (lfs_file_close L s h))"

section \<open>The laws as rules\<close>

lemma lfs_lawsD:
  assumes "lfs_laws L V"
  shows "volume_laws L V" and "open_laws L V" and "read_laws L V" and "write_laws L V"
    and "sync_laws L V" and "close_laws L V" and "dir_laws L V"
  using assms by (simp_all add: lfs_laws_def)

lemma law_open:
  assumes "lfs_laws L V" and "lfs_file_open L s p m = (rc, h, s')" and "m \<noteq> WRONLY_CREAT_TRUNC"
  shows "same_volume V s s'"
    and "0 \<le> rc \<Longrightarrow> \<exists>d. files V s p = Some d \<and>
           handle V h = Some \<lparr>vpath = p, vdata = d, vpos = 0, vdirty = False\<rparr>"
  using lfs_lawsD(2) [OF assms(1)] assms(2,3) unfolding open_laws_def by blast+

lemma law_creat:
  assumes "lfs_laws L V" and "lfs_file_open L s p WRONLY_CREAT_TRUNC = (rc, h, s')"
  shows "dirs V s' = dirs V s" and "rc < 0 \<Longrightarrow> files V s' = files V s"
    and "0 \<le> rc \<Longrightarrow>
      files V s' = (if files V s p = None then (files V s)(p \<mapsto> []) else files V s)"
    and "0 \<le> rc \<Longrightarrow> handle V h = Some \<lparr>vpath = p, vdata = [], vpos = 0, vdirty = True\<rparr>"
proof -
  have "dirs V s' = dirs V s \<and>
        (if 0 \<le> rc
         then files V s' = (if files V s p = None then (files V s)(p \<mapsto> []) else files V s) \<and>
              handle V h = Some \<lparr>vpath = p, vdata = [], vpos = 0, vdirty = True\<rparr>
         else files V s' = files V s)"
    using lfs_lawsD(2) [OF assms(1)] assms(2) unfolding open_laws_def by blast
  then show "dirs V s' = dirs V s" and "rc < 0 \<Longrightarrow> files V s' = files V s"
    and "0 \<le> rc \<Longrightarrow>
      files V s' = (if files V s p = None then (files V s)(p \<mapsto> []) else files V s)"
    and "0 \<le> rc \<Longrightarrow> handle V h = Some \<lparr>vpath = p, vdata = [], vpos = 0, vdirty = True\<rparr>"
    by simp_all
qed

lemma law_read:
  assumes "lfs_laws L V" and "lfs_file_read L s h n = (rc, bs, h', s')" and "handle V h = Some v"
  shows "same_volume V s s'" and "\<exists>k. handle V h' = Some (v\<lparr>vpos := k\<rparr>)"
    and "0 \<le> rc \<Longrightarrow> bs = take n (drop (vpos v) (vdata v)) \<and> rc = int (length bs)"
  using lfs_lawsD(3) [OF assms(1)] assms(2,3) unfolding read_laws_def by blast+

lemma law_write:
  assumes "lfs_laws L V" and "lfs_file_write L s h b = (rc, h', s')"
  shows "same_volume V s s'" and "handle V h = None \<Longrightarrow> handle V h' = None"
    and "handle V h = Some v \<Longrightarrow> 0 \<le> rc \<Longrightarrow> rc = int (length b) \<and>
      handle V h' = Some (v\<lparr>vdata := splice_at (vdata v) (vpos v) b,
                            vpos := vpos v + length b, vdirty := True\<rparr>)"
    and "handle V h = Some v \<Longrightarrow> rc < 0 \<Longrightarrow> handle V h' = None"
  using lfs_lawsD(4) [OF assms(1)] assms(2) unfolding write_laws_def by blast+

lemma law_size:
  assumes "lfs_laws L V" and "handle V h = Some v"
  shows "lfs_file_size L s h = int (length (vdata v))"
  using lfs_lawsD(5) [OF assms(1)] assms unfolding sync_laws_def by blast

lemma law_sync:
  assumes "lfs_laws L V" and "lfs_file_sync L s h = (rc, h', s')"
  shows "files V s' = (if 0 \<le> rc then commit (handle V h) (files V s) else files V s)"
    and "dirs V s' = dirs V s"
    and "handle V h = None \<Longrightarrow> handle V h' = None"
    and "handle V h = Some v \<Longrightarrow>
      handle V h' = None \<or> (\<exists>d. handle V h' = Some (v\<lparr>vdirty := d\<rparr>) \<and> (d \<longrightarrow> vdirty v))"
  using lfs_lawsD(5) [OF assms(1)] assms unfolding sync_laws_def by blast+

lemma law_close:
  assumes "lfs_laws L V" and "lfs_file_close L s h = (rc, s')"
  shows "files V s' = (if 0 \<le> rc then commit (handle V h) (files V s) else files V s)"
    and "dirs V s' = dirs V s"
  using lfs_lawsD(6) [OF assms(1)] assms unfolding close_laws_def by blast+

lemma law_remove:
  assumes "lfs_laws L V" and "lfs_remove L s p = (rc, s')" and "p \<notin> dirs V s"
  shows "files V s' = (if 0 \<le> rc then (files V s)(p := None) else files V s)"
    and "dirs V s' = dirs V s" and "0 \<le> rc \<Longrightarrow> p \<in> dom (files V s)"
  using lfs_lawsD(1) [OF assms(1)] assms unfolding volume_laws_def by blast+

lemma law_mkdir:
  assumes "lfs_laws L V" and "lfs_mkdir L s p = (rc, s')"
  shows "files V s' = files V s"
    and "dirs V s' = (if 0 \<le> rc then insert p (dirs V s) else dirs V s)"
  using lfs_lawsD(1) [OF assms(1)] assms unfolding volume_laws_def by blast+

lemma law_mount:
  assumes "lfs_laws L V" and "lfs_mount L s = (rc, s')"
  shows "files V s' = files V s" and "dirs V s' = dirs V s"
  using lfs_lawsD(1) [OF assms(1)] assms unfolding volume_laws_def by blast+

lemma law_format:
  assumes "lfs_laws L V" and "lfs_format L s = (rc, s')" and "0 \<le> rc"
  shows "files V s' = Map.empty" and "dirs V s' = {}"
  using lfs_lawsD(1) [OF assms(1)] assms unfolding volume_laws_def by blast+

lemma law_stat:
  assumes "lfs_laws L V" and "0 \<le> lfs_stat L s p"
  shows "p \<in> dom (files V s) \<or> p \<in> dirs V s"
  using lfs_lawsD(1) [OF assms(1)] assms unfolding volume_laws_def by blast

lemma reliable:
  assumes "lfs_reliable L V"
  shows "p \<in> dom (files V s) \<Longrightarrow> 0 \<le> lfs_stat L s p"
    and "p \<in> dom (files V s) \<Longrightarrow> lfs_file_open L s p RDONLY = (rc, h, s') \<Longrightarrow> 0 \<le> rc"
    and "lfs_file_read L s h n = (rc, bs, h', s') \<Longrightarrow> 0 \<le> rc"
    and "p \<in> dom (files V s) \<Longrightarrow> lfs_remove L s p = (rc, s') \<Longrightarrow> 0 \<le> rc"
    and "p \<in> dirs V s \<Longrightarrow> lfs_dir_entries L s p \<noteq> None"
  using assms unfolding lfs_reliable_def by (blast | metis fst_conv)+

lemma reliable_entries:
  assumes "lfs_laws L V" and "lfs_reliable L V" and "lfs_dir_entries L s p = Some es"
  shows "distinct (map info_name (filter (\<lambda>e. info_type e = LFS_TYPE_REG) es))"
    and "info_name ` {e \<in> set es. info_type e = LFS_TYPE_REG} =
      {n. CHR ''/'' \<notin> set n \<and> p @ ''/'' @ n \<in> dom (files V s)}"
proof -
  have *: "distinct (map info_name (filter (\<lambda>e. info_type e = LFS_TYPE_REG) es)) \<and>
      set (map info_name (filter (\<lambda>e. info_type e = LFS_TYPE_REG) es)) \<subseteq>
      {n. CHR ''/'' \<notin> set n \<and> p @ ''/'' @ n \<in> dom (files V s)}"
    using lfs_lawsD(7) [OF assms(1)] assms(3) unfolding dir_laws_def Let_def by blast
  then show "distinct (map info_name (filter (\<lambda>e. info_type e = LFS_TYPE_REG) es))" ..
  have "{n. CHR ''/'' \<notin> set n \<and> p @ ''/'' @ n \<in> dom (files V s)} \<subseteq>
      info_name ` {e \<in> set es. info_type e = LFS_TYPE_REG}"
    using assms(2,3) unfolding lfs_reliable_def by blast
  with * show "info_name ` {e \<in> set es. info_type e = LFS_TYPE_REG} =
      {n. CHR ''/'' \<notin> set n \<and> p @ ''/'' @ n \<in> dom (files V s)}"
    by auto
qed

section \<open>A RAM instance\<close>

record ram =
  ram_files :: "(string \<times> u8 list) list"
  ram_dirs :: "string list"

definition ram_open :: "ram \<Rightarrow> string \<Rightarrow> open_mode \<Rightarrow> int \<times> fview option \<times> ram" where
  "ram_open s p m = (case m of
     WRONLY_CREAT_TRUNC \<Rightarrow>
       (0, Some \<lparr>vpath = p, vdata = [], vpos = 0, vdirty = True\<rparr>,
        if map_of (ram_files s) p = None then s\<lparr>ram_files := AList.update p [] (ram_files s)\<rparr> else s)
   | _ \<Rightarrow> (case map_of (ram_files s) p of
       None \<Rightarrow> (-2, None, s)
     | Some d \<Rightarrow> (0, Some \<lparr>vpath = p, vdata = d, vpos = 0, vdirty = False\<rparr>, s)))"

definition ram_read :: "ram \<Rightarrow> fview option \<Rightarrow> nat \<Rightarrow> int \<times> u8 list \<times> fview option \<times> ram" where
  "ram_read s h n = (case h of
     None \<Rightarrow> (0, [], None, s)
   | Some v \<Rightarrow> let bs = take n (drop (vpos v) (vdata v)) in
       (int (length bs), bs, Some (v\<lparr>vpos := vpos v + length bs\<rparr>), s))"

definition ram_write :: "ram \<Rightarrow> fview option \<Rightarrow> u8 list \<Rightarrow> int \<times> fview option \<times> ram" where
  "ram_write s h b = (case h of
     None \<Rightarrow> (-5, None, s)
   | Some v \<Rightarrow> (int (length b),
       Some (v\<lparr>vdata := splice_at (vdata v) (vpos v) b, vpos := vpos v + length b, vdirty := True\<rparr>), s))"

definition ram_commit :: "ram \<Rightarrow> fview option \<Rightarrow> ram" where
  "ram_commit s h = (case h of
     Some v \<Rightarrow> if vdirty v then s\<lparr>ram_files := AList.update (vpath v) (vdata v) (ram_files s)\<rparr> else s
   | None \<Rightarrow> s)"

definition ram_dir_entries :: "ram \<Rightarrow> string \<Rightarrow> lfs_info list option" where
  "ram_dir_entries s p =
     (if p \<in> set (ram_dirs s)
      then Some (map (\<lambda>n. \<lparr>info_type = LFS_TYPE_REG, info_name = n\<rparr>)
        (filter (\<lambda>n. CHR ''/'' \<notin> set n)
          (map (drop (length p + 1)) (filter (\<lambda>q. take (length p + 1) q = p @ ''/'')
            (remdups (map fst (ram_files s)))))))
      else None)"

definition ram_api :: "(ram, fview option) lfs_api" where
  "ram_api = \<lparr>
     lfs_format = \<lambda>s. (0, s\<lparr>ram_files := [], ram_dirs := []\<rparr>),
     lfs_mount = \<lambda>s. (0, s),
     lfs_stat = \<lambda>s p. if map_of (ram_files s) p \<noteq> None \<or> p \<in> set (ram_dirs s) then 0 else - 2,
     lfs_mkdir = \<lambda>s p. (0, s\<lparr>ram_dirs := p # ram_dirs s\<rparr>),
     lfs_file_open = ram_open,
     lfs_file_read = ram_read,
     lfs_file_write = ram_write,
     lfs_file_size = \<lambda>s h. case h of Some v \<Rightarrow> int (length (vdata v)) | None \<Rightarrow> 0,
     lfs_file_sync = \<lambda>s h. (0, map_option (\<lambda>v. v\<lparr>vdirty := False\<rparr>) h, ram_commit s h),
     lfs_file_close = \<lambda>s h. (0, ram_commit s h),
     lfs_remove = \<lambda>s p. if map_of (ram_files s) p = None then (-2, s)
       else (0, s\<lparr>ram_files := AList.delete p (ram_files s)\<rparr>),
     lfs_dir_entries = ram_dir_entries\<rparr>"

definition ram_view :: "(ram, fview option) lfs_view" where
  "ram_view = \<lparr>files = \<lambda>s. map_of (ram_files s), dirs = \<lambda>s. set (ram_dirs s), handle = \<lambda>h. h\<rparr>"

lemma ram_files_commit: "map_of (ram_files (ram_commit s h)) = commit h (map_of (ram_files s))"
  by (auto simp: ram_commit_def commit_def update_conv' split: option.splits)

lemma ram_dirs_commit: "ram_dirs (ram_commit s h) = ram_dirs s"
  by (simp add: ram_commit_def split: option.split)

lemma ram_volume: "volume_laws ram_api ram_view"
  by (auto simp: volume_laws_def ram_api_def ram_view_def delete_conv' dom_def)

lemma ram_opens: "open_laws ram_api ram_view"
  by (auto simp: open_laws_def ram_api_def ram_view_def ram_open_def update_conv' same_volume_def
      split: option.splits if_splits open_mode.splits)

lemma ram_io:
  "read_laws ram_api ram_view" "write_laws ram_api ram_view"
  "sync_laws ram_api ram_view" "close_laws ram_api ram_view"
  by (auto simp: read_laws_def write_laws_def sync_laws_def close_laws_def ram_api_def ram_view_def ram_read_def ram_write_def ram_files_commit
      ram_dirs_commit same_volume_def Let_def split: option.splits if_splits)

lemma ram_names:
  "ram_dir_entries s p = Some es \<Longrightarrow>
   (let ns = map info_name (filter (\<lambda>e. info_type e = LFS_TYPE_REG) es) in
    distinct ns \<and> set ns = {n. CHR ''/'' \<notin> set n \<and> p @ ''/'' @ n \<in> dom (map_of (ram_files s))})"
proof -
  assume "ram_dir_entries s p = Some es"
  then have es: "es = map (\<lambda>n. \<lparr>info_type = LFS_TYPE_REG, info_name = n\<rparr>)
        (filter (\<lambda>n. CHR ''/'' \<notin> set n)
          (map (drop (length p + 1)) (filter (\<lambda>q. take (length p + 1) q = p @ ''/'')
            (remdups (map fst (ram_files s))))))" (is "_ = map _ ?ns")
    by (auto simp: ram_dir_entries_def split: if_splits)
  have ns: "map info_name (filter (\<lambda>e. info_type e = LFS_TYPE_REG) es) = ?ns"
    unfolding es by (simp add: filter_map comp_def)
  have "inj_on (drop (length p + 1)) {q. take (length p + 1) q = p @ ''/''}"
    by (rule inj_onI) (metis append_take_drop_id mem_Collect_eq)
  then have "distinct ?ns"
    by (intro distinct_filter) (auto simp: distinct_map elim: inj_on_subset)
  moreover have "set ?ns = {n. CHR ''/'' \<notin> set n \<and> p @ ''/'' @ n \<in> dom (map_of (ram_files s))}"
  proof (intro set_eqI iffI)
    fix n
    assume "n \<in> set ?ns"
    then obtain q where q: "q \<in> fst ` set (ram_files s)" "take (length p + 1) q = p @ ''/''"
      "n = drop (length p + 1) q" "CHR ''/'' \<notin> set n"
      by (simp only: set_filter set_map set_remdups) blast
    have "q = (p @ ''/'') @ n"
      unfolding q(3) using q(2) append_take_drop_id [of "length p + 1" q] by simp
    then show "n \<in> {n. CHR ''/'' \<notin> set n \<and> p @ ''/'' @ n \<in> dom (map_of (ram_files s))}"
      using q(1,4) by (simp add: dom_map_of_conv_image_fst)
  next
    fix n
    assume "n \<in> {n. CHR ''/'' \<notin> set n \<and> p @ ''/'' @ n \<in> dom (map_of (ram_files s))}"
    then have n: "CHR ''/'' \<notin> set n" "p @ ''/'' @ n \<in> fst ` set (ram_files s)"
      by (simp_all add: dom_map_of_conv_image_fst)
    then have "n \<in> drop (length p + 1) ` {q \<in> fst ` set (ram_files s). take (length p + 1) q = p @ ''/''}"
      by (intro image_eqI [of _ _ "p @ ''/'' @ n"]) simp_all
    with n(1) show "n \<in> set ?ns"
      by (simp only: set_filter set_map set_remdups) blast
  qed
  ultimately show ?thesis
    by (simp add: ns Let_def)
qed

lemma ram_laws: "lfs_laws ram_api ram_view"
proof -
  have "dir_laws ram_api ram_view"
    unfolding dir_laws_def using ram_names
    by (simp add: ram_api_def ram_view_def Let_def)
  then show ?thesis
    by (simp add: lfs_laws_def ram_volume ram_opens ram_io)
qed

lemma ram_commits: "lfs_commits ram_api"
  by (simp add: lfs_commits_def ram_api_def)

lemma ram_reliable: "lfs_reliable ram_api ram_view"
proof -
  have "\<forall>s p es. lfs_dir_entries ram_api s p = Some es \<longrightarrow>
      {n. CHR ''/'' \<notin> set n \<and> p @ ''/'' @ n \<in> dom (files ram_view s)} \<subseteq>
      info_name ` {e \<in> set es. info_type e = LFS_TYPE_REG}"
  proof (intro allI impI)
    fix s p es
    assume "lfs_dir_entries ram_api s p = Some es"
    then have "ram_dir_entries s p = Some es"
      by (simp add: ram_api_def)
    from ram_names [OF this]
    show "{n. CHR ''/'' \<notin> set n \<and> p @ ''/'' @ n \<in> dom (files ram_view s)} \<subseteq>
        info_name ` {e \<in> set es. info_type e = LFS_TYPE_REG}"
      by (simp only: Let_def ram_view_def lfs_view.simps set_map set_filter)
  qed
  moreover have "\<forall>s p. p \<in> dirs ram_view s \<longrightarrow> lfs_dir_entries ram_api s p \<noteq> None"
    by (simp add: ram_api_def ram_view_def ram_dir_entries_def)
  moreover have "\<forall>s p. p \<in> dom (files ram_view s) \<longrightarrow> 0 \<le> lfs_stat ram_api s p"
    by (auto simp: ram_api_def ram_view_def)
  moreover have "\<forall>s p. p \<in> dom (files ram_view s) \<longrightarrow> 0 \<le> fst (lfs_file_open ram_api s p RDONLY)"
    by (auto simp: ram_api_def ram_view_def ram_open_def)
  moreover have "\<forall>s h n. 0 \<le> fst (lfs_file_read ram_api s h n)"
    by (simp add: ram_api_def ram_read_def Let_def split: option.split)
  moreover have "\<forall>s p. p \<in> dom (files ram_view s) \<longrightarrow> 0 \<le> fst (lfs_remove ram_api s p)"
    by (auto simp: ram_api_def ram_view_def)
  ultimately show ?thesis
    unfolding lfs_reliable_def by blast
qed

end
