(* ===== verification/Storage.thy ===== *)
theory Storage imports Lfs
begin

text \<open>
  \<open>storage/storage.c\<close> and \<open>storage/storage.h\<close>: key records and their 48-byte flash image,
  the flash device callbacks, mounting, the WiFi file and the key operations. A store is the
  littlefs state and the \<open>mounted\<close> flag; littlefs itself is the parameter \<open>L\<close>, and
  \<open>lfs_crc\<close> (littlefs's \<open>lfs_util\<close>) the parameter \<open>crc\<close>. The diagnostic lines the functions
  print are not part of the model. Output buffers are results: a function that fails
  leaves the caller's record unread, which is \<open>None\<close> here.
\<close>

type_synonym crc32 = "u32 \<Rightarrow> u8 list \<Rightarrow> u32"

section \<open>Records\<close>

definition KEY_MAX_COUNT :: nat where
  "KEY_MAX_COUNT = 128"

definition KEY_ID_MAX :: u16 where
  "KEY_ID_MAX = 127"

definition KEY_NAME_MAX :: nat where
  "KEY_NAME_MAX = 16"

definition KEY_SECRET_LEN :: nat where
  "KEY_SECRET_LEN = 20"

record key_record_t =
  key_id :: u16
  key_name :: string
  secret :: "u8 list"
  is_enabled :: bool
  is_admin :: bool
  created_at :: u32
  is_checksum_valid :: bool

record wifi_config_t =
  ssid :: string
  password :: string

record key_record_stored_t =
  s_id :: u16
  s_name :: string
  s_secret :: "u8 list"
  s_is_enabled :: u8  \<comment> \<open>the byte of a \<open>bool\<close>\<close>
  s_is_admin :: u8
  s_created_at :: u32
  s_checksum :: u32

definition bool_byte :: "bool \<Rightarrow> u8" where
  "bool_byte b = (if b then 1 else 0)"

definition key_checksum :: "crc32 \<Rightarrow> key_record_stored_t \<Rightarrow> u32" where
  "key_checksum lfs_crc key =
     (let c0 = 0xFFFFFFFF;
          c1 = lfs_crc c0 (le16 (s_id key));
          c2 = lfs_crc c1 (map byte_of_char (s_name key));
          c3 = lfs_crc c2 (s_secret key);
          c4 = lfs_crc c3 [s_is_enabled key];
          c5 = lfs_crc c4 [s_is_admin key]
      in lfs_crc c5 (le32 (s_created_at key)))"

definition to_stored :: "crc32 \<Rightarrow> key_record_t \<Rightarrow> key_record_stored_t" where
  "to_stored lfs_crc k =
     (let s = \<lparr>s_id = key_id k, s_name = key_name k, s_secret = secret k,
               s_is_enabled = bool_byte (is_enabled k), s_is_admin = bool_byte (is_admin k),
               s_created_at = created_at k, s_checksum = 0\<rparr>
      in s\<lparr>s_checksum := key_checksum lfs_crc s\<rparr>)"

definition to_record :: "crc32 \<Rightarrow> key_record_stored_t \<Rightarrow> key_record_t" where
  \<comment> \<open>the C code loads the flag bytes as \<open>bool\<close>, which is defined for the bytes 0 and 1 only;
      another byte is read as true here\<close>
  "to_record lfs_crc s =
     \<lparr>key_id = s_id s, key_name = (s_name s)[KEY_NAME_MAX - 1 := NUL], secret = s_secret s,
      is_enabled = (s_is_enabled s \<noteq> 0), is_admin = (s_is_admin s \<noteq> 0),
      created_at = s_created_at s,
      is_checksum_valid = (s_checksum s = key_checksum lfs_crc s)\<rparr>"

text \<open>The memory image of \<open>key_record_stored_t\<close>: every member is at its natural alignment, so
  there is no padding.\<close>

definition stored_image :: "key_record_stored_t \<Rightarrow> u8 list" where
  "stored_image s = le16 (s_id s) @ map byte_of_char (s_name s) @ s_secret s @
     [s_is_enabled s, s_is_admin s] @ le32 (s_created_at s) @ le32 (s_checksum s)"

definition SIZEOF_STORED :: nat where
  "SIZEOF_STORED = 48"

definition of_stored_image :: "u8 list \<Rightarrow> key_record_stored_t" where
  "of_stored_image bs =
     \<lparr>s_id = of_le16 (take 2 bs), s_name = map char_of_byte (take 16 (drop 2 bs)),
      s_secret = take 20 (drop 18 bs), s_is_enabled = bs ! 38, s_is_admin = bs ! 39,
      s_created_at = of_le32 (take 4 (drop 40 bs)), s_checksum = of_le32 (take 4 (drop 44 bs))\<rparr>"

definition wifi_image :: "wifi_config_t \<Rightarrow> u8 list" where
  "wifi_image c = map byte_of_char (ssid c @ password c)"

definition of_wifi_image :: "u8 list \<Rightarrow> wifi_config_t" where
  "of_wifi_image bs = \<lparr>ssid = map char_of_byte (take 64 bs), password = map char_of_byte (take 64 (drop 64 bs))\<rparr>"

definition WIFI_SSID_MAX :: nat where
  "WIFI_SSID_MAX = 64"

definition WIFI_PASSWORD_MAX :: nat where
  "WIFI_PASSWORD_MAX = 64"

definition SIZEOF_WIFI :: nat where
  "SIZEOF_WIFI = WIFI_SSID_MAX + WIFI_PASSWORD_MAX"

section \<open>Flash device callbacks\<close>

definition PICO_FLASH_SIZE_BYTES :: u32 where
  "PICO_FLASH_SIZE_BYTES = 2 * 1024 * 1024"

definition STORAGE_SIZE_BYTES :: u32 where
  "STORAGE_SIZE_BYTES = 256 * 1024"

definition STORAGE_FLASH_OFFSET :: u32 where
  "STORAGE_FLASH_OFFSET = PICO_FLASH_SIZE_BYTES - STORAGE_SIZE_BYTES"

definition LFS_BLOCK_SIZE :: u32 where
  "LFS_BLOCK_SIZE = 4096"

definition LFS_BLOCK_COUNT :: u32 where
  "LFS_BLOCK_COUNT = STORAGE_SIZE_BYTES div LFS_BLOCK_SIZE"

definition XIP_BASE :: u32 where
  "XIP_BASE = 0x10000000"

definition LFS_ERR_IO :: int where
  "LFS_ERR_IO = -5"

datatype flash_op =
    do_flash_program u32 "u8 list"  \<comment> \<open>offset, data\<close>
  | do_flash_erase u32 u32  \<comment> \<open>offset, size\<close>

type_synonym 'm flash_exec = "flash_op \<Rightarrow> 'm \<Rightarrow> int \<times> 'm"
  \<comment> \<open>\<open>flash_safe_execute\<close>: \<open>PICO_OK\<close> (0) when the callback ran\<close>

definition flash_read :: "(u32 \<Rightarrow> u8) \<Rightarrow> u32 \<Rightarrow> u32 \<Rightarrow> nat \<Rightarrow> int \<times> u8 list" where
  "flash_read mem block off n =
     (let addr = XIP_BASE + STORAGE_FLASH_OFFSET + block * LFS_BLOCK_SIZE + off
      in (0, map (\<lambda>i. mem (addr + of_nat i)) [0..<n]))"

definition flash_prog :: "'m flash_exec \<Rightarrow> u32 \<Rightarrow> u32 \<Rightarrow> u8 list \<Rightarrow> 'm \<Rightarrow> int \<times> 'm" where
  "flash_prog exec block off data m =
     (let (rc, m') = exec (do_flash_program (STORAGE_FLASH_OFFSET + block * LFS_BLOCK_SIZE + off) data) m
      in (if rc = 0 then 0 else LFS_ERR_IO, m'))"

definition flash_erase :: "'m flash_exec \<Rightarrow> u32 \<Rightarrow> 'm \<Rightarrow> int \<times> 'm" where
  "flash_erase exec block m =
     (let (rc, m') = exec (do_flash_erase (STORAGE_FLASH_OFFSET + block * LFS_BLOCK_SIZE) LFS_BLOCK_SIZE) m
      in (if rc = 0 then 0 else LFS_ERR_IO, m'))"

section \<open>Mounting\<close>

record 'fs store =
  lfs :: 'fs
  mounted :: bool

definition DIR_KEYS :: string where
  "DIR_KEYS = ''/keys''"

definition FILE_WIFI :: string where
  "FILE_WIFI = ''/wifi''"

definition ensure_dirs :: "('fs, 'f) lfs_api \<Rightarrow> 'fs store \<Rightarrow> bool \<times> 'fs store" where
  "ensure_dirs L st =
     (if lfs_stat L (lfs st) DIR_KEYS < 0
      then (let (rc, s) = lfs_mkdir L (lfs st) DIR_KEYS in (0 \<le> rc, st\<lparr>lfs := s\<rparr>))
      else (True, st))"

definition key_path :: "u16 \<Rightarrow> string" where
  \<comment> \<open>\<open>snprintf(out, 40, "/keys/%05u", id)\<close>: at most 11 characters, never truncated\<close>
  "key_path i = DIR_KEYS @ ''/'' @ zero_pad 5 (udec (unat i))"

definition storage_init :: "('fs, 'f) lfs_api \<Rightarrow> 'fs store \<Rightarrow> bool \<times> 'fs store" where
  "storage_init L st =
     (let (rc, s) = lfs_mount L (lfs st); st = st\<lparr>lfs := s\<rparr> in
      if rc < 0 then (False, st)
      else let (ok, st) = ensure_dirs L st in
        if \<not> ok then (False, st) else (True, st\<lparr>mounted := True\<rparr>))"

definition storage_is_mounted :: "'fs store \<Rightarrow> bool" where
  "storage_is_mounted st = mounted st"

definition storage_format :: "('fs, 'f) lfs_api \<Rightarrow> 'fs store \<Rightarrow> bool \<times> 'fs store" where
  "storage_format L st =
     (let st = st\<lparr>mounted := False\<rparr>;
          (rc, s) = lfs_format L (lfs st);
          st = st\<lparr>lfs := s\<rparr>
      in if rc < 0 then (False, st) else storage_init L st)"

section \<open>Reading and writing whole files\<close>

definition read_file :: "('fs, 'f) lfs_api \<Rightarrow> string \<Rightarrow> nat \<Rightarrow> 'fs store \<Rightarrow> u8 list option \<times> 'fs store" where
  \<comment> \<open>open, read \<open>n\<close> bytes, close; \<open>None\<close> when the open fails or fewer bytes are there\<close>
  "read_file L path n st =
     (let (rc, f, s1) = lfs_file_open L (lfs st) path RDONLY in
      if rc < 0 then (None, st\<lparr>lfs := s1\<rparr>)
      else let (m, bs, f2, s2) = lfs_file_read L s1 f n;
               (_, s3) = lfs_file_close L s2 f2
           in (if m \<noteq> int n then None else Some bs, st\<lparr>lfs := s3\<rparr>))"

definition write_file :: "('fs, 'f) lfs_api \<Rightarrow> string \<Rightarrow> u8 list \<Rightarrow> 'fs store \<Rightarrow> bool \<times> 'fs store" where
  \<comment> \<open>open for writing (create, truncate), write, close; the result of the close is ignored\<close>
  "write_file L path bs st =
     (let (rc, f, s1) = lfs_file_open L (lfs st) path WRONLY_CREAT_TRUNC in
      if rc < 0 then (False, st\<lparr>lfs := s1\<rparr>)
      else let (m, f2, s2) = lfs_file_write L s1 f bs;
               (_, s3) = lfs_file_close L s2 f2
           in (m = int (length bs), st\<lparr>lfs := s3\<rparr>))"

section \<open>WiFi credentials\<close>

definition storage_wifi_get :: "('fs, 'f) lfs_api \<Rightarrow> 'fs store \<Rightarrow> wifi_config_t option \<times> 'fs store" where
  "storage_wifi_get L st =
     (if \<not> mounted st then (None, st)
      else case read_file L FILE_WIFI SIZEOF_WIFI st of
        (None, st) \<Rightarrow> (None, st)
      | (Some bs, st) \<Rightarrow>
          let c = of_wifi_image bs in
          (Some \<lparr>ssid = (ssid c)[WIFI_SSID_MAX - 1 := NUL],
                 password = (password c)[WIFI_PASSWORD_MAX - 1 := NUL]\<rparr>, st))"

definition storage_wifi_set :: "('fs, 'f) lfs_api \<Rightarrow> wifi_config_t \<Rightarrow> 'fs store \<Rightarrow> bool \<times> 'fs store" where
  "storage_wifi_set L cfg st =
     (if \<not> mounted st then (False, st) else write_file L FILE_WIFI (wifi_image cfg) st)"

definition storage_wifi_clear :: "('fs, 'f) lfs_api \<Rightarrow> 'fs store \<Rightarrow> bool \<times> 'fs store" where
  "storage_wifi_clear L st =
     (if \<not> mounted st then (False, st)
      else let (rc, s) = lfs_remove L (lfs st) FILE_WIFI in (0 \<le> rc, st\<lparr>lfs := s\<rparr>))"

section \<open>Keys\<close>

definition storage_key_exists :: "('fs, 'f) lfs_api \<Rightarrow> u16 \<Rightarrow> 'fs store \<Rightarrow> bool" where
  "storage_key_exists L i st = (mounted st \<and> 0 \<le> lfs_stat L (lfs st) (key_path i))"

definition storage_key_get ::
  "('fs, 'f) lfs_api \<Rightarrow> crc32 \<Rightarrow> u16 \<Rightarrow> 'fs store \<Rightarrow> key_record_t option \<times> 'fs store" where
  "storage_key_get L crc i st =
     (if \<not> mounted st then (None, st)
      else case read_file L (key_path i) SIZEOF_STORED st of
        (None, st) \<Rightarrow> (None, st)
      | (Some bs, st) \<Rightarrow> (Some (to_record crc (of_stored_image bs)), st))"

definition storage_key_save ::
  "('fs, 'f) lfs_api \<Rightarrow> crc32 \<Rightarrow> key_record_t \<Rightarrow> 'fs store \<Rightarrow> bool \<times> 'fs store" where
  "storage_key_save L crc key st =
     (if \<not> mounted st then (False, st)
      else if KEY_ID_MAX < key_id key then (False, st)
      else write_file L (key_path (key_id key)) (stored_image (to_stored crc key)) st)"

fun zero_loop :: "('fs, 'f) lfs_api \<Rightarrow> nat \<Rightarrow> 'f \<Rightarrow> 'fs \<Rightarrow> 'f \<times> 'fs" where
  \<comment> \<open>\<open>while (remaining > 0)\<close>: zeros in chunks of at most 48 bytes, until a write fails\<close>
  "zero_loop L remaining f s =
     (if remaining = 0 then (f, s)
      else let chunk = min remaining SIZEOF_STORED;
               (rc, f, s) = lfs_file_write L s f (replicate chunk 0)
           in if rc < 0 \<or> chunk = 0 then (f, s) else zero_loop L (remaining - chunk) f s)"

declare zero_loop.simps [simp del]

definition scrub_file :: "('fs, 'f) lfs_api \<Rightarrow> string \<Rightarrow> 'fs \<Rightarrow> 'fs" where
  \<comment> \<open>the overwrite of \<open>storage_key_delete\<close>, before the unlink\<close>
  "scrub_file L path s =
     (let (rc, f, s) = lfs_file_open L s path WRONLY in
      if 0 \<le> rc
      then let size = lfs_file_size L s f;
               (f, s) = (if 0 < size
                         then let (f, s) = zero_loop L (nat size) f s;
                                  (_, f, s) = lfs_file_sync L s f
                              in (f, s)
                         else (f, s))
           in snd (lfs_file_close L s f)
      else s)"

definition storage_key_delete :: "('fs, 'f) lfs_api \<Rightarrow> u16 \<Rightarrow> 'fs store \<Rightarrow> bool \<times> 'fs store" where
  "storage_key_delete L i st =
     (if \<not> mounted st then (False, st)
      else let s = scrub_file L (key_path i) (lfs st);
               (rc, s) = lfs_remove L s (key_path i)
           in (0 \<le> rc, st\<lparr>lfs := s\<rparr>))"

fun list_loop ::
  "('fs, 'f) lfs_api \<Rightarrow> crc32 \<Rightarrow> lfs_info list \<Rightarrow> nat \<Rightarrow> 'fs store \<Rightarrow> key_record_t list \<times> 'fs store" where
  \<comment> \<open>the directory loop with room for \<open>n\<close> more records\<close>
  "list_loop L crc [] n st = ([], st)"
| "list_loop L crc (info # infos) n st =
     (if n = 0 then ([], st)
      else if info_type info \<noteq> LFS_TYPE_REG then list_loop L crc infos n st
      else case storage_key_get L crc (ucast (strtoul10 (info_name info))) st of
        (None, st) \<Rightarrow> list_loop L crc infos n st
      | (Some r, st) \<Rightarrow>
          let (rs, st) = list_loop L crc infos (n - 1) st in (r # rs, st))"

definition storage_key_list ::
  "('fs, 'f) lfs_api \<Rightarrow> crc32 \<Rightarrow> int \<Rightarrow> 'fs store \<Rightarrow> key_record_t list option \<times> 'fs store" where
  \<comment> \<open>\<open>None\<close> is the result -1; the count is the length of the list\<close>
  "storage_key_list L crc max_count st =
     (if \<not> mounted st then (None, st)
      else let max_count = min max_count (int KEY_MAX_COUNT) in
        case lfs_dir_entries L (lfs st) DIR_KEYS of
          None \<Rightarrow> (None, st)
        | Some infos \<Rightarrow>
            let (rs, st) = list_loop L crc infos (nat max_count) st in (Some rs, st))"

section \<open>Byte images\<close>

definition stored_ok :: "key_record_stored_t \<Rightarrow> bool" where
  "stored_ok s \<longleftrightarrow> length (s_name s) = KEY_NAME_MAX \<and> length (s_secret s) = KEY_SECRET_LEN"

definition wf_key :: "key_record_t \<Rightarrow> bool" where
  "wf_key k \<longleftrightarrow> length (key_name k) = KEY_NAME_MAX \<and> length (secret k) = KEY_SECRET_LEN"

definition wf_wifi :: "wifi_config_t \<Rightarrow> bool" where
  "wf_wifi c \<longleftrightarrow> length (ssid c) = WIFI_SSID_MAX \<and> length (password c) = WIFI_PASSWORD_MAX"

interpretation le16: fixed_codec le16 of_le16 2 "\<lambda>_. True"
  by unfold_locales simp_all

interpretation le32: fixed_codec le32 of_le32 4 "\<lambda>_. True"
  by unfold_locales simp_all

lemma length_stored_image: "stored_ok s \<Longrightarrow> length (stored_image s) = SIZEOF_STORED"
  by (simp add: stored_ok_def stored_image_def SIZEOF_STORED_def KEY_NAME_MAX_def KEY_SECRET_LEN_def)

lemma of_stored_image_image: "stored_ok s \<Longrightarrow> of_stored_image (stored_image s) = s"
  by (simp add: stored_ok_def stored_image_def of_stored_image_def KEY_NAME_MAX_def
      KEY_SECRET_LEN_def nth_append)

interpretation stored: fixed_codec stored_image of_stored_image SIZEOF_STORED stored_ok
  by unfold_locales (simp_all add: length_stored_image of_stored_image_image)

interpretation wifi: fixed_codec wifi_image of_wifi_image SIZEOF_WIFI wf_wifi
  by unfold_locales
     (simp_all add: wf_wifi_def wifi_image_def of_wifi_image_def SIZEOF_WIFI_def
       WIFI_SSID_MAX_def WIFI_PASSWORD_MAX_def)

lemma stored_ok_to_stored: "wf_key k \<Longrightarrow> stored_ok (to_stored crc k)"
  by (simp add: wf_key_def stored_ok_def to_stored_def)

definition norm_key :: "key_record_t \<Rightarrow> key_record_t" where
  \<comment> \<open>what a saved record reads back as\<close>
  "norm_key k = k\<lparr>key_name := (key_name k)[KEY_NAME_MAX - 1 := NUL], is_checksum_valid := True\<rparr>"

lemma key_checksum_update: "key_checksum crc (s\<lparr>s_checksum := c\<rparr>) = key_checksum crc s"
  by (simp add: key_checksum_def)

lemma bool_byte_nonzero [simp]: "(bool_byte b \<noteq> 0) = b"
  by (simp add: bool_byte_def)

lemma to_record_to_stored: "to_record crc (to_stored crc k) = norm_key k"
  by (simp add: to_record_def to_stored_def norm_key_def Let_def key_checksum_def)

definition decode_key :: "crc32 \<Rightarrow> u8 list \<Rightarrow> key_record_t option" where
  \<comment> \<open>the record a key file of these contents reads as\<close>
  "decode_key crc d =
     (if SIZEOF_STORED \<le> length d
      then Some (to_record crc (of_stored_image (take SIZEOF_STORED d))) else None)"

lemma decode_saved: "wf_key k \<Longrightarrow> decode_key crc (stored_image (to_stored crc k)) = Some (norm_key k)"
  using stored_ok_to_stored [of k crc]
  by (simp add: decode_key_def stored.enc_width stored.dec_enc to_record_to_stored)

section \<open>Paths\<close>

lemma key_path_inj: "key_path i = key_path j \<Longrightarrow> i = j"
proof -
  assume "key_path i = key_path j"
  then have "zero_pad 5 (udec (unat i)) = zero_pad 5 (udec (unat j))"
    by (simp add: key_path_def)
  then have "dec_val (zero_pad 5 (udec (unat i))) = dec_val (zero_pad 5 (udec (unat j)))"
    by simp
  then have "unat i = unat j"
    by (simp add: zero_pad_def dec_val_zeros)
  then show "i = j"
    by (rule unsigned_word_eqI)
qed

lemma key_path_eq [simp]: "key_path i = key_path j \<longleftrightarrow> i = j"
  using key_path_inj by blast

lemma key_path_wifi [simp]: "key_path i \<noteq> FILE_WIFI" "FILE_WIFI \<noteq> key_path i"
  by (auto simp: key_path_def FILE_WIFI_def DIR_KEYS_def)

lemma key_path_dir [simp]: "key_path i \<noteq> DIR_KEYS"
  by (simp add: key_path_def)

lemma set_zero_pad: "c \<in> set (zero_pad w (udec n)) \<Longrightarrow> is_digit c"
  by (auto simp: zero_pad_def is_digit_def dest: set_udec)

lemma digit_not_slash: "is_digit c \<Longrightarrow> c \<noteq> CHR ''/''"
  by (auto simp: is_digit_def)

lemma file_name_id: "(ucast (strtoul10 (zero_pad 5 (udec (unat i)))) :: u16) = i"
proof -
  have v: "dec_val (zero_pad 5 (udec (unat i))) = unat i"
    by (simp add: zero_pad_def dec_val_zeros)
  have "unat i < 2 ^ 32"
    using unsigned_less [of i, where ?'a = nat] by simp
  then have "strtoul10 (zero_pad 5 (udec (unat i))) = of_nat (unat i)"
    using strtoul10_digits [of "zero_pad 5 (udec (unat i))"] set_zero_pad v by auto
  moreover have "(ucast (ucast i :: u32) :: u16) = i"
    by (rule bit_word_eqI) (auto simp: bit_simps)
  ultimately show ?thesis
    by simp
qed

lemma length_key_path: "length (key_path i) \<le> 11"
proof -
  have "unat i < 10 ^ Suc 4"
    using unsigned_less [of i, where ?'a = nat] by simp
  then have "length (udec (unat i)) \<le> 5"
    using length_udec by fastforce
  then show ?thesis
    by (simp add: key_path_def DIR_KEYS_def zero_pad_def)
qed

end
