(* ===== verification/Keystore.thy ===== *)
theory Keystore imports Storage
begin

text \<open>
  What the storage layer promises its callers: under littlefs's documented behaviour, the
  key operations of \<open>storage/storage.c\<close> implement a map from identifiers to records. The
  contract is the locale \<open>key_store\<close>; it is interpreted on the operations of theory Storage,
  for every file system that obeys \<open>lfs_laws\<close> and \<open>lfs_reliable\<close>. Writes may fail, and so may
  the close after a write, whose result the code ignores: a save reports success when its write
  did, and changes the map when its close did as well (\<open>save_commits\<close>). \<open>store_ok\<close>, the
  condition of most theorems, is a mounted volume with these two properties on which every file
  of the key directory is the file of an identifier in range that its record names.
\<close>

section \<open>Files read and written whole\<close>

lemma read_file_spec:
  assumes L: "lfs_laws L V" and r: "read_file L p n st = (r, st')"
  shows "same_volume V (lfs st) (lfs st') \<and> mounted st' = mounted st \<and>
    (\<forall>bs. r = Some bs \<longrightarrow> (\<exists>d. files V (lfs st) p = Some d \<and> n \<le> length d \<and> bs = take n d)) \<and>
    (lfs_reliable L V \<longrightarrow> r = None \<longrightarrow> (\<forall>d. files V (lfs st) p = Some d \<longrightarrow> length d < n))"
proof -
  obtain rc f s1 where o: "lfs_file_open L (lfs st) p RDONLY = (rc, f, s1)"
    by (metis prod_cases3)
  obtain m bs f2 s2 where rd: "lfs_file_read L s1 f n = (m, bs, f2, s2)"
    by (metis prod_cases4)
  obtain c s3 where cl: "lfs_file_close L s2 f2 = (c, s3)"
    by (metis prod.collapse)
  note ol = law_open [OF L o]
  have rel: "rc < 0 \<Longrightarrow> lfs_reliable L V \<Longrightarrow> files V (lfs st) p = None"
    using reliable(2) [OF _ _ o] by fastforce
  show ?thesis
  proof (cases "rc < 0")
    case True
    then have "r = None" "st' = st\<lparr>lfs := s1\<rparr>"
      using r by (simp_all add: read_file_def o)
    then show ?thesis
      using ol(1) rel True by simp
  next
    case False
    then obtain d where d: "files V (lfs st) p = Some d"
      "handle V f = Some \<lparr>vpath = p, vdata = d, vpos = 0, vdirty = False\<rparr>"
      using ol(2) by fastforce
    note rl = law_read [OF L rd d(2)]
    from rl(2) have "commit (handle V f2) (files V s2) = files V s2"
      by (auto simp: commit_def)
    then have "same_volume V s2 s3"
      using law_close [OF L cl] by (simp add: same_volume_def)
    then have sv: "same_volume V (lfs st) s3"
      using ol(1) rl(1) by (simp add: same_volume_def)
    have rr: "r = (if m \<noteq> int n then None else Some bs)" "st' = st\<lparr>lfs := s3\<rparr>"
      using r False by (simp_all add: read_file_def o rd cl)
    have bs: "0 \<le> m \<Longrightarrow> bs = take n d" "0 \<le> m \<Longrightarrow> m = int (min (length d) n)"
      using rl(3) by (simp_all add: min.commute)
    have short: "lfs_reliable L V \<Longrightarrow> r = None \<Longrightarrow> length d < n"
      using bs(2) rr(1) reliable(3) [OF _ rd] by (simp add: min_def split: if_splits)
    have full: "n \<le> length d \<and> b = take n d" if b: "r = Some b" for b
    proof -
      have m: "m = int n" and "b = bs"
        using b rr(1) by (simp_all split: if_splits)
      have nn: "0 \<le> m"
        unfolding m by simp
      show ?thesis
        using bs(1) [OF nn] bs(2) [OF nn] unfolding m \<open>b = bs\<close> by simp
    qed
    show ?thesis
      using sv d(1) short full by (simp add: rr(2))
  qed
qed

definition close_commits :: "('fs, 'f) lfs_api \<Rightarrow> string \<Rightarrow> u8 list \<Rightarrow> 'fs store \<Rightarrow> bool" where
  \<comment> \<open>the result \<open>write_file\<close> ignores: whether its close, where littlefs commits, succeeds\<close>
  "close_commits L path bs st \<longleftrightarrow>
     (let (_, f, s1) = lfs_file_open L (lfs st) path WRONLY_CREAT_TRUNC;
          (_, f2, s2) = lfs_file_write L s1 f bs
      in 0 \<le> fst (lfs_file_close L s2 f2))"

lemma commits_close: "lfs_commits L \<Longrightarrow> close_commits L p bs st"
  by (simp add: close_commits_def lfs_commits_def split: prod.split)

lemma write_file_spec:
  assumes L: "lfs_laws L V" and r: "write_file L p bs st = (ok, st')"
  shows "dirs V (lfs st') = dirs V (lfs st) \<and> mounted st' = mounted st \<and>
    (\<forall>q. q \<noteq> p \<longrightarrow> files V (lfs st') q = files V (lfs st) q) \<and>
    (if ok \<and> close_commits L p bs st then files V (lfs st') p = Some bs
     else files V (lfs st') p = files V (lfs st) p \<or>
       files V (lfs st) p = None \<and> files V (lfs st') p = Some [])"
proof -
  obtain rc f s1 where o: "lfs_file_open L (lfs st) p WRONLY_CREAT_TRUNC = (rc, f, s1)"
    by (metis prod_cases3)
  obtain m f2 s2 where w: "lfs_file_write L s1 f bs = (m, f2, s2)"
    by (metis prod_cases3)
  obtain c s3 where cl: "lfs_file_close L s2 f2 = (c, s3)"
    by (metis prod.collapse)
  note ol = law_creat [OF L o]
  show ?thesis
  proof (cases "rc < 0")
    case True
    then have "ok = False" "st' = st\<lparr>lfs := s1\<rparr>"
      using r by (simp_all add: write_file_def o)
    then show ?thesis
      using ol True by simp
  next
    case False
    then have f: "files V s1 = (if files V (lfs st) p = None then (files V (lfs st))(p \<mapsto> []) else files V (lfs st))"
      "handle V f = Some \<lparr>vpath = p, vdata = [], vpos = 0, vdirty = True\<rparr>"
      using ol by simp_all
    note wl = law_write [OF L w] and cll = law_close [OF L cl]
    have rr: "ok = (m = int (length bs))" "st' = st\<lparr>lfs := s3\<rparr>"
      using r False by (auto simp: write_file_def o w cl)
    have okc: "close_commits L p bs st \<longleftrightarrow> 0 \<le> c"
      by (simp add: close_commits_def o w cl)
    show ?thesis
    proof (cases "0 \<le> m")
      case True
      then have "m = int (length bs)" "handle V f2 = Some \<lparr>vpath = p, vdata = bs, vpos = length bs, vdirty = True\<rparr>"
        using wl(3) [OF f(2)] by (simp_all add: splice_at_def)
      then show ?thesis
        using wl(1) cll f(1) ol(1) okc by (simp add: rr same_volume_def commit_def)
    next
      case False
      then have "m \<noteq> int (length bs)" "handle V f2 = None"
        using wl(4) [OF f(2)] by simp_all
      then show ?thesis
        using wl(1) cll f(1) ol(1) by (simp add: rr same_volume_def commit_def)
    qed
  qed
qed

section \<open>The overwrite before the unlink\<close>

definition lfs_writable :: "('fs, 'f) lfs_api \<Rightarrow> ('fs, 'f) lfs_view \<Rightarrow> bool" where
  \<comment> \<open>existing files can be opened, written and synced\<close>
  "lfs_writable L V \<longleftrightarrow>
     (\<forall>s p. p \<in> dom (files V s) \<longrightarrow> 0 \<le> fst (lfs_file_open L s p WRONLY)) \<and>
     (\<forall>s h b. handle V h \<noteq> None \<longrightarrow> 0 \<le> fst (lfs_file_write L s h b)) \<and>
     (\<forall>s h. 0 \<le> fst (lfs_file_sync L s h))"

lemma zero_loop_spec:
  assumes L: "lfs_laws L V" and z: "zero_loop L n f s = (f', s')"
    and h: "handle V f = Some v" and len: "vpos v + n = length (vdata v)"
    and pre: "take (vpos v) (vdata v) = replicate (vpos v) 0"
  shows "same_volume V s s' \<and>
    ((\<not> lfs_writable L V \<and> handle V f' = None) \<or>
     (\<exists>v'. handle V f' = Some v' \<and> vpath v' = vpath v \<and>
        vdata v' = replicate (length (vdata v)) 0 \<and> vdirty v' = (vdirty v \<or> 0 < n)))"
  using z h len pre L
proof (induction L n f s arbitrary: v rule: zero_loop.induct)
  case (1 L n f s)
  show ?case
  proof (cases "n = 0")
    case True
    then show ?thesis
      using 1 by (simp add: zero_loop.simps [of L 0] same_volume_def)
  next
    case False
    define chunk where "chunk = min n SIZEOF_STORED"
    have c: "0 < chunk" "chunk \<le> n"
      using False by (auto simp: chunk_def SIZEOF_STORED_def)
    obtain rc g s1 where w: "lfs_file_write L s f (replicate chunk 0) = (rc, g, s1)"
      by (metis prod_cases3)
    note wl = law_write [OF 1(6) w]
    show ?thesis
    proof (cases "rc < 0")
      case True
      then have "f' = g" "s' = s1"
        using 1(2) w c False by (simp_all add: zero_loop.simps [of L n] flip: chunk_def)
      moreover have "\<not> lfs_writable L V"
        using True w 1(3) unfolding lfs_writable_def by (metis fst_conv linorder_not_less option.distinct(1))
      ultimately show ?thesis
        using wl(1) wl(4) [OF 1(3)] True by simp
    next
      case False
      let ?v = "v\<lparr>vdata := splice_at (vdata v) (vpos v) (replicate chunk 0),
                 vpos := vpos v + chunk, vdirty := True\<rparr>"
      have nx: "zero_loop L (n - chunk) g s1 = (f', s')"
        using 1(2) w c False \<open>n \<noteq> 0\<close> by (simp add: zero_loop.simps [of L n] flip: chunk_def)
      have g: "handle V g = Some ?v"
        using wl(3) [OF 1(3)] False by simp
      have len': "length (splice_at (vdata v) (vpos v) (replicate chunk 0)) = length (vdata v)"
        using 1(4) c by (simp add: splice_at_def)
      have pre': "take (vpos v + chunk) (splice_at (vdata v) (vpos v) (replicate chunk 0))
          = replicate (vpos v + chunk) 0"
        using 1(4,5) c by (simp add: splice_at_def replicate_add)
      have "same_volume V s1 s' \<and>
        ((\<not> lfs_writable L V \<and> handle V f' = None) \<or>
         (\<exists>v'. handle V f' = Some v' \<and> vpath v' = vpath ?v \<and>
           vdata v' = replicate (length (vdata ?v)) 0 \<and> vdirty v' = (vdirty ?v \<or> 0 < n - chunk)))"
        using 1(1) [OF \<open>n \<noteq> 0\<close> chunk_def w [symmetric] refl _ _ nx g] False c 1(4,6) len' pre'
        by simp
      then show ?thesis
        using wl(1) len' \<open>n \<noteq> 0\<close> by (auto simp: same_volume_def)
    qed
  qed
qed

lemma sync_close_spec:
  assumes L: "lfs_laws L V" and sy: "lfs_file_sync L s g = (rc, g1, s1)" and cl: "lfs_file_close L s1 g1 = (c, s2)"
    and g: "(\<not> lfs_writable L V \<and> handle V g = None) \<or>
      (\<exists>v. handle V g = Some v \<and> vpath v = p \<and> vdata v = bs \<and> vdirty v)"
  shows "dirs V s2 = dirs V s \<and> (files V s2 = files V s \<or> files V s2 = (files V s)(p \<mapsto> bs)) \<and>
    (lfs_writable L V \<longrightarrow> files V s2 = (files V s)(p \<mapsto> bs))"
proof -
  note syl = law_sync [OF L sy] and cll = law_close [OF L cl]
  have d: "dirs V s2 = dirs V s"
    using cll(2) syl(2) by simp
  from g show ?thesis
  proof (elim disjE conjE exE)
    assume "\<not> lfs_writable L V" "handle V g = None"
    then show ?thesis
      using syl(1,3) cll(1) d by (simp add: commit_def)
  next
    fix v assume v: "handle V g = Some v" "vpath v = p" "vdata v = bs" "vdirty v"
    have s1: "files V s1 = (if 0 \<le> rc then (files V s)(p \<mapsto> bs) else files V s)"
      using syl(1) v by (simp add: commit_def)
    have "commit (handle V g1) m = m(p \<mapsto> bs) \<or> commit (handle V g1) m = m" for m
      using syl(4) [OF v(1)] v by (auto simp: commit_def)
    then have s2: "files V s2 = files V s1 \<or> files V s2 = (files V s1)(p \<mapsto> bs)"
      using cll(1) by (cases "0 \<le> c") auto
    have "lfs_writable L V \<Longrightarrow> 0 \<le> rc"
      using sy unfolding lfs_writable_def by (metis fst_conv)
    then show ?thesis
      using s1 s2 d by auto
  qed
qed

lemma scrub_file_spec:
  assumes L: "lfs_laws L V" and p: "p \<notin> dirs V s"
  shows "dirs V (scrub_file L p s) = dirs V s \<and>
    (\<forall>q. q \<noteq> p \<longrightarrow> files V (scrub_file L p s) q = files V s q) \<and>
    (files V (scrub_file L p s) p = files V s p \<or>
     files V (scrub_file L p s) p = map_option (\<lambda>d. replicate (length d) 0) (files V s p)) \<and>
    (lfs_writable L V \<longrightarrow>
     files V (scrub_file L p s) p = map_option (\<lambda>d. replicate (length d) 0) (files V s p))"
proof -
  obtain rc f s1 where o: "lfs_file_open L s p WRONLY = (rc, f, s1)"
    by (metis prod_cases3)
  note ol = law_open [OF L o, simplified]
  show ?thesis
  proof (cases "0 \<le> rc")
    case False
    moreover from this have "lfs_writable L V \<Longrightarrow> files V s p = None"
      using o unfolding lfs_writable_def by (metis domIff fst_conv)
    ultimately show ?thesis
      using ol(1) by (simp add: scrub_file_def o same_volume_def)
  next
    case True
    then obtain d where d: "files V s p = Some d"
      and h: "handle V f = Some \<lparr>vpath = p, vdata = d, vpos = 0, vdirty = False\<rparr>"
      using ol(2) by blast
    have sz: "lfs_file_size L s1 f = int (length d)"
      using law_size [OF L h] by simp
    obtain g s2 where z: "zero_loop L (length d) f s1 = (g, s2)"
      by (metis prod.collapse)
    obtain rc3 g3 s3 where sy: "lfs_file_sync L s2 g = (rc3, g3, s3)"
      by (metis prod_cases3)
    obtain c s4 where cl: "lfs_file_close L (if d = [] then s1 else s3) (if d = [] then f else g3) = (c, s4)"
      by (metis prod.collapse)
    have sc: "scrub_file L p s = s4"
      using True cl by (cases "d = []") (simp_all add: scrub_file_def o sz z sy)
    show ?thesis
    proof (cases "d = []")
      case True
      then have "files V s4 = files V s1" "dirs V s4 = dirs V s1"
        using law_close [OF L cl] h by (simp_all add: commit_def)
      then show ?thesis
        using ol(1) d True by (simp add: sc same_volume_def)
    next
      case False
      note zl = zero_loop_spec [OF L z h, simplified]
      have "dirs V s4 = dirs V s2 \<and> (files V s4 = files V s2 \<or> files V s4 = (files V s2)(p \<mapsto> replicate (length d) 0)) \<and>
          (lfs_writable L V \<longrightarrow> files V s4 = (files V s2)(p \<mapsto> replicate (length d) 0))"
        by (rule sync_close_spec [OF L sy]) (use cl zl False in auto)
      then show ?thesis
        using zl ol(1) d by (auto simp: sc same_volume_def)
    qed
  qed
qed

section \<open>The store as a map\<close>

definition key_map :: "('fs, 'f) lfs_view \<Rightarrow> crc32 \<Rightarrow> 'fs store \<Rightarrow> u16 \<rightharpoonup> key_record_t" where
  "key_map V crc st i =
     (if mounted st then Option.bind (files V (lfs st) (key_path i)) (decode_key crc) else None)"

definition key_file :: "string \<Rightarrow> bool" where
  "key_file p \<longleftrightarrow> (\<exists>n. p = DIR_KEYS @ ''/'' @ n)"

definition names_ok :: "('fs, 'f) lfs_view \<Rightarrow> 'fs store \<Rightarrow> bool" where
  \<comment> \<open>every file of the key directory is the file of an identifier in range\<close>
  "names_ok V st \<longleftrightarrow>
     (\<forall>p. p \<in> dom (files V (lfs st)) \<longrightarrow> key_file p \<longrightarrow> (\<exists>i. i \<le> KEY_ID_MAX \<and> p = key_path i)) \<and>
     DIR_KEYS \<in> dirs V (lfs st) \<and> (\<forall>i. key_path i \<notin> dirs V (lfs st)) \<and>
     FILE_WIFI \<notin> dirs V (lfs st)"

definition store_ok :: "('fs, 'f) lfs_api \<Rightarrow> ('fs, 'f) lfs_view \<Rightarrow> crc32 \<Rightarrow> 'fs store \<Rightarrow> bool" where
  "store_ok L V crc st \<longleftrightarrow>
     lfs_laws L V \<and> lfs_reliable L V \<and> mounted st \<and> names_ok V st \<and>
     (\<forall>i r. key_map V crc st i = Some r \<longrightarrow> key_id r = i)"

lemma key_map_update:
  assumes "mounted st" and "mounted st' = mounted st"
    and "\<forall>q. q \<noteq> key_path i \<longrightarrow> files V (lfs st') q = files V (lfs st) q"
  shows "key_map V crc st' = (key_map V crc st)(i := Option.bind (files V (lfs st') (key_path i)) (decode_key crc))"
  using assms by (auto simp: key_map_def fun_eq_iff)

lemma key_map_same:
  "same_volume V (lfs st) (lfs st') \<Longrightarrow> mounted st' = mounted st \<Longrightarrow> key_map V crc st' = key_map V crc st"
  by (simp add: key_map_def same_volume_def fun_eq_iff)

lemma names_ok_same: "same_volume V (lfs st) (lfs st') \<Longrightarrow> names_ok V st' = names_ok V st"
  by (simp add: names_ok_def same_volume_def)

lemma key_file_path [simp]: "key_file (key_path i)"
  by (auto simp: key_file_def key_path_def)

lemma key_file_wifi [simp]: "\<not> key_file FILE_WIFI"
  by (auto simp: key_file_def FILE_WIFI_def DIR_KEYS_def)

lemma decode_wf: "decode_key crc d = Some r \<Longrightarrow> wf_key r"
  by (auto simp: decode_key_def to_record_def of_stored_image_def wf_key_def SIZEOF_STORED_def
      KEY_NAME_MAX_def KEY_SECRET_LEN_def split: if_splits)

lemma key_map_wf: "key_map V crc st i = Some r \<Longrightarrow> wf_key r"
  by (auto simp: key_map_def bind_eq_Some_conv intro: decode_wf split: if_splits)

lemma decode_empty [simp]: "decode_key crc [] = None"
  by (simp add: decode_key_def SIZEOF_STORED_def)

lemma get_spec:
  assumes "lfs_laws L V" and "storage_key_get L crc i st = (r, st')"
  shows "same_volume V (lfs st) (lfs st')" and "mounted st' = mounted st"
    and "r = Some k \<Longrightarrow> key_map V crc st i = Some k"
    and "lfs_reliable L V \<Longrightarrow> r = key_map V crc st i"
proof -
  obtain b st1 where rf: "read_file L (key_path i) SIZEOF_STORED st = (b, st1)"
    by fastforce
  note sp = read_file_spec [OF assms(1) rf]
  have "same_volume V (lfs st) (lfs st') \<and> mounted st' = mounted st \<and>
      (\<forall>k. r = Some k \<longrightarrow> key_map V crc st i = Some k) \<and>
      (lfs_reliable L V \<longrightarrow> r = key_map V crc st i)"
  proof (cases "mounted st")
    case False
    then show ?thesis
      using assms(2) by (simp add: storage_key_get_def key_map_def same_volume_def)
  next
    case True
    show ?thesis
    proof (cases b)
      case None
      then have "r = None" "st' = st1"
        using assms(2) True by (simp_all add: storage_key_get_def rf)
      moreover have "lfs_reliable L V \<Longrightarrow> key_map V crc st i = None"
        using sp None
        by (cases "files V (lfs st) (key_path i)") (auto simp: key_map_def decode_key_def)
      ultimately show ?thesis
        using sp by simp
    next
      case (Some bs)
      then have "r = Some (to_record crc (of_stored_image bs))" "st' = st1"
        using assms(2) True by (simp_all add: storage_key_get_def rf)
      moreover from this have "key_map V crc st i = r"
        using sp Some True by (auto simp: key_map_def decode_key_def)
      ultimately show ?thesis
        using sp by simp
    qed
  qed
  then show "same_volume V (lfs st) (lfs st')" and "mounted st' = mounted st"
    and "r = Some k \<Longrightarrow> key_map V crc st i = Some k"
    and "lfs_reliable L V \<Longrightarrow> r = key_map V crc st i"
    by blast+
qed

definition save_commits :: "('fs, 'f) lfs_api \<Rightarrow> crc32 \<Rightarrow> key_record_t \<Rightarrow> 'fs store \<Rightarrow> bool" where
  \<comment> \<open>whether the close that ends a save succeeds; \<open>storage_key_save\<close> does not look\<close>
  "save_commits L crc k st \<longleftrightarrow> close_commits L (key_path (key_id k)) (stored_image (to_stored crc k)) st"

lemma commits_save: "lfs_commits L \<Longrightarrow> save_commits L crc k st"
  by (simp add: save_commits_def commits_close)

lemma save_spec:
  assumes L: "lfs_laws L V" and m: "mounted st" and k: "wf_key k"
    and s: "storage_key_save L crc k st = (ok, st')"
  shows "mounted st'" and "names_ok V st \<Longrightarrow> names_ok V st'"
    and "key_map V crc st' =
      (if ok \<and> save_commits L crc k st then (key_map V crc st)(key_id k \<mapsto> norm_key k) else key_map V crc st)"
proof -
  have "mounted st' \<and> (names_ok V st \<longrightarrow> names_ok V st') \<and>
    key_map V crc st' = (if ok \<and> save_commits L crc k st then (key_map V crc st)(key_id k \<mapsto> norm_key k) else key_map V crc st)"
  proof (cases "KEY_ID_MAX < key_id k")
    case True
    then show ?thesis
      using s m by (simp add: storage_key_save_def)
  next
    case False
    let ?p = "key_path (key_id k)"
    have w: "write_file L ?p (stored_image (to_stored crc k)) st = (ok, st')"
      using s m False by (simp add: storage_key_save_def)
    note sp = write_file_spec [OF L w]
    have "key_map V crc st' = (key_map V crc st)(key_id k := Option.bind (files V (lfs st') ?p) (decode_key crc))"
      using sp m by (intro key_map_update) simp_all
    moreover have "Option.bind (files V (lfs st') ?p) (decode_key crc) =
        (if ok \<and> save_commits L crc k st then Some (norm_key k) else key_map V crc st (key_id k))"
      using sp m k by (auto simp: key_map_def decode_saved save_commits_def split: if_splits)
    moreover have "names_ok V st \<longrightarrow> names_ok V st'"
      using sp False by (auto simp: names_ok_def dom_def split: if_splits) (metis linorder_not_less)+
    ultimately show ?thesis
      using sp m by simp
  qed
  then show "mounted st'" and "names_ok V st \<Longrightarrow> names_ok V st'"
    and "key_map V crc st' =
      (if ok \<and> save_commits L crc k st then (key_map V crc st)(key_id k \<mapsto> norm_key k) else key_map V crc st)"
    by blast+
qed

lemma names_ok_pathD: "names_ok V st \<Longrightarrow> key_path i \<notin> dirs V (lfs st)"
  by (simp add: names_ok_def)

lemma delete_effect:
  assumes L: "lfs_laws L V" and m: "mounted st" and n: "names_ok V st"
    and d: "storage_key_delete L i st = (ok, st')"
  shows "mounted st'" and "names_ok V st'"
    and "\<forall>q. q \<noteq> key_path i \<longrightarrow> files V (lfs st') q = files V (lfs st) q"
    and "ok \<Longrightarrow> files V (lfs st') (key_path i) = None"
    and "lfs_reliable L V \<Longrightarrow> files V (lfs st') (key_path i) = None"
proof -
  let ?p = "key_path i"
  let ?s = "scrub_file L ?p (lfs st)"
  note sc = scrub_file_spec [OF L names_ok_pathD [OF n, of i]]
  obtain rc s2 where r: "lfs_remove L ?s ?p = (rc, s2)"
    by fastforce
  have nd: "?p \<notin> dirs V ?s"
    using sc names_ok_pathD [OF n] by simp
  note rl = law_remove [OF L r nd]
  have st': "ok = (0 \<le> rc)" "st' = st\<lparr>lfs := s2\<rparr>"
    using d m by (simp_all add: storage_key_delete_def r)
  show "mounted st'"
    using m st' by simp
  have other: "files V s2 q = files V (lfs st) q" if "q \<noteq> ?p" for q
    using that rl(1) sc by simp
  have sub: "dom (files V s2) \<subseteq> dom (files V (lfs st))"
  proof
    fix q
    assume q: "q \<in> dom (files V s2)"
    show "q \<in> dom (files V (lfs st))"
    proof (cases "q = ?p")
      case True
      then have "q \<in> dom (files V ?s)"
        using q rl(1) by (auto split: if_splits)
      then show ?thesis
        using sc True by (auto simp: domIff)
    qed (use q other in \<open>simp add: domIff\<close>)
  qed
  have "dirs V s2 = dirs V (lfs st)"
    using rl(2) sc by simp
  moreover have "lfs st' = s2"
    using st'(2) by simp
  ultimately show "names_ok V st'"
    using n sub unfolding names_ok_def by (metis subsetD)
  show "\<forall>q. q \<noteq> ?p \<longrightarrow> files V (lfs st') q = files V (lfs st) q"
    using other st' by simp
  show "ok \<Longrightarrow> files V (lfs st') ?p = None"
    using rl(1) st' by simp
  show "lfs_reliable L V \<Longrightarrow> files V (lfs st') ?p = None"
    using rl(1) st' reliable(4) [OF _ _ r] by (cases "0 \<le> rc") auto
qed

lemma delete_spec:
  assumes "lfs_laws L V" and "lfs_reliable L V" and "mounted st" and "names_ok V st"
    and "storage_key_delete L i st = (ok, st')"
  shows "mounted st'" and "names_ok V st'" and "key_map V crc st' = (key_map V crc st)(i := None)"
proof -
  note e = delete_effect [OF assms(1,3-5)]
  show "mounted st'" and "names_ok V st'"
    by (rule e)+
  have "key_map V crc st' = (key_map V crc st)(i := Option.bind (files V (lfs st') (key_path i)) (decode_key crc))"
    using e(1,3) assms(3) by (intro key_map_update) simp_all
  then show "key_map V crc st' = (key_map V crc st)(i := None)"
    using e(5) [OF assms(2)] by simp
qed

lemma list_loop_spec:
  assumes "lfs_laws L V" and "lfs_reliable L V"
    and "list_loop L crc es n st = (rs, st')"
    and "length (filter (\<lambda>e. info_type e = LFS_TYPE_REG) es) \<le> n"
  shows "same_volume V (lfs st) (lfs st') \<and> mounted st' = mounted st \<and>
    rs = List.map_filter (\<lambda>e. if info_type e = LFS_TYPE_REG
           then key_map V crc st (ucast (strtoul10 (info_name e))) else None) es"
  using assms(3,4)
proof (induction es arbitrary: n st rs st')
  case Nil
  then show ?case
    by (simp add: same_volume_def map_filter_simps)
next
  case (Cons e es)
  show ?case
  proof (cases "info_type e = LFS_TYPE_REG")
    case False
    then have "list_loop L crc es n st = (rs, st') \<or> n = 0 \<and> rs = [] \<and> st' = st"
      using Cons.prems(1) by (auto split: if_splits)
    moreover have "list_loop L crc es 0 st = ([], st)" if "n = 0"
      using that by (cases es) simp_all
    ultimately have "list_loop L crc es n st = (rs, st')"
      by auto
    then show ?thesis
      using Cons.IH [of n st rs st'] Cons.prems(2) False by (simp add: map_filter_simps)
  next
    case True
    with Cons.prems(2) obtain m where m: "n = Suc m"
      "length (filter (\<lambda>e. info_type e = LFS_TYPE_REG) es) \<le> m"
      by (cases n) auto
    obtain r st1 where g: "storage_key_get L crc (ucast (strtoul10 (info_name e))) st = (r, st1)"
      by fastforce
    note gs = get_spec [OF assms(1) g]
    have km: "key_map V crc st1 = key_map V crc st"
      by (rule key_map_same [OF gs(1,2)])
    have r: "r = key_map V crc st (ucast (strtoul10 (info_name e)))"
      by (rule gs(4) [OF assms(2)])
    show ?thesis
    proof (cases r)
      case None
      then have "list_loop L crc es n st1 = (rs, st')"
        using Cons.prems(1) True m(1) g by simp
      from Cons.IH [OF this, unfolded km] show ?thesis
        using m gs(1,2) km r None True by (simp add: map_filter_simps same_volume_def)
    next
      case (Some k)
      obtain rs1 where l: "list_loop L crc es m st1 = (rs1, st')" and rs: "rs = k # rs1"
        using Cons.prems(1) True m(1) g Some by (auto split: prod.splits)
      from Cons.IH [OF l m(2), unfolded km] show ?thesis
        using gs(1,2) True rs r [symmetric] unfolding Some
        by (simp add: map_filter_simps same_volume_def)
    qed
  qed
qed

definition entry_id :: "lfs_info \<Rightarrow> u16" where
  "entry_id e = ucast (strtoul10 (info_name e))"

lemma key_entries:
  assumes ok: "store_ok L V crc st" and es: "lfs_dir_entries L (lfs st) DIR_KEYS = Some es"
    and e: "e \<in> set es" "info_type e = LFS_TYPE_REG"
  shows "entry_id e \<le> KEY_ID_MAX" and "info_name e = zero_pad 5 (udec (unat (entry_id e)))"
    and "key_path (entry_id e) \<in> dom (files V (lfs st))"
proof -
  have LR: "lfs_laws L V" "lfs_reliable L V"
    using ok by (simp_all add: store_ok_def)
  have "info_name e \<in> info_name ` {e \<in> set es. info_type e = LFS_TYPE_REG}"
    using e by blast
  then have d: "DIR_KEYS @ ''/'' @ info_name e \<in> dom (files V (lfs st))"
    unfolding reliable_entries(2) [OF LR es] by blast
  moreover have "key_file (DIR_KEYS @ ''/'' @ info_name e)"
    unfolding key_file_def by blast
  ultimately obtain i where i: "i \<le> KEY_ID_MAX" "DIR_KEYS @ ''/'' @ info_name e = key_path i"
    using ok unfolding store_ok_def names_ok_def by blast
  then have n: "info_name e = zero_pad 5 (udec (unat i))"
    by (simp add: key_path_def)
  have "entry_id e = i"
    unfolding entry_id_def n by (rule file_name_id)
  with i n d show "entry_id e \<le> KEY_ID_MAX" "info_name e = zero_pad 5 (udec (unat (entry_id e)))"
    "key_path (entry_id e) \<in> dom (files V (lfs st))"
    by simp_all
qed

lemma key_entry_exists:
  assumes ok: "store_ok L V crc st" and es: "lfs_dir_entries L (lfs st) DIR_KEYS = Some es"
    and i: "key_path i \<in> dom (files V (lfs st))"
  shows "\<exists>e \<in> set es. info_type e = LFS_TYPE_REG \<and> entry_id e = i"
proof -
  let ?n = "zero_pad 5 (udec (unat i))"
  have LR: "lfs_laws L V" "lfs_reliable L V"
    using ok by (simp_all add: store_ok_def)
  have "CHR ''/'' \<notin> set ?n"
    using set_zero_pad digit_not_slash by blast
  then have "?n \<in> info_name ` {e \<in> set es. info_type e = LFS_TYPE_REG}"
    unfolding reliable_entries(2) [OF LR es] using i by (simp add: key_path_def)
  then obtain e where "e \<in> set es" "info_type e = LFS_TYPE_REG" "info_name e = ?n"
    by auto
  then show ?thesis
    using file_name_id [of i] by (auto simp: entry_id_def)
qed

lemma key_entries_distinct:
  assumes ok: "store_ok L V crc st" and es: "lfs_dir_entries L (lfs st) DIR_KEYS = Some es"
  shows "distinct (map entry_id (filter (\<lambda>e. info_type e = LFS_TYPE_REG) es))"
    and "length (filter (\<lambda>e. info_type e = LFS_TYPE_REG) es) \<le> KEY_MAX_COUNT"
proof -
  have LR: "lfs_laws L V" "lfs_reliable L V"
    using ok by (simp_all add: store_ok_def)
  let ?reg = "filter (\<lambda>e. info_type e = LFS_TYPE_REG) es"
  have dn: "distinct (map info_name ?reg)"
    by (rule reliable_entries(1) [OF LR es])
  have "inj_on entry_id (set ?reg)"
  proof (rule inj_onI)
    fix x y
    assume "x \<in> set ?reg" "y \<in> set ?reg" "entry_id x = entry_id y"
    then have "info_name x = info_name y"
      using key_entries(2) [OF ok es] by (metis (mono_tags, lifting) mem_Collect_eq set_filter)
    then show "x = y"
      using dn \<open>x \<in> set ?reg\<close> \<open>y \<in> set ?reg\<close> by (meson distinct_map inj_onD)
  qed
  then show di: "distinct (map entry_id ?reg)"
    using dn by (simp add: distinct_map)
  have "set (map entry_id ?reg) \<subseteq> {i. i \<le> KEY_ID_MAX}"
    using key_entries(1) [OF ok es] by auto
  then have "set (map (unat \<circ> entry_id) ?reg) \<subseteq> {0..<KEY_MAX_COUNT}"
    by (auto simp: KEY_MAX_COUNT_def KEY_ID_MAX_def word_le_nat_alt)
  moreover have "distinct (map (unat \<circ> entry_id) ?reg)"
    using di by (simp add: distinct_map inj_on_def word_unat_eq_iff)
  ultimately show "length ?reg \<le> KEY_MAX_COUNT"
    by (metis card_atLeastLessThan card_mono diff_zero distinct_card finite_atLeastLessThan length_map)
qed

lemma listed_keys:
  assumes ok: "store_ok L V crc st" and es: "lfs_dir_entries L (lfs st) DIR_KEYS = Some es"
    and rs: "rs = List.map_filter (\<lambda>e. if info_type e = LFS_TYPE_REG then key_map V crc st (entry_id e) else None) es"
  shows "set rs = ran (key_map V crc st)" and "distinct (map key_id rs)" and "length rs \<le> KEY_MAX_COUNT"
proof -
  let ?reg = "filter (\<lambda>e. info_type e = LFS_TYPE_REG) es"
  let ?g = "\<lambda>e. if info_type e = LFS_TYPE_REG then key_map V crc st (entry_id e) else None"
  have r: "rs = map (the \<circ> ?g) (filter (\<lambda>e. ?g e \<noteq> None) ?reg)"
    unfolding rs List.map_filter_def by (rule arg_cong [of _ _ "map (the \<circ> ?g)"]) (auto intro: filter_cong)
  have idr: "key_id (the (?g e)) = entry_id e" if "e \<in> set (filter (\<lambda>e. ?g e \<noteq> None) ?reg)" for e
    using that ok by (auto simp: store_ok_def)
  have mk: "map key_id rs = map entry_id (filter (\<lambda>e. ?g e \<noteq> None) ?reg)"
    unfolding r map_map by (rule map_cong [OF refl]) (use idr in simp)
  show "distinct (map key_id rs)"
    unfolding mk by (rule distinct_map_filter [OF key_entries_distinct(1) [OF ok es]])
  show "length rs \<le> KEY_MAX_COUNT"
    unfolding r length_map by (rule order_trans [OF length_filter_le key_entries_distinct(2) [OF ok es]])
  show "set rs = ran (key_map V crc st)"
  proof (intro set_eqI iffI)
    fix k
    assume "k \<in> set rs"
    then show "k \<in> ran (key_map V crc st)"
      unfolding r by (auto simp: ran_def split: if_splits)
  next
    fix k
    assume "k \<in> ran (key_map V crc st)"
    then obtain i where i: "key_map V crc st i = Some k"
      by (auto simp: ran_def)
    then have "key_path i \<in> dom (files V (lfs st))"
      by (auto simp: key_map_def bind_eq_Some_conv split: if_splits)
    then obtain e where "e \<in> set es" "info_type e = LFS_TYPE_REG" "entry_id e = i"
      using key_entry_exists [OF ok es] by blast
    then show "k \<in> set rs"
      unfolding r using i by (auto intro!: image_eqI [of _ _ e])
  qed
qed

lemma list_spec:
  assumes ok: "store_ok L V crc st" and l: "storage_key_list L crc (int KEY_MAX_COUNT) st = (r, st')"
  shows "same_volume V (lfs st) (lfs st') \<and> mounted st' = mounted st \<and>
    (\<exists>rs. r = Some rs \<and> set rs = ran (key_map V crc st) \<and> distinct (map key_id rs) \<and>
       length rs \<le> KEY_MAX_COUNT)"
proof -
  have LR: "lfs_laws L V" "lfs_reliable L V" and m: "mounted st"
    using ok by (simp_all add: store_ok_def)
  have "DIR_KEYS \<in> dirs V (lfs st)"
    using ok by (simp add: store_ok_def names_ok_def)
  then obtain es where es: "lfs_dir_entries L (lfs st) DIR_KEYS = Some es"
    using reliable(5) [OF LR(2)] by blast
  obtain rs where loop: "list_loop L crc es KEY_MAX_COUNT st = (rs, st')" and r: "r = Some rs"
    using l m es by (auto simp: storage_key_list_def split: prod.splits)
  note sp = list_loop_spec [OF LR loop key_entries_distinct(2) [OF ok es], folded entry_id_def]
  show ?thesis
    using sp listed_keys [OF ok es, of rs] r by blast
qed

section \<open>The contract\<close>

fun delete_each :: "('i \<Rightarrow> 's \<Rightarrow> bool \<times> 's) \<Rightarrow> ('r \<Rightarrow> 'i) \<Rightarrow> 'r list \<Rightarrow> 's \<Rightarrow> 's" where
  "delete_each delete ident [] s = s"
| "delete_each delete ident (r # rs) s = delete_each delete ident rs (snd (delete (ident r) s))"

fun save_each :: "('r \<Rightarrow> 's \<Rightarrow> bool \<times> 's) \<Rightarrow> 'r list \<Rightarrow> 's \<Rightarrow> bool \<times> 's" where
  "save_each save [] s = (True, s)"
| "save_each save (r # rs) s =
     (let (b, s) = save r s in if b then save_each save rs s else (False, s))"

locale key_store =
  fixes get :: "'i \<Rightarrow> 's \<Rightarrow> 'r option \<times> 's"
    and save :: "'r \<Rightarrow> 's \<Rightarrow> bool \<times> 's"
    and commits :: "'r \<Rightarrow> 's \<Rightarrow> bool"
    and delete :: "'i \<Rightarrow> 's \<Rightarrow> bool \<times> 's"
    and list :: "'s \<Rightarrow> 'r list option \<times> 's"
    and inv :: "'s \<Rightarrow> bool"
    and contents :: "'s \<Rightarrow> 'i \<rightharpoonup> 'r"
    and ident :: "'r \<Rightarrow> 'i"
    and norm :: "'r \<Rightarrow> 'r"
    and ok :: "'r \<Rightarrow> bool"
  assumes get_law: "inv s \<Longrightarrow> get i s = (res, s') \<Longrightarrow> res = contents s i \<and> inv s' \<and> contents s' = contents s"
    and save_law: "inv s \<Longrightarrow> ok r \<Longrightarrow> save r s = (b, s') \<Longrightarrow>
      inv s' \<and> contents s' = (if b \<and> commits r s then (contents s)(ident r \<mapsto> norm r) else contents s)"
    and delete_law: "inv s \<Longrightarrow> delete i s = (b, s') \<Longrightarrow> inv s' \<and> contents s' = (contents s)(i := None)"
    and list_law: "inv s \<Longrightarrow> list s = (l, s') \<Longrightarrow> inv s' \<and> contents s' = contents s \<and>
      (\<exists>rs. l = Some rs \<and> set rs = ran (contents s) \<and> distinct (map ident rs))"
    and ident_law: "inv s \<Longrightarrow> contents s i = Some r \<Longrightarrow> ident r = i"
begin

lemma fst_get: "inv s \<Longrightarrow> fst (get i s) = contents s i"
  using get_law [of s i "fst (get i s)" "snd (get i s)"] by simp

lemma get_save: "inv s \<Longrightarrow> ok r \<Longrightarrow> save r s = (b, s') \<Longrightarrow> fst (get i s') =
    (if b \<and> commits r s \<and> i = ident r then Some (norm r) else fst (get i s))"
  using save_law [of s r b s'] by (simp add: fst_get)

lemma get_delete: "inv s \<Longrightarrow> delete j s = (b, s') \<Longrightarrow> fst (get i s') =
    (if i = j then None else fst (get i s))"
  using delete_law [of s j b s'] by (simp add: fst_get)

lemma delete_all_law:
  "inv s \<Longrightarrow> inv (delete_each delete ident rs s) \<and>
     contents (delete_each delete ident rs s) = (contents s) |` (- ident ` set rs)"
proof (induction rs arbitrary: s)
  case Nil
  then show ?case by simp
next
  case (Cons r rs)
  obtain b s1 where d: "delete (ident r) s = (b, s1)"
    by fastforce
  have "inv s1" "contents s1 = (contents s)(ident r := None)"
    using delete_law [OF Cons.prems d] by simp_all
  then show ?case
    using Cons.IH [of s1] by (auto simp: d restrict_map_def fun_eq_iff)
qed

lemma list_delete_all:
  assumes "inv s" and "list s = (l, s1)"
  shows "\<exists>rs. l = Some rs \<and> inv (delete_each delete ident rs s1) \<and> contents (delete_each delete ident rs s1) = Map.empty"
proof -
  obtain rs where rs: "l = Some rs" "set rs = ran (contents s)" and s1: "inv s1" "contents s1 = contents s"
    using list_law [OF assms] by blast
  have "contents s i = None" if "i \<notin> ident ` set rs" for i
    using that rs(2) ident_law [OF assms(1), of i] by (cases "contents s i") (auto simp: ran_def image_iff)
  then have "contents s |` (- ident ` set rs) = Map.empty"
    by (auto simp: restrict_map_def fun_eq_iff)
  then show ?thesis
    using delete_all_law [OF s1(1), of rs] rs(1) s1(2) by auto
qed

lemma save_all_law:
  "inv s \<Longrightarrow> \<forall>r \<in> set rs. ok r \<Longrightarrow> save_each save rs s = (b, s') \<Longrightarrow>
     inv s' \<and> (b \<longrightarrow> (\<forall>r s. commits r s) \<longrightarrow> contents s' = contents s ++ map_of (rev (map (\<lambda>r. (ident r, norm r)) rs)))"
proof (induction rs arbitrary: s)
  case Nil
  then show ?case by simp
next
  case (Cons r rs)
  obtain c s1 where sv: "save r s = (c, s1)"
    by fastforce
  have s1: "inv s1" "contents s1 = (if c \<and> commits r s then (contents s)(ident r \<mapsto> norm r) else contents s)"
    using save_law [OF Cons.prems(1) _ sv] Cons.prems(2) by simp_all
  show ?case
  proof (cases c)
    case False
    then show ?thesis
      using Cons.prems(3) sv s1(1) by simp
  next
    case True
    then have "save_each save rs s1 = (b, s')"
      using Cons.prems(3) sv by simp
    from Cons.IH [OF s1(1) _ this] show ?thesis
      using Cons.prems(2) s1(2) True by (simp add: map_add_def fun_eq_iff split: option.split)
  qed
qed

end

lemma store_okD:
  assumes "store_ok L V crc st"
  shows "lfs_laws L V" "lfs_reliable L V" "mounted st" "names_ok V st"
  using assms by (simp_all add: store_ok_def)

lemma store_ok_same:
  assumes "store_ok L V crc st" and "same_volume V (lfs st) (lfs st')" and "mounted st' = mounted st"
  shows "store_ok L V crc st'"
  using assms key_map_same [OF assms(2,3)] names_ok_same [OF assms(2)]
  by (simp add: store_ok_def)

interpretation keys: key_store "storage_key_get L crc" "storage_key_save L crc" "save_commits L crc" "storage_key_delete L"
  "storage_key_list L crc (int KEY_MAX_COUNT)" "store_ok L V crc" "key_map V crc" key_id norm_key wf_key
  for L V crc
proof unfold_locales
  fix s i r s'
  assume i: "store_ok L V crc s" and g: "storage_key_get L crc i s = (r, s')"
  note gs = get_spec [OF store_okD(1) [OF i] g]
  show "r = key_map V crc s i \<and> store_ok L V crc s' \<and> key_map V crc s' = key_map V crc s"
    using gs(4) [OF store_okD(2) [OF i]] store_ok_same [OF i gs(1,2)] key_map_same [OF gs(1,2)]
    by simp
next
  fix s r b s'
  assume i: "store_ok L V crc s" and "wf_key r" and "storage_key_save L crc r s = (b, s')"
  note sp = save_spec [OF store_okD(1,3) [OF i] this(2,3)]
  show "store_ok L V crc s' \<and>
      key_map V crc s' = (if b \<and> save_commits L crc r s then (key_map V crc s)(key_id r \<mapsto> norm_key r) else key_map V crc s)"
    using sp i by (auto simp: store_ok_def norm_key_def split: if_splits)
next
  fix s i b s'
  assume i: "store_ok L V crc s" and d: "storage_key_delete L i s = (b, s')"
  note sp = delete_spec [OF store_okD [OF i] d]
  show "store_ok L V crc s' \<and> key_map V crc s' = (key_map V crc s)(i := None)"
    using sp i by (auto simp: store_ok_def)
next
  fix s l s'
  assume i: "store_ok L V crc s" and l: "storage_key_list L crc (int KEY_MAX_COUNT) s = (l, s')"
  note sp = list_spec [OF i l]
  show "store_ok L V crc s' \<and> key_map V crc s' = key_map V crc s \<and>
     (\<exists>rs. l = Some rs \<and> set rs = ran (key_map V crc s) \<and> distinct (map key_id rs))"
    using sp store_ok_same [OF i] key_map_same by blast
next
  fix s i r
  assume "store_ok L V crc s" and "key_map V crc s i = Some r"
  then show "key_id r = i"
    by (simp add: store_ok_def)
qed

lemma formatted_ok:
  assumes "lfs_laws L V" and "lfs_reliable L V" and "mounted st"
    and e: "files V (lfs st) = Map.empty" "dirs V (lfs st) = {DIR_KEYS}"
  shows "store_ok L V crc st \<and> key_map V crc st = Map.empty"
proof -
  have "key_map V crc st = Map.empty"
    by (simp add: key_map_def e fun_eq_iff)
  moreover have "names_ok V st"
    unfolding names_ok_def e by (simp add: DIR_KEYS_def FILE_WIFI_def key_path_def)
  ultimately show ?thesis
    using assms by (simp add: store_ok_def)
qed

lemma unmounted_refuses:
  "\<not> mounted st \<Longrightarrow> fst (storage_key_get L crc i st) = None"
  "\<not> mounted st \<Longrightarrow> storage_key_save L crc k st = (False, st)"
  by (simp_all add: storage_key_get_def storage_key_save_def)

section \<open>Properties\<close>

text \<open>C3: what a save stores, on a mounted volume that can be read: when it reports success and the
  close that ends it succeeds, exactly that record is readable under its identifier (name
  terminated, checksum valid) and no other record changes; when it reports failure, no record
  changes at all; and when that close fails, which the code does not look at, it may report
  success although no record has changed. (What is readable is told by the get of the code, so
  the volume is mounted, and finding and reading its files does not fail.)\<close>

theorem save_then_get:
  assumes "store_ok L V crc st" and "wf_key k" and "storage_key_save L crc k st = (ok, st')"
  shows "store_ok L V crc st'
    \<and> fst (storage_key_get L crc i st') =
        (if ok \<and> save_commits L crc k st \<and> i = key_id k then Some (norm_key k)
         else fst (storage_key_get L crc i st))"
  using keys.save_law [OF assms] keys.fst_get [of L V crc] assms(1) by simp

text \<open>C22: on a mounted volume on which removing and listing what is there does not fail, a delete
  makes the identifier unreadable, whether its file was there or not, changes no other record,
  and the listing then shows exactly the records that are left.\<close>

theorem delete_then_list:
  assumes "store_ok L V crc st" and "storage_key_delete L i st = (ok, st')"
    and "storage_key_list L crc (int KEY_MAX_COUNT) st' = (l, st'')"
  shows "fst (storage_key_get L crc i st') = None
    \<and> (\<exists>rs. l = Some rs \<and> distinct (map key_id rs) \<and> length rs \<le> KEY_MAX_COUNT
        \<and> (\<forall>k. k \<in> set rs \<longleftrightarrow> key_id k \<noteq> i \<and> fst (storage_key_get L crc (key_id k) st) = Some k))"
proof -
  have d: "store_ok L V crc st'" "key_map V crc st' = (key_map V crc st)(i := None)"
    using keys.delete_law [OF assms(1,2)] by simp_all
  have get: "fst (storage_key_get L crc j st) = key_map V crc st j"
    "fst (storage_key_get L crc j st') = key_map V crc st' j" for j
    using keys.fst_get [of L V crc] assms(1) d(1) by simp_all
  obtain rs where rs: "l = Some rs" "set rs = ran (key_map V crc st')" "distinct (map key_id rs)"
    "length rs \<le> KEY_MAX_COUNT"
    using list_spec [OF d(1) assms(3)] by blast
  have "k \<in> set rs \<longleftrightarrow> key_id k \<noteq> i \<and> key_map V crc st (key_id k) = Some k" for k
    using assms(1) unfolding rs(2) d(2) by (auto simp: ran_def store_ok_def)
  then show ?thesis
    using rs d(2) by (simp add: get)
qed

text \<open>C30: \<open>storage_key_delete\<close> unlinks the key file after overwriting it: the volume on which
  it calls \<open>lfs_remove\<close> differs from the one before in that file at most, and there the file holds
  only zeros, as many as the record had bytes. The overwrite is best-effort: when an open, a
  write or a sync fails, the file may be as it was; it is unlinked in any case, and the result
  is that of the unlink.\<close>

theorem delete_scrubs_first:
  assumes "lfs_laws L V" and "mounted st" and "key_path i \<notin> dirs V (lfs st)"
    and "files V (lfs st) (key_path i) = Some d"
  shows "\<exists>s z rc s'. files V s = (files V (lfs st))(key_path i \<mapsto> z) \<and> dirs V s = dirs V (lfs st)
    \<and> (z = replicate (length d) 0 \<or> z = d \<and> \<not> lfs_writable L V)
    \<and> lfs_remove L s (key_path i) = (rc, s')
    \<and> storage_key_delete L i st = (0 \<le> rc, st\<lparr>lfs := s'\<rparr>)"
proof -
  let ?p = "key_path i" and ?s = "scrub_file L (key_path i) (lfs st)"
  note sc = scrub_file_spec [OF assms(1,3)]
  define z where "z = the (files V ?s ?p)"
  obtain rc s' where r: "lfs_remove L ?s ?p = (rc, s')"
    by fastforce
  have z: "files V ?s ?p = Some z" "z = replicate (length d) 0 \<or> z = d \<and> \<not> lfs_writable L V"
    using sc assms(4) by (auto simp: z_def)
  have "files V ?s = (files V (lfs st))(?p \<mapsto> z)"
    using sc z(1) by (auto simp: fun_eq_iff)
  moreover have "storage_key_delete L i st = (0 \<le> rc, st\<lparr>lfs := s'\<rparr>)"
    using assms(2) by (simp add: storage_key_delete_def r)
  ultimately show ?thesis
    using sc z(2) r by blast
qed

lemma init_spec:
  assumes L: "lfs_laws L V" and i: "storage_init L st = (ok, st')"
  shows "files V (lfs st') = files V (lfs st)" and "mounted st' = (mounted st \<or> ok)"
    and "ok \<Longrightarrow> DIR_KEYS \<in> dom (files V (lfs st')) \<or> DIR_KEYS \<in> dirs V (lfs st')"
    and "dirs V (lfs st') \<subseteq> insert DIR_KEYS (dirs V (lfs st))"
proof -
  obtain rc s1 where m: "lfs_mount L (lfs st) = (rc, s1)"
    by fastforce
  obtain rc2 s2 where k: "lfs_mkdir L s1 DIR_KEYS = (rc2, s2)"
    by fastforce
  note ml = law_mount [OF L m] and kl = law_mkdir [OF L k]
  have st: "0 \<le> lfs_stat L s1 DIR_KEYS \<Longrightarrow> DIR_KEYS \<in> dom (files V s1) \<or> DIR_KEYS \<in> dirs V s1"
    by (rule law_stat [OF L])
  have "files V (lfs st') = files V (lfs st) \<and> mounted st' = (mounted st \<or> ok) \<and>
    (ok \<longrightarrow> DIR_KEYS \<in> dom (files V (lfs st')) \<or> DIR_KEYS \<in> dirs V (lfs st')) \<and>
    dirs V (lfs st') \<subseteq> insert DIR_KEYS (dirs V (lfs st))"
  proof (cases "rc < 0")
    case True
    then show ?thesis
      using i ml by (auto simp: storage_init_def m)
  next
    case False
    show ?thesis
    proof (cases "lfs_stat L s1 DIR_KEYS < 0")
      case True
      then show ?thesis
        using i ml kl False by (auto simp: storage_init_def m ensure_dirs_def k split: if_splits)
    next
      case stat: False
      then have "ok" "st' = st\<lparr>lfs := s1, mounted := True\<rparr>"
        using i False by (auto simp: storage_init_def m ensure_dirs_def)
      then show ?thesis
        using stat st ml by auto
    qed
  qed
  then show "files V (lfs st') = files V (lfs st)" and "mounted st' = (mounted st \<or> ok)"
    and "ok \<Longrightarrow> DIR_KEYS \<in> dom (files V (lfs st')) \<or> DIR_KEYS \<in> dirs V (lfs st')"
    and "dirs V (lfs st') \<subseteq> insert DIR_KEYS (dirs V (lfs st))"
    by blast+
qed

text \<open>C25: \<open>storage_init\<close> never changes a file and marks the store mounted exactly when it
  reports success; after a successful \<open>storage_format\<close> the store is mounted, satisfies the
  storage invariant and holds no key; after a failed one, it is not mounted and every key
  operation is refused. (The volume is one that can be listed and read without fault.)\<close>

theorem format_empties:
  assumes L: "lfs_laws L V" and R: "lfs_reliable L V" and f: "storage_format L st = (ok, st')"
  shows "if ok then store_ok L V crc st' \<and> key_map V crc st' = Map.empty
         else \<not> mounted st' \<and> (\<forall>i. fst (storage_key_get L crc i st') = None)
              \<and> (\<forall>k. storage_key_save L crc k st' = (False, st'))"
proof -
  obtain rc s1 where g: "lfs_format L (lfs st) = (rc, s1)"
    by fastforce
  show ?thesis
  proof (cases "rc < 0")
    case True
    then have "\<not> ok" "\<not> mounted st'"
      using f by (auto simp: storage_format_def g)
    then show ?thesis
      by (simp add: unmounted_refuses)
  next
    case False
    then have i: "storage_init L (st\<lparr>mounted := False, lfs := s1\<rparr>) = (ok, st')"
      using f by (simp add: storage_format_def g)
    note il = init_spec [OF L i]
    have "files V (lfs st') = Map.empty" "dirs V (lfs st') = {DIR_KEYS}" if ok
      using il that law_format [OF L g] False by auto
    then show ?thesis
      using formatted_ok [OF L R, of st' crc] il(2) by (cases ok) (simp_all add: unmounted_refuses)
  qed
qed

text \<open>WiFi credentials that were stored are read back with both fields terminated, the
  key records are not touched by it, and after a clear nothing can be read.\<close>

theorem wifi_set_get_clear:
  assumes L: "lfs_laws L V" and R: "lfs_reliable L V" and C: "lfs_commits L" and m: "mounted st" and n: "names_ok V st"
    and w: "wf_wifi c" and s: "storage_wifi_set L c st = (True, st')"
  shows "fst (storage_wifi_get L st') =
      Some (c\<lparr>ssid := (ssid c)[63 := NUL], password := (password c)[63 := NUL]\<rparr>)
    \<and> key_map V crc st' = key_map V crc st
    \<and> fst (storage_wifi_clear L st')
    \<and> fst (storage_wifi_get L (snd (storage_wifi_clear L st'))) = None"
proof -
  have "write_file L FILE_WIFI (wifi_image c) st = (True, st')"
    using s m by (simp add: storage_wifi_set_def)
  note wr = write_file_spec [OF L this]
  have f: "files V (lfs st') FILE_WIFI = Some (wifi_image c)" and m': "mounted st'"
    and d: "dirs V (lfs st') = dirs V (lfs st)"
    using wr commits_close [OF C] m by simp_all
  have len: "length (wifi_image c) = SIZEOF_WIFI"
    using wifi.enc_width [OF w] .
  obtain r st2 where rf: "read_file L FILE_WIFI SIZEOF_WIFI st' = (r, st2)"
    by fastforce
  have r: "r = Some (wifi_image c)"
    using read_file_spec [OF L rf] R f len by (cases r) auto
  have "fst (storage_wifi_get L st') =
      Some (c\<lparr>ssid := (ssid c)[63 := NUL], password := (password c)[63 := NUL]\<rparr>)"
    using m' wifi.dec_enc [OF w]
    by (simp add: storage_wifi_get_def rf r Let_def WIFI_SSID_MAX_def WIFI_PASSWORD_MAX_def)
  moreover have "key_map V crc st' = key_map V crc st"
    using wr m by (simp add: key_map_def fun_eq_iff)
  moreover have "fst (storage_wifi_clear L st')
      \<and> fst (storage_wifi_get L (snd (storage_wifi_clear L st'))) = None"
  proof -
    obtain rc s3 where rm: "lfs_remove L (lfs st') FILE_WIFI = (rc, s3)"
      by fastforce
    have "FILE_WIFI \<notin> dirs V (lfs st')"
      using n d by (simp add: names_ok_def)
    note rl = law_remove [OF L rm this]
    have rc: "0 \<le> rc"
      using reliable(4) [OF R _ rm] f by auto
    have c: "storage_wifi_clear L st' = (True, st'\<lparr>lfs := s3\<rparr>)"
      using m' rc by (simp add: storage_wifi_clear_def rm)
    obtain r4 st4 where rf4: "read_file L FILE_WIFI SIZEOF_WIFI (st'\<lparr>lfs := s3\<rparr>) = (r4, st4)"
      by fastforce
    have "r4 = None"
      using read_file_spec [OF L rf4] rl(1) rc by (cases r4) auto
    then show ?thesis
      by (simp add: c storage_wifi_get_def rf4)
  qed
  ultimately show ?thesis
    by blast
qed

lemma storage_offset_nat:
  assumes "block < LFS_BLOCK_COUNT" and "unat off \<le> 4096"
  shows "unat (STORAGE_FLASH_OFFSET + block * LFS_BLOCK_SIZE + off) = 1835008 + unat block * 4096 + unat off"
    and "unat block \<le> 63"
proof -
  have b: "unat block < 64"
    using assms(1)
    by (simp add: LFS_BLOCK_COUNT_def STORAGE_SIZE_BYTES_def LFS_BLOCK_SIZE_def word_less_nat_alt unat_div)
  then show "unat block \<le> 63"
    by simp
  have "unat (block * LFS_BLOCK_SIZE) = unat block * 4096"
    using b by (simp add: LFS_BLOCK_SIZE_def unat_word_ariths)
  moreover have "unat STORAGE_FLASH_OFFSET = 1835008"
    by (simp add: STORAGE_FLASH_OFFSET_def PICO_FLASH_SIZE_BYTES_def STORAGE_SIZE_BYTES_def)
  ultimately show "unat (STORAGE_FLASH_OFFSET + block * LFS_BLOCK_SIZE + off) = 1835008 + unat block * 4096 + unat off"
    using b assms(2) by (simp add: unat_word_ariths)
qed

text \<open>For every block and in-block range littlefs may ask for, the range the flash
  callbacks program or erase lies in the last 256 KB of the 2 MB flash, so the firmware at
  its start is never touched, and no address computation wraps.\<close>

theorem flash_stays_in_storage:
  assumes "block < LFS_BLOCK_COUNT" and "unat off + length data \<le> 4096"
  shows "\<exists>o1 o2.
      flash_prog (\<lambda>op trace. (rc, op # trace)) block off data trace =
        (if rc = 0 then 0 else LFS_ERR_IO, do_flash_program o1 data # trace)
    \<and> flash_erase (\<lambda>op trace. (rc, op # trace)) block trace =
        (if rc = 0 then 0 else LFS_ERR_IO, do_flash_erase o2 4096 # trace)
    \<and> 2 * 1024 * 1024 - 256 * 1024 \<le> unat o1 \<and> unat o1 + length data \<le> 2 * 1024 * 1024
    \<and> 2 * 1024 * 1024 - 256 * 1024 \<le> unat o2 \<and> unat o2 + 4096 \<le> 2 * 1024 * 1024"
proof -
  let ?o1 = "STORAGE_FLASH_OFFSET + block * LFS_BLOCK_SIZE + off"
  let ?o2 = "STORAGE_FLASH_OFFSET + block * LFS_BLOCK_SIZE"
  have "unat off \<le> 4096"
    using assms(2) by simp
  note o1 = storage_offset_nat [OF assms(1) this]
  have o2: "unat ?o2 = 1835008 + unat block * 4096"
    using storage_offset_nat(1) [OF assms(1), of 0] by simp
  have "flash_prog (\<lambda>op trace. (rc, op # trace)) block off data trace =
        (if rc = 0 then 0 else LFS_ERR_IO, do_flash_program ?o1 data # trace)
    \<and> flash_erase (\<lambda>op trace. (rc, op # trace)) block trace =
        (if rc = 0 then 0 else LFS_ERR_IO, do_flash_erase ?o2 4096 # trace)"
    by (simp add: flash_prog_def flash_erase_def LFS_BLOCK_SIZE_def)
  then show ?thesis
    using o1 o2 assms(2) by (intro exI [of _ ?o1] exI [of _ ?o2]) simp
qed

section \<open>Concrete stores\<close>

definition ram_store :: "ram store" where
  "ram_store = \<lparr>lfs = \<lparr>ram_files = [], ram_dirs = [DIR_KEYS]\<rparr>, mounted = True\<rparr>"

definition sum_crc :: crc32 where
  \<comment> \<open>a checksum to evaluate with\<close>
  "sum_crc c bs = foldl (\<lambda>a b. a * 31 + ucast b) c bs"

definition door_key :: "u16 \<Rightarrow> bool \<Rightarrow> key_record_t" where
  "door_key i admin = \<lparr>key_id = i, key_name = ''door'' @ replicate 12 NUL, secret = replicate 20 7,
     is_enabled = True, is_admin = admin, created_at = 1700000000, is_checksum_valid = True\<rparr>"

lemma wf_door_key: "wf_key (door_key i a)"
  by (simp add: wf_key_def door_key_def KEY_NAME_MAX_def KEY_SECRET_LEN_def)

lemma ram_store_ok: "store_ok ram_api ram_view crc ram_store"
proof -
  have "names_ok ram_view ram_store"
    by (simp add: names_ok_def ram_store_def ram_view_def FILE_WIFI_def DIR_KEYS_def key_path_def)
  moreover have "mounted ram_store" "key_map ram_view crc ram_store = Map.empty"
    by (simp_all add: key_map_def ram_view_def ram_store_def fun_eq_iff)
  ultimately show ?thesis
    by (simp add: store_ok_def ram_laws ram_reliable)
qed

lemma ram_write_file: "fst (write_file ram_api p bs st)"
  by (simp add: write_file_def ram_api_def ram_open_def ram_write_def)

lemma ram_save: "mounted st \<Longrightarrow> key_id k \<le> KEY_ID_MAX \<Longrightarrow> fst (storage_key_save ram_api crc k st)"
  by (simp add: storage_key_save_def ram_write_file)

lemma save_door:
  "storage_key_save ram_api crc (door_key 5 a) ram_store =
     (True, snd (storage_key_save ram_api crc (door_key 5 a) ram_store))"
  using ram_save [of ram_store "door_key 5 a" crc]
  by (simp add: ram_store_def door_key_def KEY_ID_MAX_def prod_eq_iff)

definition full_api :: "(ram, fview option) lfs_api" where
  \<comment> \<open>a volume on which the commit at close fails\<close>
  "full_api = ram_api\<lparr>lfs_file_close := \<lambda>s h. (-28, s)\<rparr>"

lemma full_laws: "lfs_laws full_api ram_view"
proof -
  have "volume_laws full_api ram_view" "open_laws full_api ram_view" "read_laws full_api ram_view"
    "write_laws full_api ram_view" "sync_laws full_api ram_view" "dir_laws full_api ram_view"
    using lfs_lawsD [OF ram_laws]
    by (simp_all add: full_api_def volume_laws_def open_laws_def read_laws_def write_laws_def
        sync_laws_def dir_laws_def)
  moreover have "close_laws full_api ram_view"
    by (simp add: close_laws_def full_api_def)
  ultimately show ?thesis
    by (simp add: lfs_laws_def)
qed

text \<open>The result of \<open>lfs_file_close\<close>, where littlefs commits, is ignored: on a volume
  whose commit fails, \<open>storage_key_save\<close> reports success although nothing was stored and the
  record cannot be read back.\<close>

theorem save_ignores_close:
  "lfs_laws full_api ram_view
   \<and> fst (storage_key_save full_api crc (door_key 5 True) ram_store)
   \<and> fst (storage_key_get full_api crc 5 (snd (storage_key_save full_api crc (door_key 5 True) ram_store))) = None"
proof -
  let ?st = "ram_store\<lparr>lfs := (lfs ram_store)\<lparr>ram_files := [(key_path 5, [])]\<rparr>\<rparr>"
  have k: "\<not> KEY_ID_MAX < key_id (door_key 5 True)" "key_id (door_key 5 True) = 5" "mounted ram_store"
    by (simp_all add: KEY_ID_MAX_def door_key_def ram_store_def)
  have "write_file full_api (key_path 5) bs ram_store = (True, ?st)" for bs
    by (simp add: write_file_def full_api_def ram_api_def ram_open_def ram_write_def ram_store_def)
  then have s: "storage_key_save full_api crc (door_key 5 True) ram_store = (True, ?st)"
    using k by (simp add: storage_key_save_def)
  have "fst (storage_key_get full_api crc 5 ?st) = None"
    using k(3)
    by (simp add: storage_key_get_def read_file_def full_api_def ram_api_def ram_open_def ram_read_def
        ram_store_def SIZEOF_STORED_def Let_def)
  then show ?thesis
    using full_laws s by simp
qed

lemma norm_key_norm [simp]: "norm_key (norm_key k) = norm_key k"
  by (simp add: norm_key_def)

lemma norm_key_fields [simp]:
  "key_id (norm_key k) = key_id k" "is_admin (norm_key k) = is_admin k"
  "is_enabled (norm_key k) = is_enabled k" "is_checksum_valid (norm_key k)"
  by (simp_all add: norm_key_def)

lemma door_key_fields [simp]:
  "key_id (door_key i a) = i" "is_admin (door_key i a) = a" "is_enabled (door_key i a)"
  by (simp_all add: door_key_def)

lemma door_saved:
  "store_ok ram_api ram_view crc (snd (storage_key_save ram_api crc (door_key 5 True) ram_store))"
  "fst (storage_key_get ram_api crc 5 (snd (storage_key_save ram_api crc (door_key 5 True) ram_store)))
     = Some (norm_key (door_key 5 True))"
proof -
  note l = keys.save_law [OF ram_store_ok wf_door_key save_door]
  from l show ok: "store_ok ram_api ram_view crc (snd (storage_key_save ram_api crc (door_key 5 True) ram_store))"
    by simp
  show "fst (storage_key_get ram_api crc 5 (snd (storage_key_save ram_api crc (door_key 5 True) ram_store)))
     = Some (norm_key (door_key 5 True))"
    using l keys.fst_get [OF ok] by (simp add: door_key_def commits_save ram_commits)
qed

theorem save_then_get_witness:
  "fst (storage_key_get ram_api sum_crc 5 (snd (storage_key_save ram_api sum_crc (door_key 5 True) ram_store)))
     = Some (norm_key (door_key 5 True))"
  using save_then_get [OF ram_store_ok wf_door_key save_door, where i = 5]
  by (simp add: door_key_def commits_save ram_commits)

theorem delete_then_list_witness:
  "\<exists>rs. fst (storage_key_list ram_api sum_crc (int KEY_MAX_COUNT)
        (snd (storage_key_delete ram_api 5 ram_store))) = Some rs \<and> length rs \<le> KEY_MAX_COUNT"
  using delete_then_list [OF ram_store_ok prod.collapse [symmetric] prod.collapse [symmetric], where i = 5]
  by blast

lemma ram_writable: "lfs_writable ram_api ram_view"
  by (auto simp: lfs_writable_def ram_api_def ram_view_def ram_open_def ram_write_def split: option.splits)

theorem delete_scrubs_first_witness:
  "\<exists>s z rc s'. files ram_view s = [key_path 3 \<mapsto> z] \<and> z = [0, 0, 0] \<and> lfs_remove ram_api s (key_path 3) = (rc, s')
    \<and> storage_key_delete ram_api 3 (ram_store\<lparr>lfs := \<lparr>ram_files = [(key_path 3, [9, 8, 7])], ram_dirs = []\<rparr>\<rparr>)
      = (0 \<le> rc, ram_store\<lparr>lfs := s'\<rparr>)"
  using delete_scrubs_first [OF ram_laws,
      of "ram_store\<lparr>lfs := \<lparr>ram_files = [(key_path 3, [9, 8, 7])], ram_dirs = []\<rparr>\<rparr>" 3 "[9, 8, 7]"] ram_writable
  by (simp add: ram_view_def ram_store_def numeral_eq_Suc) blast

theorem format_empties_witness:
  "key_map ram_view sum_crc (snd (storage_format ram_api (ram_store\<lparr>mounted := False\<rparr>))) = Map.empty"
proof -
  have "fst (storage_format ram_api (ram_store\<lparr>mounted := False\<rparr>))"
    by (simp add: storage_format_def storage_init_def ensure_dirs_def ram_api_def ram_store_def)
  then show ?thesis
    using format_empties [OF ram_laws ram_reliable prod.collapse [symmetric],
        of "ram_store\<lparr>mounted := False\<rparr>" sum_crc]
    by simp
qed

theorem wifi_set_get_clear_witness:
  "fst (storage_wifi_get ram_api (snd (storage_wifi_set ram_api
      \<lparr>ssid = replicate 64 (CHR ''x''), password = replicate 64 NUL\<rparr> ram_store)))
   = Some \<lparr>ssid = replicate 63 (CHR ''x'') @ [NUL], password = replicate 64 NUL\<rparr>"
proof -
  let ?c = "\<lparr>ssid = replicate 64 (CHR ''x''), password = replicate 64 NUL\<rparr>"
  have m: "mounted ram_store" and w: "wf_wifi ?c"
    by (simp_all add: ram_store_def wf_wifi_def WIFI_SSID_MAX_def WIFI_PASSWORD_MAX_def)
  have s: "storage_wifi_set ram_api ?c ram_store = (True, snd (storage_wifi_set ram_api ?c ram_store))"
    using ram_write_file m by (simp add: storage_wifi_set_def prod_eq_iff)
  have "(replicate 64 (CHR ''x''))[63 := NUL] = replicate 63 (CHR ''x'') @ [NUL]"
    "(replicate 64 NUL)[63 := NUL] = replicate 64 NUL"
    by (simp_all add: list_update_append numeral_eq_Suc)
  then show ?thesis
    using wifi_set_get_clear [OF ram_laws ram_reliable ram_commits m store_okD(4) [OF ram_store_ok] w s, where crc = sum_crc]
    by simp
qed

theorem flash_stays_in_storage_witness:
  "\<exists>o1 o2. flash_prog (\<lambda>op trace. (0, op # trace)) 63 4094 [1, 2] [] = (0, [do_flash_program o1 [1, 2]])
    \<and> flash_erase (\<lambda>op trace. (0, op # trace)) 63 [] = (0, [do_flash_erase o2 4096])
    \<and> unat o1 + 2 \<le> 2097152 \<and> unat o2 + 4096 \<le> 2097152"
proof -
  have "63 < LFS_BLOCK_COUNT" "unat (4094::u32) + length [1, 2::u8] \<le> 4096"
    by (simp_all add: LFS_BLOCK_COUNT_def STORAGE_SIZE_BYTES_def LFS_BLOCK_SIZE_def)
  from flash_stays_in_storage [OF this, of 0 "[]"] show ?thesis
    by auto
qed

end
