(* ===== verification/Clock.thy ===== *)
theory Clock imports Prelude
begin

text \<open>
  \<open>hardware/clock.c\<close>: the conversions between the RTC's calendar fields and unix time.
  The RTC itself is hardware: \<open>clock_get_unix_time\<close> takes what \<open>rtc_get_datetime\<close>
  answered (\<open>None\<close> for its \<open>false\<close>), \<open>clock_set_from_unix_time\<close> gives the fields handed to
  \<open>rtc_set_datetime\<close>. The loops are kept as loops, with a table index that would leave
  \<open>days_in_month\<close> made a branch of its own and shown unreachable.
\<close>

record datetime_t =
  year :: "16 word"
  month :: "8 word"
  day :: "8 word"
  dotw :: "8 word"
  hour :: "8 word"
  minute :: "8 word"
  sec :: "8 word"

definition days_in_month :: "nat list" where
  "days_in_month = [31, 28, 31, 30, 31, 30, 31, 31, 30, 31, 30, 31]"

definition leap_int :: "int \<Rightarrow> bool" where
  "leap_int y \<longleftrightarrow> y mod 4 = 0 \<and> y mod 100 \<noteq> 0 \<or> y mod 400 = 0"

definition leap_u32 :: "u32 \<Rightarrow> bool" where
  "leap_u32 y \<longleftrightarrow> y mod 4 = 0 \<and> y mod 100 \<noteq> 0 \<or> y mod 400 = 0"

section \<open>RTC fields to unix time\<close>

function add_years :: "int \<Rightarrow> int \<Rightarrow> u32 \<Rightarrow> u32" where
  "add_years y until days =
     (if y < until then add_years (y + 1) until (days + (if leap_int y then 366 else 365)) else days)"
  by pat_completeness auto
termination
  by (relation "measure (\<lambda>(y, until, days). nat (until - y))") auto

function add_months :: "int \<Rightarrow> int \<Rightarrow> bool \<Rightarrow> u32 \<Rightarrow> u32" where
  "add_months m until this_leap days =
     (if m < until then
        (let days = days + of_nat (days_in_month ! nat (m - 1));
             days = (if m = 2 \<and> this_leap then days + 1 else days)
         in add_months (m + 1) until this_leap days)
      else days)"
  by pat_completeness auto
termination
  by (relation "measure (\<lambda>(m, until, l, days). nat (until - m))") auto

declare add_years.simps [simp del] add_months.simps [simp del]

definition unix_of_datetime :: "datetime_t \<Rightarrow> u32" where
  "unix_of_datetime dt =
     (let y = sint (year dt);
          days = add_years 1970 y 0;
          days = add_months 1 (sint (month dt)) (leap_int y) days;
          days = days + word_of_int (sint (day dt) - 1)
      in days * 86400 + word_of_int (sint (hour dt) * 3600) + word_of_int (sint (minute dt) * 60)
         + word_of_int (sint (sec dt)))"

definition clock_get_unix_time :: "datetime_t option \<Rightarrow> u32 option" where
  "clock_get_unix_time rtc = (case rtc of None \<Rightarrow> None | Some dt \<Rightarrow> Some (unix_of_datetime dt))"

section \<open>Unix time to RTC fields\<close>

function year_loop :: "u32 \<Rightarrow> u32 \<Rightarrow> u32 \<times> u32" where
  "year_loop remaining y =
     (let days_in_year = (if leap_u32 y then 366 else 365) in
      if remaining < days_in_year then (remaining, y)
      else year_loop (remaining - days_in_year) (y + 1))"
  by pat_completeness auto
termination
proof (relation "measure (\<lambda>(remaining, y). unat remaining)", goal_cases)
  case 1
  show ?case by simp
next
  case (2 remaining y x)
  then have "x \<le> remaining" and "0 < x"
    by (auto simp: not_less)
  then have "unat (remaining - x) < unat remaining"
    by (simp add: unat_sub word_le_nat_alt word_less_nat_alt)
  then show ?case by simp
qed

function month_loop :: "u32 \<Rightarrow> nat \<Rightarrow> bool \<Rightarrow> (u32 \<times> nat) option" where
  \<comment> \<open>\<open>None\<close>: the loop would read \<open>days_in_month\<close> past its twelve entries\<close>
  "month_loop remaining m leap =
     (if 12 < m \<or> m = 0 then None
      else
        (let dim = of_nat (days_in_month ! (m - 1)) :: u32;
             dim = (if m = 2 \<and> leap then dim + 1 else dim)
         in if remaining < dim then Some (remaining, m)
            else month_loop (remaining - dim) (m + 1) leap))"
  by pat_completeness auto
termination
  by (relation "measure (\<lambda>(remaining, m, leap). 13 - m)") auto

declare year_loop.simps [simp del] month_loop.simps [simp del]

definition zeller_dotw :: "u32 \<Rightarrow> u32 \<Rightarrow> u32 \<Rightarrow> u32" where
  "zeller_dotw yr mon dy =
     (let (y, m) = (if mon < 3 then (yr - 1, mon + 12) else (yr, mon));
          d = (dy + (13 * (m + 1) div 5) + y + y div 4 - y div 100 + y div 400) mod 7
      in (d + 6) mod 7)"

definition clock_set_from_unix_time :: "u32 \<Rightarrow> datetime_t option" where
  "clock_set_from_unix_time unix_time =
     (let remaining = unix_time;
          secs = remaining mod 60; remaining = remaining div 60;
          mins = remaining mod 60; remaining = remaining div 60;
          hours = remaining mod 24; remaining = remaining div 24;
          (remaining, y) = year_loop remaining 1970
      in case month_loop remaining 1 (leap_u32 y) of
           None \<Rightarrow> None
         | Some (remaining, m) \<Rightarrow>
             (let dy = remaining + 1
              in Some \<lparr>year = ucast y, month = of_nat m, day = ucast dy,
                   dotw = ucast (zeller_dotw y (of_nat m) dy),
                   hour = ucast hours, minute = ucast mins, sec = ucast secs\<rparr>))"

section \<open>The calendar on natural numbers\<close>

definition leap_nat :: "nat \<Rightarrow> bool" where
  "leap_nat y \<longleftrightarrow> y mod 4 = 0 \<and> y mod 100 \<noteq> 0 \<or> y mod 400 = 0"

definition year_len :: "nat \<Rightarrow> nat" where
  "year_len y = (if leap_nat y then 366 else 365)"

definition month_len :: "bool \<Rightarrow> nat \<Rightarrow> nat" where
  "month_len leap m = days_in_month ! (m - 1) + (if m = 2 \<and> leap then 1 else 0)"

fun days_before_year :: "nat \<Rightarrow> nat" where
  \<comment> \<open>days in the \<open>n\<close> years from 1970 on\<close>
  "days_before_year 0 = 0"
| "days_before_year (Suc n) = days_before_year n + year_len (1970 + n)"

fun days_before_month :: "bool \<Rightarrow> nat \<Rightarrow> nat" where
  \<comment> \<open>days in the first \<open>k\<close> months\<close>
  "days_before_month leap 0 = 0"
| "days_before_month leap (Suc k) = days_before_month leap k + month_len leap (Suc k)"

lemma leap_u32_nat: "leap_u32 y \<longleftrightarrow> leap_nat (unat y)"
proof -
  have m: "y mod k = 0 \<longleftrightarrow> unat y mod unat k = 0" for k :: u32
    by (metis unat_mod unsigned_0 unsigned_eq_0_iff)
  show ?thesis
    by (simp add: leap_u32_def leap_nat_def m)
qed

lemma leap_int_nat: "leap_int (int y) \<longleftrightarrow> leap_nat y"
proof -
  have m: "int y mod int k = 0 \<longleftrightarrow> y mod k = 0" for k
    by (metis of_nat_eq_0_iff of_nat_mod)
  show ?thesis
    using m [of 4] m [of 100] m [of 400] by (simp add: leap_int_def leap_nat_def)
qed

lemma days_before_year_ge: "365 * n \<le> days_before_year n"
  by (induction n) (auto simp: year_len_def)

lemma days_before_year_mono: "m \<le> n \<Longrightarrow> days_before_year m \<le> days_before_year n"
  by (induction n) (auto simp: le_Suc_eq)

lemma days_before_month_12: "days_before_month leap 12 = (if leap then 366 else 365)"
  by (simp add: numeral_eq_Suc month_len_def days_in_month_def)

lemma days_before_month_mono: "m \<le> n \<Longrightarrow> days_before_month leap m \<le> days_before_month leap n"
  by (induction n) (auto simp: le_Suc_eq)

lemma year_len_u32: "(if leap_u32 y then 366 else 365 :: u32) = of_nat (year_len (unat y))"
  by (simp add: year_len_def leap_u32_nat)

lemma unat_of_nat_small: "n < 2 ^ 32 \<Longrightarrow> unat (of_nat n :: u32) = n"
  by (simp add: unsigned_of_nat take_bit_nat_eq_self)

lemma year_len_bounds: "365 \<le> year_len y" "year_len y \<le> 366"
  by (simp_all add: year_len_def)

lemma year_loop_days:
  assumes "unat y = 1970 + k" and "k + unat remaining < 2 ^ 31"
    and "year_loop remaining y = (remaining', y')"
  shows "\<exists>k' \<ge> k. unat y' = 1970 + k' \<and> unat remaining' < year_len (1970 + k') \<and>
    unat remaining' + days_before_year k' = unat remaining + days_before_year k"
  using assms
proof (induction remaining y arbitrary: k remaining' y' rule: year_loop.induct)
  case (1 remaining y)
  let ?len = "of_nat (year_len (unat y)) :: u32"
  have len: "unat ?len = year_len (unat y)"
    using year_len_bounds [of "unat y"] by (intro unat_of_nat_small) auto
  show ?case
  proof (cases "remaining < ?len")
    case True
    with "1.prems" len show ?thesis
      by (auto simp: year_loop.simps [of remaining y] year_len_u32 Let_def word_less_nat_alt)
  next
    case False
    then have rem: "unat (remaining - ?len) = unat remaining - year_len (unat y)"
      and ge: "year_len (unat y) \<le> unat remaining"
      using len by (simp_all add: unat_sub word_less_nat_alt word_le_nat_alt not_less)
    have y: "unat (y + 1) = 1970 + Suc k"
      using "1.prems"(1,2) by (simp add: unat_word_ariths)
    have "Suc k + unat (remaining - ?len) < 2 ^ 31"
      using "1.prems"(2) rem ge year_len_bounds(1) [of "unat y"] by linarith
    moreover have "year_loop (remaining - ?len) (y + 1) = (remaining', y')"
      using False "1.prems"(3)
      by (simp add: year_loop.simps [of remaining y] year_len_u32 Let_def)
    ultimately obtain k' where "Suc k \<le> k'" "unat y' = 1970 + k'"
      "unat remaining' < year_len (1970 + k')"
      "unat remaining' + days_before_year k' = unat (remaining - ?len) + days_before_year (Suc k)"
      using "1.IH" [OF _ _ y] False by (auto simp: year_len_u32)
    then show ?thesis
      using rem ge "1.prems"(1) by (intro exI [of _ k']) auto
  qed
qed

lemma month_loop_days:
  assumes "1 \<le> m" and "m \<le> 12"
    and "unat remaining + days_before_month leap (m - 1) < days_before_month leap 12"
  shows "\<exists>remaining' m'. month_loop remaining m leap = Some (remaining', m') \<and>
    m \<le> m' \<and> m' \<le> 12 \<and> unat remaining' < month_len leap m' \<and>
    unat remaining' + days_before_month leap (m' - 1) = unat remaining + days_before_month leap (m - 1)"
  using assms
proof (induction remaining m leap rule: month_loop.induct)
  case (1 remaining m leap)
  let ?dim = "of_nat (month_len leap m) :: u32"
  have dim: "unat ?dim = month_len leap m"
  proof (rule unat_of_nat_small)
    have "days_in_month ! (m - 1) \<in> set days_in_month"
      using "1.prems"(1,2) by (intro nth_mem) (simp add: days_in_month_def)
    then show "month_len leap m < 2 ^ 32"
      by (auto simp: month_len_def days_in_month_def)
  qed
  have step: "month_loop remaining m leap =
      (if remaining < ?dim then Some (remaining, m) else month_loop (remaining - ?dim) (m + 1) leap)"
    using "1.prems"(1,2) by (simp add: month_loop.simps [of remaining m] month_len_def Let_def)
  have suc: "days_before_month leap m = days_before_month leap (m - 1) + month_len leap m"
    using "1.prems"(1) by (cases m) auto
  show ?case
  proof (cases "remaining < ?dim")
    case True
    with "1.prems" dim step show ?thesis
      by (auto simp: word_less_nat_alt)
  next
    case False
    then have rem: "unat (remaining - ?dim) = unat remaining - month_len leap m"
      and ge: "month_len leap m \<le> unat remaining"
      using dim by (simp_all add: unat_sub word_less_nat_alt word_le_nat_alt not_less)
    have lt: "m < 12"
      using "1.prems" suc ge days_before_month_mono [of 12 m leap] by (cases "m = 12") auto
    have "unat (remaining - ?dim) + days_before_month leap (m + 1 - 1) < days_before_month leap 12"
      using "1.prems"(3) rem ge suc by simp
    moreover have "\<not> remaining < (if m = 2 \<and> leap then of_nat (days_in_month ! (m - 1)) + 1
        else of_nat (days_in_month ! (m - 1)))"
      using False by (cases "m = 2 \<and> leap") (auto simp: month_len_def add.commute)
    ultimately show ?thesis
      using "1.IH" [OF _ refl refl] "1.prems"(1) lt False step rem ge suc
      by (fastforce simp: month_len_def split: if_splits)
  qed
qed

lemma add_years_days:
  assumes "k \<le> n"
  shows "add_years (1970 + int k) (1970 + int n) days =
    days + of_nat (days_before_year n - days_before_year k)"
  using assms
proof (induction "n - k" arbitrary: k days)
  case 0
  then show ?case
    by (simp add: add_years.simps)
next
  case (Suc d)
  then have lt: "k < n"
    by simp
  have leap: "leap_int (1970 + int k) \<longleftrightarrow> leap_nat (1970 + k)"
    using leap_int_nat [of "1970 + k"] by simp
  have le: "days_before_year (Suc k) \<le> days_before_year n"
    using lt by (intro days_before_year_mono) simp
  have "add_years (1970 + int k) (1970 + int n) days =
      add_years (1970 + int (Suc k)) (1970 + int n) (days + of_nat (year_len (1970 + k)))"
    using lt leap by (subst add_years.simps) (simp add: year_len_def algebra_simps)
  also have "\<dots> = days + of_nat (year_len (1970 + k)) +
      of_nat (days_before_year n - days_before_year (Suc k))"
    using Suc lt by (intro Suc.hyps(1)) auto
  also have "\<dots> = days + of_nat (year_len (1970 + k) +
      (days_before_year n - days_before_year (Suc k)))"
    by (simp only: of_nat_add add.assoc)
  also have "year_len (1970 + k) + (days_before_year n - days_before_year (Suc k)) =
      days_before_year n - days_before_year k"
    using le by simp
  finally show ?case .
qed

lemma add_months_days:
  assumes "1 \<le> m" and "m \<le> n"
  shows "add_months (int m) (int n) leap days =
    days + of_nat (days_before_month leap (n - 1) - days_before_month leap (m - 1))"
  using assms
proof (induction "n - m" arbitrary: m days)
  case 0
  then show ?case
    by (simp add: add_months.simps)
next
  case (Suc d)
  then have lt: "m < n"
    by simp
  have suc: "days_before_month leap m = days_before_month leap (m - 1) + month_len leap m"
    using Suc.prems(1) by (cases m) auto
  have le: "days_before_month leap m \<le> days_before_month leap (n - 1)"
    using lt by (intro days_before_month_mono) simp
  have ix: "nat (int m - 1) = m - 1"
    by simp
  have "add_months (int m) (int n) leap days =
      add_months (int (Suc m)) (int n) leap (days + of_nat (month_len leap m))"
    using lt
    by (simp add: add_months.simps [of "int m"] month_len_def ix Let_def algebra_simps)
  also have "\<dots> = days + of_nat (month_len leap m) +
      of_nat (days_before_month leap (n - 1) - days_before_month leap m)"
    using Suc lt by (subst Suc.hyps(1)) auto
  also have "\<dots> = days + of_nat (month_len leap m +
      (days_before_month leap (n - 1) - days_before_month leap m))"
    by (simp only: of_nat_add add.assoc)
  also have "month_len leap m + (days_before_month leap (n - 1) - days_before_month leap m) =
      days_before_month leap (n - 1) - days_before_month leap (m - 1)"
    using le suc by simp
  finally show ?case .
qed

section \<open>The two conversions meet\<close>

definition rtc_valid :: "datetime_t \<Rightarrow> bool" where
  \<comment> \<open>the field ranges \<open>rtc_set_datetime\<close> accepts\<close>
  "rtc_valid dt \<longleftrightarrow>
     0 \<le> sint (year dt) \<and> sint (year dt) \<le> 4095 \<and> 1 \<le> sint (month dt) \<and> sint (month dt) \<le> 12 \<and>
     1 \<le> sint (day dt) \<and> sint (day dt) \<le> 31 \<and> 0 \<le> sint (dotw dt) \<and> sint (dotw dt) \<le> 6 \<and>
     0 \<le> sint (hour dt) \<and> sint (hour dt) \<le> 23 \<and> 0 \<le> sint (minute dt) \<and> sint (minute dt) \<le> 59 \<and>
     0 \<le> sint (sec dt) \<and> sint (sec dt) \<le> 59"

lemma signed_take_bit_nat:
  "n < 128 \<Longrightarrow> signed_take_bit 7 (int n) = int n" "n < 32768 \<Longrightarrow> signed_take_bit 15 (int n) = int n"
  by (simp_all add: signed_take_bit_int_eq_self)

lemma sint_of_nat_u8: "n < 128 \<Longrightarrow> sint (of_nat n :: u8) = int n"
  by (simp add: signed_of_nat signed_take_bit_nat)

lemma sint_of_nat_u16: "n < 32768 \<Longrightarrow> sint (of_nat n :: u16) = int n"
  by (simp add: signed_of_nat signed_take_bit_nat)

lemma ucast_of_nat_unat: "ucast (w :: u32) = (of_nat (unat w) :: 'a::len word)"
  by (simp only: of_nat_unat)

lemma month_len_le: "1 \<le> m \<Longrightarrow> m \<le> 12 \<Longrightarrow> month_len leap m \<le> 31"
proof -
  assume "1 \<le> m" "m \<le> 12"
  then have "days_in_month ! (m - 1) \<in> set days_in_month"
    by (intro nth_mem) (simp add: days_in_month_def)
  then show ?thesis
    by (auto simp: month_len_def days_in_month_def)
qed

text \<open>The calendar date behind a unix time: the year, month and day the loops stop at.\<close>

lemma time_fields:
  fixes t :: u32
  shows "ucast (t div 60 div 60 mod 24) = (of_nat (unat t div 3600 mod 24) :: u8)"
    and "ucast (t div 60 mod 60) = (of_nat (unat t div 60 mod 60) :: u8)"
    and "ucast (t mod 60) = (of_nat (unat t mod 60) :: u8)"
  by (simp_all only: ucast_of_nat_unat unat_div unat_mod) (simp_all flip: div_mult2_eq)

lemma clock_set_fields:
  fixes t :: u32
  obtains k m d where "k \<le> 136" and "1 \<le> m" and "m \<le> 12" and "1 \<le> d"
    and "d \<le> month_len (leap_nat (1970 + k)) m"
    and "unat t div 86400 = days_before_year k + days_before_month (leap_nat (1970 + k)) (m - 1) + (d - 1)"
    and "clock_set_from_unix_time t = Some \<lparr>year = of_nat (1970 + k), month = of_nat m, day = of_nat d,
           dotw = ucast (zeller_dotw (of_nat (1970 + k)) (of_nat m) (of_nat d)),
           hour = of_nat (unat t div 3600 mod 24), minute = of_nat (unat t div 60 mod 60),
           sec = of_nat (unat t mod 60)\<rparr>"
proof -
  let ?days = "t div 60 div 60 div 24"
  have d: "unat ?days = unat t div 86400"
    by (simp add: unat_div div_mult2_eq)
  have "unat t < 2 ^ 32"
    using unsigned_less [of t, where ?'a = nat] by simp
  then have small: "unat ?days \<le> 49710"
    unfolding d by simp
  obtain rem y where yl: "year_loop ?days 1970 = (rem, y)"
    by fastforce
  from year_loop_days [of 1970 0, OF _ _ yl] small obtain k where
    y: "unat y = 1970 + k" and lt: "unat rem < year_len (1970 + k)"
    and sum: "unat rem + days_before_year k = unat ?days"
    by auto
  have "365 * k \<le> 49710"
    using days_before_year_ge [of k] sum small by linarith
  then have k: "k \<le> 136"
    by linarith
  let ?leap = "leap_nat (1970 + k)"
  have leap: "leap_u32 y \<longleftrightarrow> ?leap"
    by (simp add: leap_u32_nat y)
  have "unat rem + days_before_month ?leap (1 - 1) < days_before_month ?leap 12"
    using lt by (simp add: days_before_month_12 year_len_def)
  from month_loop_days [OF _ _ this] obtain rem' m where
    ml: "month_loop rem 1 ?leap = Some (rem', m)" and m: "1 \<le> m" "m \<le> 12"
    and lt': "unat rem' < month_len ?leap m"
    and sum': "unat rem' + days_before_month ?leap (m - 1) = unat rem"
    by auto
  have yw: "y = of_nat (1970 + k)" and rw: "rem' + 1 = of_nat (unat rem' + 1)"
    by (simp_all flip: y)
  have dc: "ucast (rem' + 1) = (of_nat (unat rem' + 1) :: u8)"
  proof -
    have "unat (rem' + 1) = unat rem' + 1"
      using lt' month_len_le [OF m, of ?leap] by (simp add: unat_word_ariths)
    then show ?thesis
      by (simp only: ucast_of_nat_unat)
  qed
  have yc: "ucast y = (of_nat (1970 + k) :: u16)"
    by (simp only: ucast_of_nat_unat y)
  have "unat rem' + 1 \<le> month_len ?leap m"
    using lt' by simp
  moreover have "unat t div 86400 = days_before_year k + days_before_month ?leap (m - 1) + (unat rem' + 1 - 1)"
    using sum sum' d by simp
  moreover have "clock_set_from_unix_time t = Some \<lparr>year = of_nat (1970 + k), month = of_nat m,
      day = of_nat (unat rem' + 1),
      dotw = ucast (zeller_dotw (of_nat (1970 + k)) (of_nat m) (of_nat (unat rem' + 1))),
      hour = of_nat (unat t div 3600 mod 24), minute = of_nat (unat t div 60 mod 60),
      sec = of_nat (unat t mod 60)\<rparr>"
    using yl ml leap by (simp only: clock_set_from_unix_time_def Let_def prod.case option.case
        dc yc time_fields(1,2)) (simp only: time_fields(3) yw rw)
  ultimately show thesis
    using k m by (intro that [of k m "unat rem' + 1"]) auto
qed

lemma unix_of_civil:
  assumes "k \<le> 136" and "1 \<le> m" and "m \<le> 12" and "1 \<le> d" and "d \<le> 31" and "h < 24" and "mi < 60"
    and "s < 60" and "year dt = of_nat (1970 + k)" and "month dt = of_nat m" and "day dt = of_nat d"
    and "hour dt = of_nat h" and "minute dt = of_nat mi" and "sec dt = of_nat s"
  shows "unix_of_datetime dt = of_nat
    ((days_before_year k + days_before_month (leap_nat (1970 + k)) (m - 1) + (d - 1)) * 86400 +
     h * 3600 + mi * 60 + s)"
proof -
  have f: "sint (year dt) = int (1970 + k)" "sint (month dt) = int m" "sint (day dt) = int d"
    "sint (hour dt) = int h" "sint (minute dt) = int mi" "sint (sec dt) = int s"
    unfolding assms(9-14) using assms(1-8)
    by (intro sint_of_nat_u16 sint_of_nat_u8; simp)+
  have y: "add_years 1970 (int (1970 + k)) 0 = of_nat (days_before_year k)"
    using add_years_days [of 0 k 0] by simp
  have m: "add_months 1 (int m) leap days = days + of_nat (days_before_month leap (m - 1))" for leap days
    using add_months_days [of 1 m leap days] assms(2) by simp
  have d: "word_of_int (int d - 1) = (of_nat (d - 1) :: u32)"
    using assms(4) by (simp add: of_nat_diff)
  have l: "leap_int (int (1970 + k)) \<longleftrightarrow> leap_nat (1970 + k)"
    by (rule leap_int_nat)
  have w: "word_of_int (int a * int b) = (of_nat (a * b) :: u32)" for a b
    by simp
  show ?thesis
    unfolding unix_of_datetime_def Let_def f y m d l
    using w [of h 3600] w [of mi 60] by simp
qed

lemma time_of_day_sum:
  "(n::nat) div 86400 * 86400 + n div 3600 mod 24 * 3600 + n div 60 mod 60 * 60 + n mod 60 = n"
proof -
  define a where "a = n div 60"
  define b where "b = a div 60"
  define e where "e = b div 24"
  have "n div 3600 = b" "n div 86400 = e"
    by (simp_all add: a_def b_def e_def flip: div_mult2_eq)
  moreover have "a * 60 + n mod 60 = n" "b * 60 + a mod 60 = a" "e * 24 + b mod 24 = b"
    by (simp_all add: a_def b_def e_def)
  moreover have "e * 86400 + b mod 24 * 3600 + a mod 60 * 60 + n mod 60 = n"
    if "a * 60 + n mod 60 = n" "b * 60 + a mod 60 = a" "e * 24 + b mod 24 = b"
  proof -
    have "x * 86400 + h * 3600 + m * 60 + s = n"
      if "a * 60 + s = n" "b * 60 + m = a" "x * 24 + h = b" for x h m s
      using that by linarith
    then show ?thesis
      using that by blast
  qed
  ultimately show ?thesis
    by (simp only: a_def [symmetric])
qed

lemma clock_roundtrip:
  obtains dt where "clock_set_from_unix_time t = Some dt" and "rtc_valid dt" and "unix_of_datetime dt = t"
proof -
  obtain k m d where c: "k \<le> 136" "1 \<le> m" "m \<le> 12" "1 \<le> d"
    "d \<le> month_len (leap_nat (1970 + k)) m"
    "unat t div 86400 = days_before_year k + days_before_month (leap_nat (1970 + k)) (m - 1) + (d - 1)"
    "clock_set_from_unix_time t = Some \<lparr>year = of_nat (1970 + k), month = of_nat m, day = of_nat d,
       dotw = ucast (zeller_dotw (of_nat (1970 + k)) (of_nat m) (of_nat d)),
       hour = of_nat (unat t div 3600 mod 24), minute = of_nat (unat t div 60 mod 60),
       sec = of_nat (unat t mod 60)\<rparr>" (is "_ = Some ?dt")
    by (rule clock_set_fields)
  have d31: "d \<le> 31"
    using c(5) month_len_le [OF c(2,3)] le_trans by blast
  have "unix_of_datetime ?dt = of_nat (unat t div 86400 * 86400 + unat t div 3600 mod 24 * 3600 +
      unat t div 60 mod 60 * 60 + unat t mod 60)"
    unfolding c(6) by (rule unix_of_civil [OF c(1-4) d31]) simp_all
  also have "unat t div 86400 * 86400 + unat t div 3600 mod 24 * 3600 +
      unat t div 60 mod 60 * 60 + unat t mod 60 = unat t"
    by (rule time_of_day_sum)
  finally have r: "unix_of_datetime ?dt = t"
    by simp
  have z: "unat (zeller_dotw a b e) < 7" for a b e :: u32
    by (simp add: zeller_dotw_def Let_def unat_mod split: prod.split)
  have "sint (dotw ?dt) = int (unat (zeller_dotw (of_nat (1970 + k)) (of_nat m) (of_nat d)))"
    using z [of "of_nat (1970 + k)" "of_nat m" "of_nat d"]
    by (simp only: datetime_t.select_convs ucast_of_nat_unat) (simp only: sint_of_nat_u8)
  moreover have "int (unat (zeller_dotw (of_nat (1970 + k)) (of_nat m) (of_nat d))) \<le> 6"
    using z [of "of_nat (1970 + k)" "of_nat m" "of_nat d"] by linarith
  moreover have "unat t div 3600 mod 24 \<le> 23" "unat t div 60 mod 60 \<le> 59" "unat t mod 60 \<le> 59"
    by (simp_all add: less_Suc_eq_le [symmetric])
  ultimately have "rtc_valid ?dt"
    using c(1-4) d31
    by (simp add: rtc_valid_def sint_of_nat_u8 sint_of_nat_u16 flip: of_nat_Suc of_nat_add)
  from that [OF c(7) this r] show thesis .
qed

section \<open>The day of the week\<close>

definition leap_days :: "nat \<Rightarrow> nat" where
  \<comment> \<open>leap days in the years up to and including \<open>n\<close>\<close>
  "leap_days n = n div 4 - n div 100 + n div 400"

lemma leap_days_Suc: "leap_days (Suc n) = leap_days n + of_bool (leap_nat (Suc n))"
proof -
  have m: "Suc n mod 400 = 0 \<Longrightarrow> Suc n mod 100 = 0" "Suc n mod 100 = 0 \<Longrightarrow> Suc n mod 4 = 0"
    using dvd_trans [of 100 400 "Suc n"] dvd_trans [of 4 100 "Suc n"]
    by (simp_all add: dvd_eq_mod_eq_0)
  have "n div 100 \<le> n div 4"
    by (rule div_le_mono2) auto
  with m show ?thesis
    by (auto simp: leap_days_def leap_nat_def div_Suc)
qed

lemma days_before_year_leap: "days_before_year k + leap_days 1969 = 365 * k + leap_days (1969 + k)"
proof (induction k)
  case (Suc k)
  then show ?case
    using leap_days_Suc [of "1969 + k"] by (simp add: year_len_def)
qed simp

definition zeller_nat :: "nat \<Rightarrow> nat \<Rightarrow> nat \<Rightarrow> nat" where
  "zeller_nat yr mon dy =
     (let (y, m) = (if mon < 3 then (yr - 1, mon + 12) else (yr, mon))
      in ((dy + 13 * (m + 1) div 5 + y + leap_days y) mod 7 + 6) mod 7)"

lemma of_nat_div_u32:
  assumes "a < 2 ^ 32" and "b < 2 ^ 32"
  shows "(of_nat a :: u32) div of_nat b = of_nat (a div b)"
proof -
  have "a div b < 2 ^ 32"
    using assms(1) by (meson div_le_dividend le_less_trans)
  then show ?thesis
    using assms by (simp add: word_unat_eq_iff unat_div unat_of_nat_small)
qed

lemma of_nat_mod_u32:
  assumes "a < 2 ^ 32" and "b < 2 ^ 32"
  shows "(of_nat a :: u32) mod of_nat b = of_nat (a mod b)"
proof -
  have "a mod b < 2 ^ 32"
    using assms(1) by (meson mod_less_eq_dividend le_less_trans)
  then show ?thesis
    using assms by (simp add: word_unat_eq_iff unat_mod unat_of_nat_small)
qed

lemma zeller_core:
  assumes "y \<le> 10000" and "m \<le> 20" and "d \<le> 31"
  shows "(((of_nat d :: u32) + (13 * (of_nat m + 1) div 5) + of_nat y + of_nat y div 4
      - of_nat y div 100 + of_nat y div 400) mod 7 + 6) mod 7
    = of_nat (((d + 13 * (m + 1) div 5 + y + leap_days y) mod 7 + 6) mod 7)"
proof -
  have q: "(of_nat y :: u32) div 4 = of_nat (y div 4)" "(of_nat y :: u32) div 100 = of_nat (y div 100)"
    "(of_nat y :: u32) div 400 = of_nat (y div 400)"
    using of_nat_div_u32 [of y 4] of_nat_div_u32 [of y 100] of_nat_div_u32 [of y 400] assms(1)
    by simp_all
  have c: "13 * ((of_nat m :: u32) + 1) div 5 = of_nat (13 * (m + 1) div 5)"
    using of_nat_div_u32 [of "13 * (m + 1)" 5] assms(2) by (simp add: algebra_simps)
  have le: "y div 100 \<le> y div 4"
    by (rule div_le_mono2) auto
  let ?n = "d + 13 * (m + 1) div 5 + y + leap_days y"
  have s: "of_nat d + of_nat (13 * (m + 1) div 5) + of_nat y + of_nat (y div 4) - of_nat (y div 100)
      + of_nat (y div 400) = (of_nat ?n :: u32)"
    using le by (simp add: leap_days_def of_nat_diff)
  have "leap_days y \<le> y div 4 + y div 400"
    by (simp add: leap_days_def)
  then have n: "?n < 2 ^ 32"
    using assms by simp
  have "(of_nat ?n :: u32) mod 7 = of_nat (?n mod 7)"
    using of_nat_mod_u32 [OF n, of 7] by simp
  moreover have "((of_nat (?n mod 7) :: u32) + 6) mod 7 = of_nat ((?n mod 7 + 6) mod 7)"
    using of_nat_mod_u32 [of "?n mod 7 + 6" 7] mod_less_divisor [of 7 ?n] by simp
  ultimately show ?thesis
    unfolding q c s by simp
qed

lemma zeller_dotw_nat:
  assumes "1 \<le> yr" and "yr \<le> 10000" and "1 \<le> mon" and "mon \<le> 12" and "dy \<le> 31"
  shows "zeller_dotw (of_nat yr) (of_nat mon) (of_nat dy) = of_nat (zeller_nat yr mon dy)"
proof -
  have lt: "(of_nat mon :: u32) < 3 \<longleftrightarrow> mon < 3"
    using assms(4) by (simp add: word_less_nat_alt unat_of_nat_small)
  show ?thesis
  proof (cases "mon < 3")
    case True
    have "(of_nat yr :: u32) - 1 = of_nat (yr - 1)" "(of_nat mon :: u32) + 12 = of_nat (mon + 12)"
      using assms(1) by (simp_all add: of_nat_diff)
    then show ?thesis
      using True lt zeller_core [of "yr - 1" "mon + 12" dy] assms
      by (simp only: zeller_dotw_def zeller_nat_def Let_def if_True prod.case)
  next
    case False
    then show ?thesis
      using lt zeller_core [of yr mon dy] assms
      by (simp only: zeller_dotw_def zeller_nat_def Let_def if_False prod.case)
  qed
qed

lemma days_before_months:
  "days_before_month l 0 = 0" "days_before_month l 1 = 31"
  "days_before_month l 2 = 59 + of_bool l" "days_before_month l 3 = 90 + of_bool l"
  "days_before_month l 4 = 120 + of_bool l" "days_before_month l 5 = 151 + of_bool l"
  "days_before_month l 6 = 181 + of_bool l" "days_before_month l 7 = 212 + of_bool l"
  "days_before_month l 8 = 243 + of_bool l" "days_before_month l 9 = 273 + of_bool l"
  "days_before_month l 10 = 304 + of_bool l" "days_before_month l 11 = 334 + of_bool l"
  by (simp_all add: numeral_eq_Suc month_len_def days_in_month_def)

lemma months_from_march:
  assumes "3 \<le> m" and "m \<le> 12"
  shows "days_before_month l (m - 1) = days_before_month False (m - 1) + of_bool l"
    and "days_before_month False (m - 1) mod 7 = 13 * (m + 1) div 5 mod 7"
proof -
  have "m = 3 \<or> m = 4 \<or> m = 5 \<or> m = 6 \<or> m = 7 \<or> m = 8 \<or> m = 9 \<or> m = 10 \<or> m = 11 \<or> m = 12"
    using assms by presburger
  then show "days_before_month l (m - 1) = days_before_month False (m - 1) + of_bool l"
    and "days_before_month False (m - 1) mod 7 = 13 * (m + 1) div 5 mod 7"
    by (elim disjE; simp add: days_before_months)+
qed

lemma months_to_february:
  "m = 1 \<or> m = 2 \<Longrightarrow> days_before_month l (m - 1) mod 7 = (13 * (m + 13) div 5 + 6) mod 7"
  by (elim disjE) (simp_all add: days_before_months(1) days_before_months(2) [simplified])

lemma weekday_shift:
  fixes y :: nat
  assumes "y + 477 = 365 * k + ld" and "1 \<le> d"
  shows "base mod 7 = c mod 7 \<Longrightarrow> ((d + c + (1970 + k) + ld) mod 7 + 6) mod 7 = (y + base + (d - 1) + 4) mod 7"
    and "base mod 7 = (c + 6) mod 7 \<Longrightarrow> ((d + c + (1969 + k) + ld) mod 7 + 6) mod 7 = (y + base + (d - 1) + 4) mod 7"
proof -
  have shift: "(a + 6) mod 7 = (y + b + (d - 1) + 4) mod 7"
    if "a + 6 + 7 * (52 * k) = y + c' + (d - 1) + 4 + 7 * j" "b mod 7 = c' mod 7" for a b c' j
  proof -
    have "(a + 6) mod 7 = (y + c' + (d - 1) + 4) mod 7"
      using that(1) by (metis mod_mult_self2)
    also have "\<dots> = (y + b + (d - 1) + 4) mod 7"
      by (intro mod_add_cong refl) (simp add: that(2))
    finally show ?thesis .
  qed
  show "((d + c + (1970 + k) + ld) mod 7 + 6) mod 7 = (y + base + (d - 1) + 4) mod 7" if "base mod 7 = c mod 7"
    unfolding mod_add_left_eq by (rule shift [where j = 350, OF _ that]) (use assms in linarith)
  show "((d + c + (1969 + k) + ld) mod 7 + 6) mod 7 = (y + base + (d - 1) + 4) mod 7" if "base mod 7 = (c + 6) mod 7"
    unfolding mod_add_left_eq by (rule shift [where j = 349, OF _ that]) (use assms in linarith)
qed

lemma zeller_months:
  assumes "1 \<le> m" and "m \<le> 12" and "1 \<le> d"
  shows "zeller_nat (1970 + k) m d =
    (days_before_year k + days_before_month (leap_nat (1970 + k)) (m - 1) + (d - 1) + 4) mod 7"
proof -
  have L: "leap_days 1969 = 477"
    by (simp add: leap_days_def)
  have y: "days_before_year k + 477 = 365 * k + leap_days (1969 + k)"
    using days_before_year_leap [of k] by (simp add: L)
  have y': "(days_before_year k + of_bool (leap_nat (1970 + k))) + 477 = 365 * k + leap_days (1970 + k)"
    using y leap_days_Suc [of "1969 + k"] by simp
  show ?thesis
  proof (cases "3 \<le> m")
    case True
    show ?thesis
      using weekday_shift(1) [OF y' assms(3) months_from_march(2) [OF True assms(2)]] True
      by (simp only: months_from_march(1) [OF True assms(2), of "leap_nat (1970 + k)"]) (simp add: zeller_nat_def ac_simps)
  next
    case False
    then have "m = 1 \<or> m = 2"
      using assms(1) by linarith
    from weekday_shift(2) [OF y assms(3) months_to_february [OF this]] False show ?thesis
      by (simp add: zeller_nat_def add.commute)
  qed
qed

section \<open>Properties\<close>

text \<open>
  C31: every 32-bit unix time is set as a valid RTC date, without the month loop ever
  leaving its table, and reading that date back gives the same unix time.
\<close>

theorem clock_set_get:
  "\<exists>dt. clock_set_from_unix_time t = Some dt \<and> rtc_valid dt \<and>
        clock_get_unix_time (Some dt) = Some t"
proof -
  obtain dt where "clock_set_from_unix_time t = Some dt" "rtc_valid dt" "unix_of_datetime dt = t"
    by (rule clock_roundtrip)
  then show ?thesis
    by (simp add: clock_get_unix_time_def)
qed

text \<open>
  The day-of-week field handed to the RTC is the true weekday (0 is Sunday): day 0 of
  the epoch was a Thursday.
\<close>

theorem clock_set_weekday:
  "map_option (\<lambda>dt. unat (dotw dt)) (clock_set_from_unix_time t) = Some ((unat t div 86400 + 4) mod 7)"
proof -
  obtain k m d where c: "k \<le> 136" "1 \<le> m" "m \<le> 12" "1 \<le> d"
    "d \<le> month_len (leap_nat (1970 + k)) m"
    "unat t div 86400 = days_before_year k + days_before_month (leap_nat (1970 + k)) (m - 1) + (d - 1)"
    "clock_set_from_unix_time t = Some \<lparr>year = of_nat (1970 + k), month = of_nat m, day = of_nat d,
       dotw = ucast (zeller_dotw (of_nat (1970 + k)) (of_nat m) (of_nat d)),
       hour = of_nat (unat t div 3600 mod 24), minute = of_nat (unat t div 60 mod 60),
       sec = of_nat (unat t mod 60)\<rparr>"
    by (rule clock_set_fields)
  have d31: "d \<le> 31"
    using c(5) month_len_le [OF c(2,3)] le_trans by blast
  let ?z = "zeller_nat (1970 + k) m d"
  have z: "zeller_dotw (of_nat (1970 + k)) (of_nat m) (of_nat d) = of_nat ?z"
    using zeller_dotw_nat [of "1970 + k" m d] c(1-3) d31 by simp
  have zm: "?z = (unat t div 86400 + 4) mod 7"
    unfolding c(6) by (rule zeller_months [OF c(2-4)])
  then have "?z < 7"
    by simp
  then have "unat (ucast (of_nat ?z :: u32) :: u8) = ?z"
    by (simp only: ucast_of_nat_unat) (simp add: unsigned_of_nat take_bit_nat_eq_self)
  then show ?thesis
    unfolding c(7) z by (simp add: zm)
qed

end
