(* ===== verification/Totp.thy ===== *)
theory Totp imports Clock
begin

text \<open>
  \<open>shared/totp.c\<close>: the six-digit code of a time step and the three-step verification
  window. HMAC-SHA1 is mbedTLS, which is not part of the repository: it is the parameter
  \<open>hmac\<close>, key and message to digest. The code is compared with the RFC 4226/6238 formula
  written on natural numbers.
\<close>

definition TOTP_STEP_SECONDS :: u32 where
  "TOTP_STEP_SECONDS = 30"

definition TOTP_WINDOW :: int where
  "TOTP_WINDOW = 1"

definition TOTP_DIGITS :: nat where
  "TOTP_DIGITS = 6"

type_synonym mac = "u8 list \<Rightarrow> u8 list \<Rightarrow> u8 list"

definition totp_msg :: "u64 \<Rightarrow> u8 list" where
  "totp_msg step =
     [ucast (drop_bit 56 step AND 255), ucast (drop_bit 48 step AND 255),
      ucast (drop_bit 40 step AND 255), ucast (drop_bit 32 step AND 255),
      ucast (drop_bit 24 step AND 255), ucast (drop_bit 16 step AND 255),
      ucast (drop_bit 8 step AND 255), ucast (step AND 255)]"

definition totp_offset :: "u8 list \<Rightarrow> nat" where
  "totp_offset digest = unat (digest ! 19 AND 15)"

definition totp_truncate :: "u8 list \<Rightarrow> u32" where
  "totp_truncate digest =
     (let offset = totp_offset digest in
      push_bit 24 (ucast (digest ! offset AND 127)) OR
      push_bit 16 (ucast (digest ! (offset + 1) AND 255)) OR
      push_bit 8 (ucast (digest ! (offset + 2) AND 255)) OR
      ucast (digest ! (offset + 3) AND 255))"

definition POW10 :: "u32 list" where
  "POW10 = [1, 10, 100, 1000, 10000, 100000, 1000000]"

definition totp_at :: "mac \<Rightarrow> u8 list \<Rightarrow> u64 \<Rightarrow> u32" where
  "totp_at hmac secret step = totp_truncate (hmac secret (totp_msg step)) mod (POW10 ! TOTP_DIGITS)"

definition totp_verify :: "mac \<Rightarrow> datetime_t option \<Rightarrow> u8 list \<Rightarrow> u32 \<Rightarrow> bool" where
  \<comment> \<open>the loop \<open>for (delta = -TOTP_WINDOW; delta <= TOTP_WINDOW; delta++)\<close> stops at the first match\<close>
  "totp_verify hmac rtc secret code =
     (case clock_get_unix_time rtc of
        None \<Rightarrow> False
      | Some unix_time \<Rightarrow>
          (let step = ucast (unix_time div TOTP_STEP_SECONDS) :: u64 in
           list_ex (\<lambda>delta. totp_at hmac secret (step + word_of_int delta) = code)
             [- TOTP_WINDOW..TOTP_WINDOW]))"

section \<open>The RFC's formula\<close>

definition be_bytes :: "nat \<Rightarrow> nat \<Rightarrow> u8 list" where
  \<comment> \<open>the \<open>k\<close>-byte big-endian image of a counter\<close>
  "be_bytes k n = map (\<lambda>i. of_nat (n div 256 ^ i mod 256)) (rev [0..<k])"

definition rfc_truncate :: "u8 list \<Rightarrow> nat" where
  "rfc_truncate digest =
     (let offset = unat (digest ! 19) mod 16 in
      unat (digest ! offset) mod 128 * 256 ^ 3 + unat (digest ! (offset + 1)) * 256 ^ 2 +
      unat (digest ! (offset + 2)) * 256 + unat (digest ! (offset + 3)))"

definition rfc_code :: "mac \<Rightarrow> u8 list \<Rightarrow> nat \<Rightarrow> nat" where
  "rfc_code hmac secret counter = rfc_truncate (hmac secret (be_bytes 8 counter)) mod 10 ^ 6"

lemma and_ones_u8: "(w::u8) AND 255 = w"
proof -
  have "(255::u8) = - 1"
    by simp
  then show ?thesis
    by (metis and.right_neutral)
qed

lemma and_ones_low: "(w::u8) AND 15 = take_bit 4 w" "(w::u8) AND 127 = take_bit 7 w"
  by (simp_all add: take_bit_eq_mask mask_eq_exp_minus_1)

lemma totp_offset_nat: "totp_offset digest = unat (digest ! 19) mod 16"
proof -
  have "unat (digest ! 19 AND 15) = take_bit 4 (unat (digest ! 19))"
    unfolding and_ones_low unsigned_take_bit_eq by (rule refl)
  then show ?thesis
    by (simp add: totp_offset_def take_bit_eq_mod)
qed

lemma totp_offset_bound: "totp_offset digest + 3 < 20"
proof -
  have "unat (digest ! 19) mod 16 < 16"
    by simp
  then show ?thesis
    unfolding totp_offset_nat by linarith
qed

lemma or_disjoint_add:
  fixes a b :: nat
  assumes "b < 2 ^ n"
  shows "push_bit n a OR b = a * 2 ^ n + b"
proof -
  have b: "take_bit n b = b"
    using assms by (simp add: take_bit_nat_eq_self)
  have "push_bit n a AND take_bit n b = 0"
    by (rule bit_eqI) (auto simp: bit_simps)
  then have "push_bit n a OR b = push_bit n a + b"
    using b by (simp add: disjunctive_add_eq_or)
  then show ?thesis
    by (simp add: push_bit_eq_mult)
qed

lemma totp_truncate_nat: "unat (totp_truncate digest) = rfc_truncate digest"
proof -
  define o1 where "o1 = unat (digest ! 19) mod 16"
  define a b c d where "a = digest ! o1" and "b = digest ! (o1 + 1)"
    and "c = digest ! (o1 + 2)" and "d = digest ! (o1 + 3)"
  note defs = a_def b_def c_def d_def
  have lt: "unat x < 256" for x :: u8
    using unsigned_less [of x, where ?'a = nat] by simp
  define A where "A = unat a mod 128"
  have A: "unat (a AND 127) = A" "A < 128"
    unfolding and_ones_low unsigned_take_bit_eq A_def by (simp_all add: take_bit_eq_mod)
  have s: "unat (ucast x :: u32) = unat x" for x :: u8
    using lt [of x] by (simp add: unsigned_ucast_eq take_bit_nat_eq_self)
  have u: "unat (push_bit n (ucast x :: u32)) = unat x * 2 ^ n" if "unat x * 2 ^ n < 2 ^ 32"
    for n and x :: u8
    using that unfolding unsigned_push_bit_eq s
    by (simp add: push_bit_eq_mult take_bit_nat_eq_self)
  have u0: "unat (ucast x :: u32) = unat x" for x :: u8
    using u [of x 0] lt [of x] by simp
  have "unat (totp_truncate digest) =
      (push_bit 24 A OR (push_bit 16 (unat b) OR (push_bit 8 (unat c) OR unat d)))"
    using u [of "a AND 127" 24] u [of b 16] u [of c 8] u0 [of d] A lt [of b] lt [of c]
    unfolding totp_truncate_def Let_def totp_offset_nat o1_def [symmetric] defs [symmetric]
      and_ones_u8 unsigned_or_eq
    by (simp add: push_bit_eq_mult or.assoc)
  also have "push_bit 8 (unat c) OR unat d = unat c * 2 ^ 8 + unat d"
    using lt [of d] by (simp add: or_disjoint_add)
  also have "push_bit 16 (unat b) OR (unat c * 2 ^ 8 + unat d) =
      unat b * 2 ^ 16 + (unat c * 2 ^ 8 + unat d)"
    using lt [of c] lt [of d] by (intro or_disjoint_add) simp
  also have "push_bit 24 A OR (unat b * 2 ^ 16 + (unat c * 2 ^ 8 + unat d)) =
      A * 2 ^ 24 + (unat b * 2 ^ 16 + (unat c * 2 ^ 8 + unat d))"
    using lt [of b] lt [of c] lt [of d] by (intro or_disjoint_add) simp
  finally show ?thesis
    unfolding rfc_truncate_def Let_def A_def o1_def [symmetric] defs [symmetric] by simp
qed

lemma step_byte: "ucast (drop_bit n step AND 255) = (of_nat (unat step div 2 ^ n mod 256) :: u8)"
  for step :: u64
proof (rule bit_word_eqI)
  fix i
  assume i: "i < LENGTH(8)"
  have m: "(255::u64) = mask 8"
    by (simp add: mask_eq_exp_minus_1)
  have "bit (of_nat (unat step div 2 ^ n mod 256) :: u8) i \<longleftrightarrow>
      bit (take_bit 8 (drop_bit n (unat step))) i"
    using i by (simp add: bit_simps take_bit_eq_mod drop_bit_eq_div)
  then show "bit (ucast (drop_bit n step AND 255) :: u8) i \<longleftrightarrow>
      bit (of_nat (unat step div 2 ^ n mod 256) :: u8) i"
    using i unfolding m by (auto simp: bit_simps)
qed

lemma totp_msg_be: "totp_msg step = be_bytes 8 (unat step)"
  using step_byte [of 56 step] step_byte [of 48 step] step_byte [of 40 step]
    step_byte [of 32 step] step_byte [of 24 step] step_byte [of 16 step]
    step_byte [of 8 step] step_byte [of 0 step]
  by (simp add: totp_msg_def be_bytes_def upt_rec)

section \<open>Codes\<close>

lemma totp_at_nat: "unat (totp_at hmac secret step) = rfc_code hmac secret (unat step)"
  by (simp add: totp_at_def rfc_code_def POW10_def TOTP_DIGITS_def unat_mod totp_truncate_nat
      totp_msg_be)

text \<open>C32: \<open>totp_at\<close> computes the RFC 4226 value of the RFC 6238 counter: the big-endian
  counter is authenticated, the dynamic truncation reads four bytes that all lie in the
  20-byte digest, and the decimal code has at most six digits.\<close>

theorem totp_at_rfc:
  "unat (totp_at hmac secret step) = rfc_code hmac secret (unat step)
   \<and> totp_at hmac secret step < 10 ^ 6
   \<and> totp_offset (hmac secret (totp_msg step)) + 3 < 20"
proof (intro conjI)
  show "totp_at hmac secret step < 10 ^ 6"
    by (simp add: word_less_nat_alt totp_at_nat rfc_code_def)
qed (simp_all add: totp_at_nat totp_offset_bound del: add_2_eq_Suc')

lemma window_deltas: "[- TOTP_WINDOW..TOTP_WINDOW] = [-1, 0, 1]"
  by (simp add: TOTP_WINDOW_def upto.simps)

lemma step_of_time: "unat (ucast (t div TOTP_STEP_SECONDS) :: u64) = unat t div 30"
  for t :: u32
proof -
  have "unat (t div TOTP_STEP_SECONDS) = unat t div 30"
    by (simp add: TOTP_STEP_SECONDS_def unat_div)
  moreover have "unat (ucast x :: u64) = unat x" for x :: u32
    by (simp add: unsigned_ucast_eq take_bit_nat_eq_self unsigned_less
        order_less_le_trans [OF unsigned_less])
  ultimately show ?thesis
    by simp
qed

lemma totp_verify_steps:
  assumes "clock_get_unix_time rtc = Some t"
  shows "totp_verify hmac rtc secret code \<longleftrightarrow>
    unat code \<in> rfc_code hmac secret `
      {(unat t div 30 + 2 ^ 64 - 1) mod 2 ^ 64, unat t div 30, unat t div 30 + 1}"
proof -
  define s where "s = (ucast (t div TOTP_STEP_SECONDS) :: u64)"
  have s: "unat s = unat t div 30"
    unfolding s_def by (rule step_of_time)
  have small: "unat s < 2 ^ 32"
    using unsigned_less [of t, where ?'a = nat] unfolding s by (simp add: less_mult_imp_div_less)
  have plus: "unat (s + 1) = unat t div 30 + 1"
    using small unfolding s [symmetric] by (simp add: unat_word_ariths)
  have minus: "unat (s - 1) = (unat t div 30 + 2 ^ 64 - 1) mod 2 ^ 64"
  proof -
    have "s - 1 = of_nat (unat s + (2 ^ 64 - 1))"
      by simp
    then have "unat (s - 1) = (unat s + (2 ^ 64 - 1)) mod 2 ^ 64"
      by (simp only: unsigned_of_nat take_bit_eq_mod) simp
    then show ?thesis
      unfolding s by (simp add: add.commute)
  qed
  have eq: "totp_at hmac secret x = code \<longleftrightarrow> unat code = rfc_code hmac secret (unat x)" for x
    by (metis totp_at_nat unsigned_word_eqI)
  have "totp_verify hmac rtc secret code \<longleftrightarrow>
      totp_at hmac secret (s - 1) = code \<or> totp_at hmac secret s = code
      \<or> totp_at hmac secret (s + 1) = code"
    by (simp add: totp_verify_def assms Let_def window_deltas flip: s_def)
  then show ?thesis
    by (auto simp: eq s plus minus)
qed

lemma near_steps:
  fixes n t :: nat
  assumes "30 \<le> t"
  shows "(\<exists>t'. t' \<le> t + 30 \<and> t \<le> t' + 30 \<and> n = t' div 30) \<longleftrightarrow>
    n = t div 30 - 1 \<or> n = t div 30 \<or> n = t div 30 + 1"
proof
  assume "\<exists>t'. t' \<le> t + 30 \<and> t \<le> t' + 30 \<and> n = t' div 30"
  then obtain t' where t': "t' \<le> t + 30" "t \<le> t' + 30" "n = t' div 30"
    by blast
  have "t' div 30 \<le> t div 30 + 1"
    using div_le_mono [OF t'(1), of 30] by simp
  moreover have "t div 30 \<le> t' div 30 + 1"
    using div_le_mono [OF t'(2), of 30] by simp
  ultimately show "n = t div 30 - 1 \<or> n = t div 30 \<or> n = t div 30 + 1"
    unfolding t'(3) by linarith
next
  assume n: "n = t div 30 - 1 \<or> n = t div 30 \<or> n = t div 30 + 1"
  have lo: "(t - 30) div 30 = t div 30 - 1"
    using le_div_geq [of 30 t] assms by simp
  have hi: "(t + 30) div 30 = t div 30 + 1"
    by simp
  from n consider "n = t div 30 - 1" | "n = t div 30" | "n = t div 30 + 1"
    by blast
  then show "\<exists>t'. t' \<le> t + 30 \<and> t \<le> t' + 30 \<and> n = t' div 30"
  proof cases
    case 1
    then show ?thesis
      using lo assms by (intro exI [of _ "t - 30"]) simp
  next
    case 2
    then show ?thesis
      by (intro exI [of _ t]) simp
  next
    case 3
    then show ?thesis
      using hi by (intro exI [of _ "t + 30"]) simp
  qed
qed

text \<open>C15: with the clock at \<open>t\<close> seconds, at least thirty, \<open>totp_verify\<close> accepts exactly the RFC codes that an
  authenticator would show at some second within thirty of \<open>t\<close>; every other code, in
  particular any number of seven digits, is refused.\<close>

theorem totp_verify_window:
  assumes "clock_get_unix_time rtc = Some t" and "30 \<le> t"
  shows "totp_verify hmac rtc secret code \<longleftrightarrow>
    (\<exists>t'. t' \<le> unat t + 30 \<and> unat t \<le> t' + 30 \<and> unat code = rfc_code hmac secret (t' div 30))"
proof -
  have t: "30 \<le> unat t"
    using assms(2) by (simp add: word_le_nat_alt)
  then have pos: "1 \<le> unat t div 30"
    using div_le_mono [OF t, of 30] by simp
  have lt: "unat t div 30 < 2 ^ 64"
    using unsigned_less [of t, where ?'a = nat] by (simp add: less_mult_imp_div_less)
  have "(unat t div 30 + 2 ^ 64 - 1) mod 2 ^ 64 = (unat t div 30 - 1 + 2 ^ 64) mod 2 ^ 64"
    using pos by simp
  also have "\<dots> = unat t div 30 - 1"
    unfolding mod_add_self2 using lt by (intro mod_less) linarith
  finally have prev: "(unat t div 30 + 2 ^ 64 - 1) mod 2 ^ 64 = unat t div 30 - 1" .
  have "totp_verify hmac rtc secret code \<longleftrightarrow>
      (\<exists>n. (n = unat t div 30 - 1 \<or> n = unat t div 30 \<or> n = unat t div 30 + 1) \<and>
        unat code = rfc_code hmac secret n)"
    unfolding totp_verify_steps [OF assms(1)] prev by (simp add: image_iff) blast
  also have "\<dots> \<longleftrightarrow> (\<exists>n. (\<exists>t'. t' \<le> unat t + 30 \<and> unat t \<le> t' + 30 \<and> n = t' div 30) \<and>
        unat code = rfc_code hmac secret n)"
    unfolding near_steps [OF t] ..
  finally show ?thesis
    by blast
qed

lemma clock_at_minute_one:
  "clock_get_unix_time (Some \<lparr>year = 1970, month = 1, day = 1, dotw = 4, hour = 0, minute = 1, sec = 0\<rparr>)
   = Some 60"
  by code_simp

theorem totp_verify_window_witness:
  "totp_verify (\<lambda>k m. replicate 20 (m ! 7))
     (Some \<lparr>year = 1970, month = 1, day = 1, dotw = 4, hour = 0, minute = 1, sec = 0\<rparr>) [] 686018
   \<and> (\<exists>t'. t' \<le> 90 \<and> 60 \<le> t' + 30
        \<and> 686018 = rfc_code (\<lambda>k m. replicate 20 (m ! 7)) [] (t' div 30))"
proof -
  have "totp_verify (\<lambda>k m. replicate 20 (m ! 7))
     (Some \<lparr>year = 1970, month = 1, day = 1, dotw = 4, hour = 0, minute = 1, sec = 0\<rparr>) [] 686018"
    by code_simp
  then show ?thesis
    using totp_verify_window [OF clock_at_minute_one, of "\<lambda>k m. replicate 20 (m ! 7)" "[]" 686018]
    by simp
qed

end
