(* ===== verification/Door.thy ===== *)
theory Door imports Keystore Totp
begin

text \<open>
  The keypad verification handoff of \<open>shared/door_verify.h\<close> between \<open>process_input\<close> of
  \<open>core1.c\<close> and \<open>core0_handle_door_verify\<close> of \<open>main.c\<close>. The decision on an identifier and a
  code is \<open>door_verdict\<close>; the protocol is given twice: \<open>core0_handle_door_verify\<close> is the
  servicer as one function, and \<open>door_step\<close> interleaves the two cores at the granularity of
  the single volatile accesses, in program order (which the \<open>__dmb\<close> barriers make the
  order the other core sees).
\<close>

section \<open>The decision\<close>

definition door_verdict ::
  "('fs, 'f) lfs_api \<Rightarrow> crc32 \<Rightarrow> mac \<Rightarrow> u16 \<Rightarrow> u32 \<Rightarrow> 'fs store \<times> datetime_t option \<Rightarrow> bool \<times> 'fs store" where
  \<comment> \<open>the branches of \<open>core0_handle_door_verify\<close>: not found, corrupt, disabled, invalid code, granted\<close>
  "door_verdict L crc hmac i code e =
     (let (st, rtc) = e in
      case storage_key_get L crc i st of
        (None, st) \<Rightarrow> (False, st)
      | (Some key, st) \<Rightarrow>
          if \<not> is_checksum_valid key then (False, st)
          else if \<not> is_enabled key then (False, st)
          else if \<not> totp_verify hmac rtc (secret key) code then (False, st)
          else (True, st))"

definition door_report ::
  "('fs, 'f) lfs_api \<Rightarrow> crc32 \<Rightarrow> mac \<Rightarrow> u16 \<Rightarrow> u32 \<Rightarrow> 'fs store \<times> datetime_t option \<Rightarrow> string" where
  \<comment> \<open>what those branches print\<close>
  "door_report L crc hmac i code e =
     (let (st, rtc) = e; who = ''[door] key '' @ udec (unat i) in
      case fst (storage_key_get L crc i st) of
        None \<Rightarrow> who @ '': not found''
      | Some key \<Rightarrow>
          if \<not> is_checksum_valid key then who @ '': corrupt''
          else if \<not> is_enabled key then who @ '': disabled''
          else if \<not> totp_verify hmac rtc (secret key) code then who @ '': invalid code''
          else who @ '' ('' @ cstr (key_name key) @ ''): granted'')"

section \<open>The mailbox\<close>

record mailbox =
  request_seq :: u32
  request_id :: u16
  request_code :: u32
  response_seq :: u32
  response_granted :: bool

definition mailbox_boot :: mailbox where
  "mailbox_boot = \<lparr>request_seq = 0, request_id = 0, request_code = 0, response_seq = 0,
     response_granted = False\<rparr>"

definition core0_handle_door_verify ::
  "(u16 \<Rightarrow> u32 \<Rightarrow> 's \<Rightarrow> bool \<times> 's) \<Rightarrow> u32 \<Rightarrow> mailbox \<Rightarrow> 's \<Rightarrow> u32 \<times> mailbox \<times> 's" where
  \<comment> \<open>\<open>last_handled_seq\<close>, the mailbox and what the decision reads\<close>
  "core0_handle_door_verify decide last_handled_seq mb s =
     (let sq = request_seq mb in
      if sq = last_handled_seq then (last_handled_seq, mb, s)
      else let (granted, s) = decide (request_id mb) (request_code mb) s;
               mb = mb\<lparr>response_granted := granted\<rparr>;
               mb = mb\<lparr>response_seq := sq\<rparr>
           in (sq, mb, s))"

section \<open>The interleaving\<close>

datatype pc1 =
    Input  \<comment> \<open>collecting digits\<close>
  | PutId u32 u16 u32  \<comment> \<open>\<open>my_seq\<close>, id, code: about to write \<open>request_id\<close>\<close>
  | PutCode u32 u16 u32
  | PutSeq u32 u16 u32
  | Wait u32 u16 u32  \<comment> \<open>polling \<open>response_seq\<close>\<close>
  | ReadGranted u32 u16 u32  \<comment> \<open>saw the match\<close>

datatype pc0 =
    Idle
  | GetId u32
  | GetCode u32 u16
  | Decide u32 u16 u32
  | PutGranted u32 u16 u32 bool
  | PutResponse u32 u16 u32 bool

record 'e door =
  mb :: mailbox
  core1 :: pc1
  core0 :: pc0
  next_seq :: u32
  last_handled :: u32
  env :: 'e
  attempts :: nat
  submitted :: "(u32 \<times> u16 \<times> u32) list"
  verdicts :: "(u32 \<times> u16 \<times> u32 \<times> 'e \<times> bool) list"
  opened :: "(u32 \<times> u16 \<times> u32) list"

inductive door_step :: "(u16 \<Rightarrow> u32 \<Rightarrow> 'e \<Rightarrow> bool) \<Rightarrow> 'e door \<Rightarrow> 'e door \<Rightarrow> bool"
  for decide :: "u16 \<Rightarrow> u32 \<Rightarrow> 'e \<Rightarrow> bool" where
  submit: "core1 s = Input \<Longrightarrow>
    door_step decide s (s\<lparr>next_seq := next_seq s + 1, attempts := Suc (attempts s),
      submitted := (next_seq s + 1, i, c) # submitted s, core1 := PutId (next_seq s + 1) i c\<rparr>)"
| put_id: "core1 s = PutId n i c \<Longrightarrow>
    door_step decide s (s\<lparr>mb := (mb s)\<lparr>request_id := i\<rparr>, core1 := PutCode n i c\<rparr>)"
| put_code: "core1 s = PutCode n i c \<Longrightarrow>
    door_step decide s (s\<lparr>mb := (mb s)\<lparr>request_code := c\<rparr>, core1 := PutSeq n i c\<rparr>)"
| put_seq: "core1 s = PutSeq n i c \<Longrightarrow>
    door_step decide s (s\<lparr>mb := (mb s)\<lparr>request_seq := n\<rparr>, core1 := Wait n i c\<rparr>)"
| saw_response: "core1 s = Wait n i c \<Longrightarrow> response_seq (mb s) = n \<Longrightarrow>
    door_step decide s (s\<lparr>core1 := ReadGranted n i c\<rparr>)"
| timeout: "core1 s = Wait n i c \<Longrightarrow>
    door_step decide s (s\<lparr>core1 := Input\<rparr>)"
| grant: "core1 s = ReadGranted n i c \<Longrightarrow> response_granted (mb s) \<Longrightarrow>
    door_step decide s (s\<lparr>opened := (n, i, c) # opened s, core1 := Input\<rparr>)"
| refuse: "core1 s = ReadGranted n i c \<Longrightarrow> \<not> response_granted (mb s) \<Longrightarrow>
    door_step decide s (s\<lparr>core1 := Input\<rparr>)"
| see_request: "core0 s = Idle \<Longrightarrow> request_seq (mb s) \<noteq> last_handled s \<Longrightarrow>
    door_step decide s (s\<lparr>core0 := GetId (request_seq (mb s))\<rparr>)"
| get_id: "core0 s = GetId n \<Longrightarrow>
    door_step decide s (s\<lparr>core0 := GetCode n (request_id (mb s))\<rparr>)"
| get_code: "core0 s = GetCode n i \<Longrightarrow>
    door_step decide s (s\<lparr>core0 := Decide n i (request_code (mb s))\<rparr>)"
| decide: "core0 s = Decide n i c \<Longrightarrow>
    door_step decide s (s\<lparr>verdicts := (n, i, c, env s, decide i c (env s)) # verdicts s,
      core0 := PutGranted n i c (decide i c (env s))\<rparr>)"
| put_granted: "core0 s = PutGranted n i c g \<Longrightarrow>
    door_step decide s (s\<lparr>mb := (mb s)\<lparr>response_granted := g\<rparr>, core0 := PutResponse n i c g\<rparr>)"
| put_response: "core0 s = PutResponse n i c g \<Longrightarrow>
    door_step decide s (s\<lparr>mb := (mb s)\<lparr>response_seq := n\<rparr>, last_handled := n, core0 := Idle\<rparr>)"
| environment: "door_step decide s (s\<lparr>env := e\<rparr>)"

definition door_boot :: "'e \<Rightarrow> 'e door" where
  "door_boot e = \<lparr>mb = mailbox_boot, core1 = Input, core0 = Idle, next_seq = 0, last_handled = 0,
     env = e, attempts = 0, submitted = [], verdicts = [], opened = []\<rparr>"

section \<open>The invariant\<close>

fun core1_ok :: "nat \<Rightarrow> mailbox \<Rightarrow> u32 \<Rightarrow> pc1 \<Rightarrow> bool" where
  "core1_ok a m nx Input \<longleftrightarrow> unat (request_seq m) = a"
| "core1_ok a m nx (PutId n i c) \<longleftrightarrow> n = nx \<and> unat (request_seq m) < a"
| "core1_ok a m nx (PutCode n i c) \<longleftrightarrow> n = nx \<and> unat (request_seq m) < a \<and> request_id m = i"
| "core1_ok a m nx (PutSeq n i c) \<longleftrightarrow>
     n = nx \<and> unat (request_seq m) < a \<and> request_id m = i \<and> request_code m = c"
| "core1_ok a m nx (Wait n i c) \<longleftrightarrow>
     n = nx \<and> 0 < a \<and> unat (request_seq m) = a \<and> request_id m = i \<and> request_code m = c"
| "core1_ok a m nx (ReadGranted n i c) \<longleftrightarrow>
     n = nx \<and> 0 < a \<and> unat (request_seq m) = a \<and> request_id m = i \<and> request_code m = c \<and>
     unat (response_seq m) = a"

fun pending_ok :: "(u32 \<times> u16 \<times> u32) set \<Rightarrow> pc1 \<Rightarrow> bool" where
  "pending_ok A Input \<longleftrightarrow> True"
| "pending_ok A (PutId n i c) \<longleftrightarrow> (n, i, c) \<in> A"
| "pending_ok A (PutCode n i c) \<longleftrightarrow> (n, i, c) \<in> A"
| "pending_ok A (PutSeq n i c) \<longleftrightarrow> (n, i, c) \<in> A"
| "pending_ok A (Wait n i c) \<longleftrightarrow> (n, i, c) \<in> A"
| "pending_ok A (ReadGranted n i c) \<longleftrightarrow> (n, i, c) \<in> A"

definition justified :: "(u32 \<times> u16 \<times> u32 \<times> 'e \<times> bool) set \<Rightarrow> u32 \<Rightarrow> u16 \<Rightarrow> u32 \<Rightarrow> bool \<Rightarrow> bool" where
  "justified vs n i c g \<longleftrightarrow> (\<exists>e. (n, i, c, e, g) \<in> vs)"

fun core0_ok :: "nat \<Rightarrow> mailbox \<Rightarrow> u32 \<Rightarrow> (u32 \<times> u16 \<times> u32 \<times> 'e \<times> bool) set \<Rightarrow> pc0 \<Rightarrow> bool" where
  "core0_ok a m lh vs Idle \<longleftrightarrow> True"
| "core0_ok a m lh vs (GetId n) \<longleftrightarrow> unat lh < unat n \<and> unat n \<le> unat (request_seq m)"
| "core0_ok a m lh vs (GetCode n i) \<longleftrightarrow> unat lh < unat n \<and> unat n \<le> unat (request_seq m) \<and>
     (unat n = a \<longrightarrow> i = request_id m)"
| "core0_ok a m lh vs (Decide n i c) \<longleftrightarrow> unat lh < unat n \<and> unat n \<le> unat (request_seq m) \<and>
     (unat n = a \<longrightarrow> i = request_id m \<and> c = request_code m)"
| "core0_ok a m lh vs (PutGranted n i c g) \<longleftrightarrow> unat lh < unat n \<and> unat n \<le> unat (request_seq m) \<and>
     (unat n = a \<longrightarrow> i = request_id m \<and> c = request_code m) \<and> justified vs n i c g"
| "core0_ok a m lh vs (PutResponse n i c g) \<longleftrightarrow> unat lh < unat n \<and> unat n \<le> unat (request_seq m) \<and>
     (unat n = a \<longrightarrow> i = request_id m \<and> c = request_code m) \<and> justified vs n i c g \<and>
     response_granted m = g"

definition door_inv :: "(u16 \<Rightarrow> u32 \<Rightarrow> 'e \<Rightarrow> bool) \<Rightarrow> 'e door \<Rightarrow> bool" where
  "door_inv decide s \<longleftrightarrow>
     unat (next_seq s) = attempts s \<and>
     unat (request_seq (mb s)) \<le> attempts s \<and>
     unat (last_handled s) \<le> unat (request_seq (mb s)) \<and>
     response_seq (mb s) = last_handled s \<and>
     core1_ok (attempts s) (mb s) (next_seq s) (core1 s) \<and>
     core0_ok (attempts s) (mb s) (last_handled s) (set (verdicts s)) (core0 s) \<and>
     (0 < attempts s \<and> unat (response_seq (mb s)) = attempts s \<longrightarrow>
        justified (set (verdicts s)) (next_seq s) (request_id (mb s)) (request_code (mb s)) (response_granted (mb s))) \<and>
     (\<forall>(n, i, c, e, g) \<in> set (verdicts s). g = decide i c e) \<and>
     (\<forall>(n, i, c) \<in> set (opened s). justified (set (verdicts s)) n i c True \<and> (n, i, c) \<in> set (submitted s)) \<and>
     (\<forall>(n, i, c) \<in> set (submitted s). unat n \<le> attempts s \<and> 0 < unat n) \<and>
     distinct (map fst (submitted s)) \<and>
     pending_ok (set (submitted s)) (core1 s)"

lemma next_seq_nat:
  assumes "unat (n::u32) = a" and "Suc a < 2 ^ 32"
  shows "unat (n + 1) = Suc a"
  using assms by (simp add: unat_word_ariths)

lemma door_inv_boot: "door_inv decide (door_boot e)"
  by (simp add: door_inv_def door_boot_def mailbox_boot_def)

lemma core0_ok_submit:
  "core0_ok a m lh vs p \<Longrightarrow> unat (request_seq m) \<le> a \<Longrightarrow> core0_ok (Suc a) m lh vs p"
  by (cases p) auto

lemma core0_ok_writes:
  "core0_ok a m lh vs p \<Longrightarrow> unat (request_seq m) < a \<Longrightarrow> core0_ok a (m\<lparr>request_id := i\<rparr>) lh vs p"
  "core0_ok a m lh vs p \<Longrightarrow> unat (request_seq m) < a \<Longrightarrow> core0_ok a (m\<lparr>request_code := c\<rparr>) lh vs p"
  "core0_ok a m lh vs p \<Longrightarrow> unat (request_seq m) < a \<Longrightarrow> unat n = a \<Longrightarrow> core0_ok a (m\<lparr>request_seq := n\<rparr>) lh vs p"
  by (cases p; auto)+

lemma core1_ok_response:
  "core1_ok a m nx p \<Longrightarrow> unat (response_seq m) < a \<or> response_seq m' = response_seq m \<Longrightarrow>
     request_seq m' = request_seq m \<Longrightarrow> request_id m' = request_id m \<Longrightarrow>
     request_code m' = request_code m \<Longrightarrow> core1_ok a m' nx p"
  by (cases p) auto

lemma justified_mono: "justified vs n i c g \<Longrightarrow> justified (insert v vs) n i c g"
  by (auto simp: justified_def)

lemma door_step_attempts: "door_step decide s s' \<Longrightarrow> attempts s \<le> attempts s'"
  by (induction rule: door_step.induct) simp_all

lemma door_step_inv:
  assumes "door_step decide s s'" and "door_inv decide s" and "attempts s' < 2 ^ 32"
  shows "door_inv decide s'"
  using assms
proof (induction rule: door_step.induct)
  case (submit s i c)
  have n: "unat (next_seq s + 1) = Suc (attempts s)"
    using submit by (intro next_seq_nat) (simp_all add: door_inv_def)
  show ?case
    using submit n unfolding door_inv_def by (auto intro: core0_ok_submit)
next
  case (see_request s)
  then show ?case
    unfolding door_inv_def by (auto simp: le_less word_unat_eq_iff)
next
  case (put_response s n i c g)
  have "n = next_seq s" if "unat n = attempts s"
    using that put_response by (simp add: door_inv_def word_unat_eq_iff)
  then show ?case
    using put_response unfolding door_inv_def
    by (cases "unat n = attempts s") (auto intro: core1_ok_response)
qed (unfold door_inv_def; auto simp: justified_def intro: core0_ok_writes core1_ok_response)+

abbreviation door_reachable :: "(u16 \<Rightarrow> u32 \<Rightarrow> 'e \<Rightarrow> bool) \<Rightarrow> 'e \<Rightarrow> 'e door \<Rightarrow> bool" where
  "door_reachable decide e0 \<equiv> (door_step decide)\<^sup>*\<^sup>* (door_boot e0)"

interpretation doorm: inv_steps "door_step decide" "\<lambda>s. attempts s < 2 ^ 32 \<longrightarrow> door_inv decide s" for decide
proof unfold_locales
  fix s s' :: "'a door"
  assume st: "door_step decide s s'" and "attempts s < 2 ^ 32 \<longrightarrow> door_inv decide s"
  then show "attempts s' < 2 ^ 32 \<longrightarrow> door_inv decide s'"
    using door_step_inv [OF st] door_step_attempts [OF st] by force
qed

lemma door_reachable_inv:
  assumes "door_reachable decide e0 s" and "attempts s < 2 ^ 32"
  shows "door_inv decide s"
  using doorm.steps_inv [OF assms(1)] door_inv_boot [of decide e0] assms(2) by simp

lemma verdict_yes:
  assumes "fst (door_verdict L crc hmac i c (st, rtc))"
  shows "\<exists>key. fst (storage_key_get L crc i st) = Some key \<and> is_checksum_valid key \<and> is_enabled key \<and>
    totp_verify hmac rtc (secret key) c"
  using assms by (auto simp: door_verdict_def split: prod.splits option.splits if_splits)

lemma opened_verified:
  assumes "door_reachable (\<lambda>i c e. fst (door_verdict L crc hmac i c e)) e0 s"
    and "attempts s < 2 ^ 32" and "(n, i, c) \<in> set (opened s)"
  shows "(n, i, c) \<in> set (submitted s) \<and> distinct (map fst (submitted s))
    \<and> (\<exists>st rtc key. (n, i, c, (st, rtc), True) \<in> set (verdicts s)
        \<and> fst (storage_key_get L crc i st) = Some key
        \<and> is_checksum_valid key \<and> is_enabled key \<and> totp_verify hmac rtc (secret key) c)"
proof -
  note inv = door_reachable_inv [OF assms(1,2)]
  have o: "(n, i, c) \<in> set (submitted s)" "distinct (map fst (submitted s))"
    "justified (set (verdicts s)) n i c True"
    using inv assms(3) unfolding door_inv_def by blast+
  obtain st rtc where v: "(n, i, c, (st, rtc), True) \<in> set (verdicts s)"
    using o(3) by (auto simp: justified_def)
  then have "fst (door_verdict L crc hmac i c (st, rtc))"
    using inv unfolding door_inv_def by fastforce
  then obtain key where "fst (storage_key_get L crc i st) = Some key"
    "is_checksum_valid key" "is_enabled key" "totp_verify hmac rtc (secret key) c"
    using verdict_yes by blast
  then show ?thesis
    using o(1,2) v by blast
qed

text \<open>C5: whatever the interleaving of the two cores and whatever else happens to storage
  and clock, the latch is only opened for an attempt for which core 0 looked up exactly the
  identifier and code of that attempt and found a sound, enabled record whose TOTP accepts
  the code; a late or stale verdict never opens it. (The sequence number is a 32-bit
  counter: fewer than \<open>2^32\<close> attempts since boot.)\<close>

theorem latch_opens_only_when_verified:
  assumes "door_reachable (\<lambda>i c e. fst (door_verdict L crc hmac i c e)) e0 s"
    and "attempts s < 2 ^ 32" and "(n, i, c) \<in> set (opened s)"
  shows "(n, i, c) \<in> set (submitted s) \<and> distinct (map fst (submitted s))
    \<and> (\<exists>st rtc key. (n, i, c, (st, rtc), True) \<in> set (verdicts s)
        \<and> fst (storage_key_get L crc i st) = Some key
        \<and> is_checksum_valid key \<and> is_enabled key \<and> totp_verify hmac rtc (secret key) c)"
  by (rule opened_verified [OF assms])

section \<open>The handshake completes\<close>

definition core0_moves :: "(u16 \<Rightarrow> u32 \<Rightarrow> 'e \<Rightarrow> bool) \<Rightarrow> 'e door \<Rightarrow> 'e door \<Rightarrow> bool" where
  \<comment> \<open>the steps of core 0 and of its environment\<close>
  "core0_moves decide s s' \<longleftrightarrow> door_step decide s s' \<and> core1 s' = core1 s"

abbreviation others :: "(u16 \<Rightarrow> u32 \<Rightarrow> 'e \<Rightarrow> bool) \<Rightarrow> 'e door \<Rightarrow> 'e door \<Rightarrow> bool" where
  "others decide \<equiv> (core0_moves decide)\<^sup>*\<^sup>*"

lemma others_steps: "others decide s s' \<Longrightarrow> (door_step decide)\<^sup>*\<^sup>* s s'"
  by (rule rtranclp_mono [THEN predicate2D]) (auto simp: core0_moves_def)

text \<open>Undisturbed, the core-0 steps compute what the servicer computes as a function.\<close>

lemma core0_steps:
  assumes "core0 s = Idle" and "request_seq (mb s) \<noteq> last_handled s"
  shows "others decide s
    (s\<lparr>mb := fst (snd (core0_handle_door_verify (\<lambda>i c e. (decide i c e, e)) (last_handled s) (mb s) (env s))),
       last_handled := fst (core0_handle_door_verify (\<lambda>i c e. (decide i c e, e)) (last_handled s) (mb s) (env s)),
       verdicts := (request_seq (mb s), request_id (mb s), request_code (mb s), env s,
          decide (request_id (mb s)) (request_code (mb s)) (env s)) # verdicts s\<rparr>)"
proof -
  let ?n = "request_seq (mb s)" and ?i = "request_id (mb s)" and ?c = "request_code (mb s)"
  let ?g = "decide ?i ?c (env s)"
  let ?v = "(?n, ?i, ?c, env s, ?g) # verdicts s"
  let ?s1 = "s\<lparr>core0 := GetId ?n\<rparr>" and ?s2 = "s\<lparr>core0 := GetCode ?n ?i\<rparr>"
    and ?s3 = "s\<lparr>core0 := Decide ?n ?i ?c\<rparr>"
    and ?s4 = "s\<lparr>verdicts := ?v, core0 := PutGranted ?n ?i ?c ?g\<rparr>"
    and ?s5 = "s\<lparr>verdicts := ?v, mb := (mb s)\<lparr>response_granted := ?g\<rparr>, core0 := PutResponse ?n ?i ?c ?g\<rparr>"
    and ?s6 = "s\<lparr>verdicts := ?v, mb := (mb s)\<lparr>response_granted := ?g, response_seq := ?n\<rparr>,
       last_handled := ?n, core0 := Idle\<rparr>"
  have "core0_moves decide s ?s1"
    using door_step.see_request [OF assms] by (simp add: core0_moves_def)
  moreover have "core0_moves decide ?s1 ?s2"
    using door_step.get_id [of ?s1 ?n decide] by (simp add: core0_moves_def)
  moreover have "core0_moves decide ?s2 ?s3"
    using door_step.get_code [of ?s2 ?n ?i decide] by (simp add: core0_moves_def)
  moreover have "core0_moves decide ?s3 ?s4"
    using door_step.decide [of ?s3 ?n ?i ?c decide] by (simp add: core0_moves_def)
  moreover have "core0_moves decide ?s4 ?s5"
    using door_step.put_granted [of ?s4 ?n ?i ?c ?g decide] by (simp add: core0_moves_def)
  moreover have "core0_moves decide ?s5 ?s6"
    using door_step.put_response [of ?s5 ?n ?i ?c ?g decide] by (simp add: core0_moves_def)
  ultimately have "others decide s ?s6"
    by (meson converse_rtranclp_into_rtranclp rtranclp.rtrancl_refl)
  moreover have "?s6 = s\<lparr>mb := (mb s)\<lparr>response_granted := ?g, response_seq := ?n\<rparr>,
       last_handled := ?n, verdicts := ?v\<rparr>"
    using assms(1) by (cases s) simp
  ultimately show ?thesis
    using assms(2) by (simp add: core0_handle_door_verify_def Let_def)
qed

lemma attempt_run:
  assumes "door_reachable decide e0 s" and "Suc (attempts s) < 2 ^ 32"
    and "core1 s = Input" and "core0 s = Idle" and "request_seq (mb s) = last_handled s"
  shows "\<exists>s'. (door_step decide)\<^sup>*\<^sup>* s s' \<and> core1 s' = Input \<and> core0 s' = Idle
    \<and> request_seq (mb s') = last_handled s' \<and> attempts s' = Suc (attempts s)
    \<and> opened s' = (if decide i c (env s) then [(next_seq s + 1, i, c)] else []) @ opened s"
proof -
  have inv: "door_inv decide s"
    using door_reachable_inv [OF assms(1)] assms(2) by simp
  let ?n = "next_seq s + 1"
  have "unat ?n = Suc (attempts s)"
    using inv assms(2) by (intro next_seq_nat) (simp_all add: door_inv_def)
  moreover have "unat (last_handled s) \<le> attempts s"
    using inv by (simp add: door_inv_def)
  ultimately have new: "?n \<noteq> last_handled s"
    by auto
  let ?m = "(mb s)\<lparr>request_id := i, request_code := c, request_seq := ?n\<rparr>"
  let ?b = "s\<lparr>next_seq := ?n, attempts := Suc (attempts s), submitted := (?n, i, c) # submitted s\<rparr>"
  let ?s1 = "?b\<lparr>core1 := PutId ?n i c\<rparr>"
  let ?s2 = "?b\<lparr>mb := (mb s)\<lparr>request_id := i\<rparr>, core1 := PutCode ?n i c\<rparr>"
  let ?s3 = "?b\<lparr>mb := (mb s)\<lparr>request_id := i, request_code := c\<rparr>, core1 := PutSeq ?n i c\<rparr>"
  let ?s4 = "?b\<lparr>mb := ?m, core1 := Wait ?n i c\<rparr>"
  have "door_step decide s ?s1"
    using door_step.submit [OF assms(3), of decide i c] .
  moreover have "door_step decide ?s1 ?s2"
    using door_step.put_id [of ?s1 ?n i c decide] by simp
  moreover have "door_step decide ?s2 ?s3"
    using door_step.put_code [of ?s2 ?n i c decide] by simp
  moreover have "door_step decide ?s3 ?s4"
    using door_step.put_seq [of ?s3 ?n i c decide] by simp
  ultimately have ask: "(door_step decide)\<^sup>*\<^sup>* s ?s4"
    by (meson converse_rtranclp_into_rtranclp rtranclp.rtrancl_refl)
  let ?g = "decide i c (env s)"
  let ?s5 = "?s4\<lparr>mb := ?m\<lparr>response_granted := ?g, response_seq := ?n\<rparr>, last_handled := ?n,
      verdicts := (?n, i, c, env s, ?g) # verdicts s\<rparr>"
  have "(door_step decide)\<^sup>*\<^sup>* ?s4 ?s5"
    using others_steps [OF core0_steps [of ?s4 decide]] new assms(4)
    by (simp add: core0_handle_door_verify_def Let_def)
  moreover have "door_step decide ?s5 (?s5\<lparr>core1 := ReadGranted ?n i c\<rparr>)" (is "door_step decide ?s5 ?s6")
    by (rule door_step.saw_response) simp_all
  moreover have "door_step decide ?s6 (?s6\<lparr>opened := (if ?g then [(?n, i, c)] else []) @ opened s, core1 := Input\<rparr>)"
    (is "door_step decide ?s6 ?s7")
    using door_step.grant [of ?s6 ?n i c decide] door_step.refuse [of ?s6 ?n i c decide]
    by (cases ?g) simp_all
  ultimately have "(door_step decide)\<^sup>*\<^sup>* s ?s7"
    using ask by (meson rtranclp.rtrancl_into_rtrancl rtranclp_trans)
  then show ?thesis
    using assms(4) by (intro exI [of _ ?s7]) simp
qed

text \<open>C19: the handshake completes: from every reachable state in which core 1 collects digits
  and core 0 has answered the last request, a submitted attempt can be carried to its end,
  and the latch opens for it exactly when the decision on its identifier and code is yes.\<close>

theorem attempt_completes:
  assumes "door_reachable decide e0 s" and "Suc (attempts s) < 2 ^ 32"
    and "core1 s = Input" and "core0 s = Idle" and "request_seq (mb s) = last_handled s"
  shows "\<exists>s'. (door_step decide)\<^sup>*\<^sup>* s s' \<and> core1 s' = Input \<and> core0 s' = Idle
    \<and> request_seq (mb s') = last_handled s' \<and> attempts s' = Suc (attempts s)
    \<and> opened s' = (if decide i c (env s) then [(next_seq s + 1, i, c)] else []) @ opened s"
  by (rule attempt_run [OF assms])

section \<open>Witnesses\<close>

definition echo_mac :: mac where
  \<comment> \<open>a digest to evaluate with: the low counter byte, twenty times\<close>
  "echo_mac k m = replicate 20 (m ! 7)"

abbreviation minute_one :: datetime_t where
  "minute_one \<equiv> \<lparr>year = 1970, month = 1, day = 1, dotw = 4, hour = 0, minute = 1, sec = 0\<rparr>"

definition door_env :: "ram store \<times> datetime_t option" where
  "door_env = (snd (storage_key_save ram_api sum_crc (door_key 5 True) ram_store), Some minute_one)"

abbreviation door_decide :: "u16 \<Rightarrow> u32 \<Rightarrow> ram store \<times> datetime_t option \<Rightarrow> bool" where
  "door_decide \<equiv> \<lambda>i c e. fst (door_verdict ram_api sum_crc echo_mac i c e)"

lemma door_decide_yes: "door_decide 5 686018 door_env"
proof -
  obtain k st where g: "storage_key_get ram_api sum_crc 5 (fst door_env) = (Some k, st)"
    "k = norm_key (door_key 5 True)"
    using door_saved(2) [of sum_crc] by (metis door_env_def fst_conv prod.collapse)
  have "totp_verify echo_mac (Some minute_one) s 686018" for s
    unfolding totp_verify_def totp_at_def echo_mac_def by code_simp
  then show ?thesis
    using g by (simp add: door_verdict_def door_env_def)
qed

lemma door_opened:
  obtains s where "door_reachable door_decide door_env s" and "attempts s = 1"
    and "(1, 5, 686018) \<in> set (opened s)"
proof -
  have "Suc (attempts (door_boot door_env)) < 2 ^ 32"
    by (simp add: door_boot_def)
  then obtain s where "door_reachable door_decide door_env s" "attempts s = 1"
    "opened s = [(1, 5, 686018)]"
    using attempt_run [of door_decide door_env "door_boot door_env" 5 686018] door_decide_yes
    by (auto simp: door_boot_def mailbox_boot_def)
  then show thesis
    using that by simp
qed

theorem latch_opens_only_when_verified_witness:
  "\<exists>s. door_reachable door_decide door_env s \<and> (1, 5, 686018) \<in> set (opened s)
     \<and> (\<exists>st rtc key. fst (storage_key_get ram_api sum_crc 5 st) = Some key \<and> is_enabled key
          \<and> totp_verify echo_mac rtc (secret key) 686018)"
proof -
  obtain s where s: "door_reachable door_decide door_env s" "attempts s = 1" "(1, 5, 686018) \<in> set (opened s)"
    by (rule door_opened)
  have "attempts s < 2 ^ 32"
    by (simp add: s(2))
  from latch_opens_only_when_verified [OF s(1) this s(3)] show ?thesis
    using s(1,3) by blast
qed

theorem attempt_completes_witness:
  "\<exists>s'. (door_step door_decide)\<^sup>*\<^sup>* (door_boot door_env) s' \<and> opened s' = [(1, 5, 686018)]"
proof -
  have "door_reachable door_decide door_env (door_boot door_env)" "Suc (attempts (door_boot door_env)) < 2 ^ 32"
    by (simp_all add: door_boot_def)
  from attempt_completes [OF this, of 5 686018] show ?thesis
    using door_decide_yes by (auto simp: door_boot_def mailbox_boot_def)
qed

end
