(* ===== verification/Hardware.thy ===== *)
theory Hardware imports Prelude
begin

text \<open>
  The output drivers of \<open>hardware/\<close>: buzzer, latch, LED and light. A driver call is the list of
  its effects in order: pin writes and busy waits. The console's \<open>printf\<close> output and the
  resets are effects of the same log. \<open>watchdog\<close> runs the watchdog timer over a sequence.
\<close>

datatype effect =
    GpioInit nat
  | GpioDir nat bool  \<comment> \<open>true: output\<close>
  | GpioPull nat
  | GpioPut nat bool
  | SleepMs nat
  | SleepUs nat
  | Out string
  | WatchdogEnable nat  \<comment> \<open>milliseconds\<close>
  | WatchdogUpdate
  | SystemReset
  | WatchdogReboot nat

abbreviation CRLF :: string where
  "CRLF \<equiv> [CHR 0x0D, CHR 0x0A]"

definition BUZZER_PIN :: nat where "BUZZER_PIN = 17"
definition BUZZER_SHORT_BEEP_DELAY :: nat where "BUZZER_SHORT_BEEP_DELAY = 100"
definition BUZZER_MEDIUM_BEEP_DELAY :: nat where "BUZZER_MEDIUM_BEEP_DELAY = 500"
definition BUZZER_LONG_BEEP_DELAY :: nat where "BUZZER_LONG_BEEP_DELAY = 2000"
definition LATCH_PIN :: nat where "LATCH_PIN = 16"
definition LATCH_OPEN_DELAY :: nat where "LATCH_OPEN_DELAY = 5000"
definition LED_PIN :: nat where "LED_PIN = 18"
definition LIGHT_PIN :: nat where "LIGHT_PIN = 2"

section \<open>Buzzer\<close>

definition buzzer_on :: "effect list" where
  "buzzer_on = [GpioPut BUZZER_PIN True]"

definition buzzer_off :: "effect list" where
  "buzzer_off = [GpioPut BUZZER_PIN False]"

definition buzzer_init :: "effect list" where
  "buzzer_init = [GpioInit BUZZER_PIN, GpioDir BUZZER_PIN True] @ buzzer_off"

definition buzzer_beep_short :: "effect list" where
  "buzzer_beep_short = buzzer_on @ [SleepMs BUZZER_SHORT_BEEP_DELAY] @ buzzer_off @ [SleepMs BUZZER_SHORT_BEEP_DELAY]"

definition buzzer_beep_medium :: "effect list" where
  "buzzer_beep_medium = buzzer_on @ [SleepMs BUZZER_MEDIUM_BEEP_DELAY] @ buzzer_off @ [SleepMs BUZZER_MEDIUM_BEEP_DELAY]"

definition buzzer_beep_long :: "effect list" where
  "buzzer_beep_long = buzzer_on @ [SleepMs BUZZER_LONG_BEEP_DELAY] @ buzzer_off @ [SleepMs BUZZER_LONG_BEEP_DELAY]"

definition buzzer_play_boot :: "effect list" where
  "buzzer_play_boot = buzzer_beep_short @ buzzer_beep_short"

definition buzzer_play_command_ack :: "effect list" where
  "buzzer_play_command_ack = buzzer_beep_short"

definition buzzer_play_auth_error :: "effect list" where
  "buzzer_play_auth_error = buzzer_beep_medium @ buzzer_beep_short"

definition buzzer_play_ntp_sync_error :: "effect list" where
  "buzzer_play_ntp_sync_error =
     buzzer_beep_short @ buzzer_beep_medium @ buzzer_beep_short @ buzzer_beep_medium"

definition buzzer_play_success :: "effect list" where
  "buzzer_play_success = buzzer_beep_short"

definition buzzer_play_fail :: "effect list" where
  "buzzer_play_fail = buzzer_beep_medium @ buzzer_beep_medium"

definition buzzer_play_doorbell :: "effect list" where
  "buzzer_play_doorbell = buzzer_beep_medium @ buzzer_beep_short @ buzzer_beep_medium @
     buzzer_beep_short @ buzzer_beep_medium @ buzzer_beep_short"

definition buzzer_play_door_open :: "effect list" where
  "buzzer_play_door_open = buzzer_beep_short @ buzzer_beep_short @ buzzer_beep_short"

section \<open>Latch, LED and light\<close>

definition latch_init :: "effect list" where
  "latch_init = [GpioInit LATCH_PIN, GpioDir LATCH_PIN True, GpioPut LATCH_PIN False]"

definition latch_open :: "effect list" where
  "latch_open = [GpioPut LATCH_PIN True, SleepMs LATCH_OPEN_DELAY, GpioPut LATCH_PIN False]"

definition led_on :: "effect list" where
  "led_on = [GpioPut LED_PIN True]"

definition led_off :: "effect list" where
  "led_off = [GpioPut LED_PIN False]"

definition led_init :: "effect list" where
  "led_init = [GpioInit LED_PIN, GpioDir LED_PIN True] @ led_off"

definition light_on :: "effect list" where
  "light_on = [GpioPut LIGHT_PIN True]"

definition light_off :: "effect list" where
  "light_off = [GpioPut LIGHT_PIN False]"

definition light_init :: "effect list" where
  "light_init = [GpioInit LIGHT_PIN, GpioDir LIGHT_PIN True] @ light_off"

section \<open>Reading the log\<close>

fun watchdog :: "nat \<Rightarrow> nat \<Rightarrow> effect list \<Rightarrow> nat option" where
  \<comment> \<open>the watchdog with a timeout of \<open>lim\<close> microseconds, \<open>a\<close> of them since its last update: what has
      run at the end of the sequence, \<open>None\<close> when it has bitten\<close>
  "watchdog lim a [] = Some a"
| "watchdog lim a (SleepMs n # es) = (if a + 1000 * n < lim then watchdog lim (a + 1000 * n) es else None)"
| "watchdog lim a (SleepUs n # es) = (if a + n < lim then watchdog lim (a + n) es else None)"
| "watchdog lim a (WatchdogUpdate # es) = watchdog lim 0 es"
| "watchdog lim a (_ # es) = watchdog lim a es"

lemma watchdog_append: "watchdog lim a (xs @ ys) = Option.bind (watchdog lim a xs) (\<lambda>b. watchdog lim b ys)"
  by (induction lim a xs rule: watchdog.induct) auto

definition unlocks :: "effect list \<Rightarrow> bool" where
  "unlocks es \<longleftrightarrow> GpioPut LATCH_PIN True \<in> set es"

lemma unlocks_append [simp]: "unlocks (xs @ ys) \<longleftrightarrow> unlocks xs \<or> unlocks ys"
  by (auto simp: unlocks_def)

lemma unlocks_Nil [simp]: "\<not> unlocks []"
  by (simp add: unlocks_def)

lemma unlocks_Cons [simp]: "unlocks (e # es) \<longleftrightarrow> e = GpioPut LATCH_PIN True \<or> unlocks es"
  by (auto simp: unlocks_def)

lemmas buzzer_defs = buzzer_on_def buzzer_off_def buzzer_init_def buzzer_beep_short_def
  buzzer_beep_medium_def buzzer_beep_long_def buzzer_play_boot_def buzzer_play_command_ack_def
  buzzer_play_auth_error_def buzzer_play_ntp_sync_error_def buzzer_play_success_def
  buzzer_play_fail_def buzzer_play_doorbell_def buzzer_play_door_open_def
  BUZZER_PIN_def BUZZER_SHORT_BEEP_DELAY_def BUZZER_MEDIUM_BEEP_DELAY_def BUZZER_LONG_BEEP_DELAY_def

lemma buzzer_keeps_locked [simp]:
  "\<not> unlocks buzzer_on" "\<not> unlocks buzzer_off" "\<not> unlocks buzzer_beep_short" "\<not> unlocks buzzer_beep_long"
  "\<not> unlocks buzzer_play_boot" "\<not> unlocks buzzer_play_command_ack" "\<not> unlocks buzzer_play_auth_error"
  "\<not> unlocks buzzer_play_ntp_sync_error" "\<not> unlocks buzzer_play_success" "\<not> unlocks buzzer_play_fail"
  "\<not> unlocks buzzer_play_doorbell" "\<not> unlocks buzzer_play_door_open"
  by (simp_all add: unlocks_def LATCH_PIN_def buzzer_defs)

lemma latch_open_unlocks [simp]: "unlocks latch_open"
  by (simp add: unlocks_def latch_open_def)

end
