(* ===== verification/Keypad.thy ===== *)
theory Keypad imports Hardware
begin

text \<open>
  \<open>hardware/keypad.c\<close> and \<open>hardware/keypad.h\<close>: the row scan of the 4 by 4 matrix and the debounce
  automaton. What the column inputs show while a row is driven is the argument \<open>pressed\<close>; the
  clock readings are arguments in microseconds.
\<close>

definition KEYPAD_ROWS :: nat where "KEYPAD_ROWS = 4"
definition KEYPAD_COLS :: nat where "KEYPAD_COLS = 4"
definition KEYPAD_ROW_BASE :: nat where "KEYPAD_ROW_BASE = 10"
definition KEYPAD_COL_BASE :: nat where "KEYPAD_COL_BASE = 6"
definition KEYPAD_DEBOUNCE_MS :: nat where "KEYPAD_DEBOUNCE_MS = 20"

definition KEY_MAP :: "string list" where
  "KEY_MAP = [''123A'', ''456B'', ''789C'', ''*0#D'']"

definition keypad_init :: "effect list" where
  "keypad_init =
     concat (map (\<lambda>r. [GpioInit (KEYPAD_ROW_BASE + r), GpioDir (KEYPAD_ROW_BASE + r) True,
                       GpioPut (KEYPAD_ROW_BASE + r) True]) [0..<KEYPAD_ROWS]) @
     concat (map (\<lambda>c. [GpioInit (KEYPAD_COL_BASE + c), GpioDir (KEYPAD_COL_BASE + c) False,
                       GpioPull (KEYPAD_COL_BASE + c)]) [0..<KEYPAD_COLS])"

fun scan_rows :: "(nat \<Rightarrow> nat \<Rightarrow> bool) \<Rightarrow> nat list \<Rightarrow> char option \<times> effect list" where
  "scan_rows pressed [] = (None, [])"
| "scan_rows pressed (r # rs) =
     (let drive = [GpioPut (KEYPAD_ROW_BASE + r) False, SleepUs 10];
          release = [GpioPut (KEYPAD_ROW_BASE + r) True] in
      case List.find (pressed r) [0..<KEYPAD_COLS] of
        Some c \<Rightarrow> (Some (KEY_MAP ! r ! c), drive @ release)
      | None \<Rightarrow> (let (k, es) = scan_rows pressed rs in (k, drive @ release @ es)))"

definition scan_raw :: "(nat \<Rightarrow> nat \<Rightarrow> bool) \<Rightarrow> char option \<times> effect list" where
  \<comment> \<open>\<open>None\<close> is the result 0\<close>
  "scan_raw pressed = scan_rows pressed [0..<KEYPAD_ROWS]"

record keypad =
  last_raw :: "char option"
  last_stable :: "char option"
  stable_at :: u64

definition keypad_boot :: keypad where
  "keypad_boot = \<lparr>last_raw = None, last_stable = None, stable_at = 0\<rparr>"

definition keypad_get_key :: "char option \<Rightarrow> u64 \<Rightarrow> keypad \<Rightarrow> char option \<times> keypad" where
  \<comment> \<open>the raw reading and the time of the call\<close>
  "keypad_get_key raw now s =
     (if raw \<noteq> last_raw s
      then (None, s\<lparr>last_raw := raw, stable_at := now + of_nat (KEYPAD_DEBOUNCE_MS * 1000)\<rparr>)
      else if now < stable_at s then (None, s)
      else if raw \<noteq> None \<and> raw \<noteq> last_stable s then (raw, s\<lparr>last_stable := raw\<rparr>)
      else if raw = None then (None, s\<lparr>last_stable := None\<rparr>)
      else (None, s))"

fun keys_of :: "(char option \<times> u64) list \<Rightarrow> keypad \<Rightarrow> (char \<times> u64) list \<times> keypad" where
  \<comment> \<open>the keys reported over successive calls, each with the time of the call that reports it\<close>
  "keys_of [] s = ([], s)"
| "keys_of ((raw, now) # rest) s =
     (let (k, s) = keypad_get_key raw now s; (ks, s) = keys_of rest s
      in (case k of None \<Rightarrow> ks | Some c \<Rightarrow> (c, now) # ks, s))"

section \<open>Scanning\<close>

lemma find_upt:
  "List.find P [0..<n] = Some c \<longleftrightarrow> c < n \<and> P c \<and> (\<forall>c' < c. \<not> P c')"
  "List.find P [0..<n] = None \<longleftrightarrow> (\<forall>c < n. \<not> P c)"
  by (auto simp: find_Some_iff find_None_iff)

fun rows_low :: "nat set \<Rightarrow> effect list \<Rightarrow> nat set list" where
  \<comment> \<open>which row pins are driven low after each effect\<close>
  "rows_low S [] = []"
| "rows_low S (GpioPut p True # es) = (S - {p}) # rows_low (S - {p}) es"
| "rows_low S (GpioPut p False # es) = insert p S # rows_low (insert p S) es"
| "rows_low S (_ # es) = S # rows_low S es"

lemma scan_rows_none:
  "\<forall>r \<in> set rs. List.find (pressed r) [0..<KEYPAD_COLS] = None \<Longrightarrow> fst (scan_rows pressed rs) = None"
  by (induction rs) (auto split: prod.splits)

lemma scan_rows_some:
  assumes "\<forall>r' \<in> set rs. List.find (pressed r') [0..<KEYPAD_COLS] = None"
    and "List.find (pressed r) [0..<KEYPAD_COLS] = Some c"
  shows "fst (scan_rows pressed (rs @ r # rest)) = Some (KEY_MAP ! r ! c)"
  using assms by (induction rs) (auto split: prod.splits)

lemma rows_low_scan:
  "list_all (\<lambda>S. S = {} \<or> is_singleton S) (rows_low {} (snd (scan_rows pressed rs))) \<and>
   (rs \<noteq> [] \<longrightarrow> last (rows_low {} (snd (scan_rows pressed rs))) = {})"
proof (induction rs)
  case (Cons r rs)
  obtain k es where rest: "scan_rows pressed rs = (k, es)"
    by (cases "scan_rows pressed rs")
  show ?case
  proof (cases "List.find (pressed r) [0..<KEYPAD_COLS]")
    case None
    have snd: "snd (scan_rows pressed (r # rs)) =
        GpioPut (KEYPAD_ROW_BASE + r) False # SleepUs 10 # GpioPut (KEYPAD_ROW_BASE + r) True # es"
      by (simp add: None rest)
    show ?thesis
      unfolding snd using Cons rest by (cases "rs = []") (simp_all add: is_singleton_def)
  next
    case (Some c)
    have snd: "snd (scan_rows pressed (r # rs)) =
        [GpioPut (KEYPAD_ROW_BASE + r) False, SleepUs 10, GpioPut (KEYPAD_ROW_BASE + r) True]"
      by (simp add: Some)
    show ?thesis
      unfolding snd by (simp add: is_singleton_def)
  qed
qed simp

text \<open>A scan reports nothing exactly when no key is pressed, otherwise the label of the
  first pressed key in row-major order; at every moment of it at most one row is driven low,
  and at its end none is.\<close>

theorem scan_raw_first:
  "(case fst (scan_raw pressed) of
      None \<Rightarrow> \<forall>r < 4. \<forall>c < 4. \<not> pressed r c
    | Some k \<Rightarrow> \<exists>r < 4. \<exists>c < 4. pressed r c \<and> k = KEY_MAP ! r ! c
        \<and> (\<forall>r' < r. \<forall>c' < 4. \<not> pressed r' c') \<and> (\<forall>c' < c. \<not> pressed r c'))
   \<and> list_all (\<lambda>S. S = {} \<or> is_singleton S) (rows_low {} (snd (scan_raw pressed)))
   \<and> last (rows_low {} (snd (scan_raw pressed))) = {}"
proof -
  let ?P = "\<lambda>r. \<exists>c < 4. pressed r c" and ?f = "\<lambda>r. List.find (pressed r) [0..<KEYPAD_COLS]"
  have none: "?f r = None \<longleftrightarrow> \<not> ?P r" for r
    by (simp add: find_upt KEYPAD_COLS_def)
  have "case fst (scan_raw pressed) of
      None \<Rightarrow> \<forall>r < 4. \<forall>c < 4. \<not> pressed r c
    | Some k \<Rightarrow> \<exists>r < 4. \<exists>c < 4. pressed r c \<and> k = KEY_MAP ! r ! c
        \<and> (\<forall>r' < r. \<forall>c' < 4. \<not> pressed r' c') \<and> (\<forall>c' < c. \<not> pressed r c')"
  proof (cases "List.find ?P [0..<4]")
    case None
    then have quiet: "\<forall>r < 4. \<not> ?P r"
      unfolding find_upt .
    then have "fst (scan_raw pressed) = None"
      unfolding scan_raw_def by (intro scan_rows_none) (simp add: none KEYPAD_ROWS_def)
    then show ?thesis
      using quiet by simp
  next
    case (Some r)
    then have r: "r < 4" "?P r" and before: "\<forall>r' < r. \<not> ?P r'"
      unfolding find_upt by blast+
    from r(2) obtain c where c: "?f r = Some c"
      using none by (cases "?f r") auto
    then have pc: "c < 4" "pressed r c" "\<forall>c' < c. \<not> pressed r c'"
      unfolding find_upt KEYPAD_COLS_def by blast+
    have "[0..<KEYPAD_ROWS] = [0..<r] @ r # [Suc r..<4]"
      unfolding KEYPAD_ROWS_def using upt_add_eq_append [of 0 r "4 - r"] upt_conv_Cons [of r 4] r(1)
      by (simp del: upt_Suc upt_rec_numeral)
    then have "fst (scan_raw pressed) = Some (KEY_MAP ! r ! c)"
      unfolding scan_raw_def using before by (simp add: scan_rows_some [of "[0..<r]" pressed r c, OF _ c] none)
    then show ?thesis
      using r(1) pc before by auto
  qed
  then show ?thesis
    using rows_low_scan [of pressed "[0..<KEYPAD_ROWS]"] by (simp add: scan_raw_def KEYPAD_ROWS_def)
qed

theorem scan_raw_first_witness:
  "fst (scan_raw (\<lambda>r c. r = 1 \<and> c = 2)) = Some (CHR ''6'')"
proof -
  let ?p = "\<lambda>r c. r = (1::nat) \<and> c = (2::nat)"
  note s = scan_raw_first [of ?p, THEN conjunct1]
  have "?p 1 2" "(1::nat) < 4" "(2::nat) < 4"
    by simp_all
  then have "\<not> (\<forall>r < 4. \<forall>c < 4. \<not> ?p r c)"
    by blast
  then obtain k where k: "fst (scan_raw ?p) = Some k"
    using s by (cases "fst (scan_raw ?p)") (simp_all only: option.case)
  have "\<exists>r < 4. \<exists>c < 4. ?p r c \<and> k = KEY_MAP ! r ! c"
    using s unfolding k option.case by blast
  then show ?thesis
    using k by (auto simp: KEY_MAP_def)
qed

section \<open>Debouncing\<close>

text \<open>The calls of a keypad fall into runs of the same reading: a key, or no key, first seen at
  \<open>t0\<close> and seen again at \<open>ts\<close>.\<close>

type_synonym key_run = "char option \<times> u64 \<times> u64 list"

fun readings :: "key_run \<Rightarrow> (char option \<times> u64) list" where
  "readings (raw, t0, ts) = map (Pair raw) (t0 # ts)"

fun settled_at :: "key_run \<Rightarrow> u64 option" where
  \<comment> \<open>the first call that finds the reading twenty milliseconds old, if the run lasts as long\<close>
  "settled_at (raw, t0, ts) = List.find (\<lambda>t. t0 + 20000 \<le> t) ts"

fun presses :: "char option \<Rightarrow> key_run list \<Rightarrow> (char \<times> u64) list" where
  \<comment> \<open>what was pressed: a run that settles on a key other than the one that is down, a settled
    release having let that one go\<close>
  "presses down [] = []"
| "presses down ((raw, t0, ts) # runs) =
     (case settled_at (raw, t0, ts) of
        None \<Rightarrow> presses down runs
      | Some t \<Rightarrow>
          (case raw of
             None \<Rightarrow> presses None runs
           | Some k \<Rightarrow> (if down = Some k then [] else [(k, t)]) @ presses (Some k) runs))"

fun alternating :: "char option \<Rightarrow> key_run list \<Rightarrow> bool" where
  \<comment> \<open>each run is of another reading than the one before\<close>
  "alternating v [] = True"
| "alternating v ((raw, t0, ts) # runs) \<longleftrightarrow> raw \<noteq> v \<and> alternating raw runs"

lemma keys_of_append:
  "keys_of (xs @ ys) s =
     (fst (keys_of xs s) @ fst (keys_of ys (snd (keys_of xs s))), snd (keys_of ys (snd (keys_of xs s))))"
  by (induction xs s rule: keys_of.induct) (simp_all split: prod.split option.split)

lemma held_quiet:
  assumes "last_raw s = last_stable s"
  shows "keys_of (map (Pair (last_raw s)) ts) s = ([], s)"
proof -
  have "keypad_get_key (last_raw s) t s = (None, s)" for t
    using assms by (simp add: keypad_get_key_def)
  then show ?thesis
    by (induction ts) simp_all
qed

lemma held_run:
  assumes "last_raw s = raw"
  shows "fst (keys_of (map (Pair raw) ts) s) =
      (case (List.find (\<lambda>t. stable_at s \<le> t) ts, raw) of
         (Some t, Some k) \<Rightarrow> if last_stable s = Some k then [] else [(k, t)]
       | _ \<Rightarrow> [])
    \<and> last_raw (snd (keys_of (map (Pair raw) ts) s)) = raw
    \<and> last_stable (snd (keys_of (map (Pair raw) ts) s)) =
      (if List.find (\<lambda>t. stable_at s \<le> t) ts = None then last_stable s else raw)"
  using assms
proof (induction ts)
  case (Cons t ts)
  show ?case
  proof (cases "t < stable_at s")
    case True
    then have "keypad_get_key raw t s = (None, s)"
      using Cons.prems by (simp add: keypad_get_key_def)
    then show ?thesis
      using Cons True by (simp add: not_le [symmetric] split: prod.split)
  next
    case False
    let ?s = "s\<lparr>last_stable := raw\<rparr>"
    have g: "keypad_get_key raw t s = (if last_stable s = raw then None else raw, ?s)"
      using Cons.prems False by (cases raw) (auto simp: keypad_get_key_def)
    have "keys_of (map (Pair raw) ts) ?s = ([], ?s)"
      using held_quiet [of ?s ts] Cons.prems by simp
    then show ?thesis
      using False g Cons.prems by (auto split: prod.split option.split)
  qed
qed (simp split: option.split)

lemma key_run:
  fixes t0 :: u64 and ts :: "u64 list"
  assumes "last_raw s \<noteq> raw"
  defines "r \<equiv> keys_of (readings (raw, t0, ts)) s"
  shows "fst r = (case (settled_at (raw, t0, ts), raw) of
         (Some t, Some k) \<Rightarrow> if last_stable s = Some k then [] else [(k, t)]
       | _ \<Rightarrow> [])"
    and "last_raw (snd r) = raw"
    and "last_stable (snd r) = (if settled_at (raw, t0, ts) = None then last_stable s else raw)"
proof -
  let ?s = "s\<lparr>last_raw := raw, stable_at := t0 + 20000\<rparr>"
  have "keypad_get_key raw t0 s = (None, ?s)"
    using assms by (auto simp: keypad_get_key_def KEYPAD_DEBOUNCE_MS_def)
  then have "r = keys_of (map (Pair raw) ts) ?s"
    by (simp add: r_def split: prod.split)
  then show "fst r = (case (settled_at (raw, t0, ts), raw) of
         (Some t, Some k) \<Rightarrow> if last_stable s = Some k then [] else [(k, t)]
       | _ \<Rightarrow> [])" "last_raw (snd r) = raw"
    "last_stable (snd r) = (if settled_at (raw, t0, ts) = None then last_stable s else raw)"
    using held_run [of ?s raw ts] by (simp_all split: option.split)
qed

lemma keys_of_runs:
  "alternating (last_raw s) runs \<Longrightarrow>
     fst (keys_of (concat (map readings runs)) s) = presses (last_stable s) runs"
proof (induction runs arbitrary: s)
  case (Cons run runs)
  obtain raw t0 ts where run: "run = (raw, t0, ts)"
    by (cases run)
  let ?s = "snd (keys_of (readings run) s)"
  have new: "last_raw s \<noteq> raw" "alternating raw runs"
    using Cons.prems run by auto
  note k = key_run [OF new(1), of t0 ts, folded run]
  have "fst (keys_of (concat (map readings runs)) ?s) = presses (last_stable ?s) runs"
    using Cons.IH [of ?s] k(2) new(2) by simp
  then show ?case
    unfolding list.map concat.simps keys_of_append fst_conv k(1) k(3)
    by (simp add: run split: option.split)
qed simp

text \<open>Every sequence of calls is made of runs, after those that still find the last reading.\<close>

lemma calls_are_runs:
  "\<exists>idle runs. calls = map (Pair v) idle @ concat (map readings runs) \<and> alternating v runs"
proof (induction calls arbitrary: v)
  case Nil
  show ?case
    by (intro exI [of _ "[]"]) simp
next
  case (Cons c calls)
  obtain raw t where c: "c = (raw, t)"
    by fastforce
  obtain idle runs where r: "calls = map (Pair raw) idle @ concat (map readings runs)" "alternating raw runs"
    using Cons.IH by blast
  show ?case
  proof (cases "raw = v")
    case True
    then show ?thesis
      using r c by (intro exI [of _ "t # idle"] exI [of _ runs]) simp
  next
    case False
    then show ?thesis
      using r c by (intro exI [of _ "[]"] exI [of _ "(raw, t, idle) # runs"]) simp
  qed
qed

text \<open>C40: over all the calls made from a settled keypad, as it is at boot, the keys reported
  are exactly the presses: a key is reported once for each time it goes down for twenty
  milliseconds, at the first call that finds it so old, however long it is held; it is
  reported again only after a release, or another key, that lasted as long; a contact or a
  release shorter than that neither reports a key nor lets one be reported again.\<close>

theorem debounce_once:
  assumes "last_raw s = last_stable s" and "alternating (last_raw s) runs"
  shows "fst (keys_of (map (Pair (last_raw s)) idle @ concat (map readings runs)) s) = presses (last_stable s) runs"
  using held_quiet [OF assms(1)] keys_of_runs [OF assms(2)] by (simp add: keys_of_append)

text \<open>A press that bounces, a release glitch in the middle of it, its release, and the same key
  again.\<close>

theorem debounce_once_witness:
  "fst (keys_of
     ([(None, 50), (Some (CHR ''5''), 100), (None, 2100), (Some (CHR ''5''), 4100), (Some (CHR ''5''), 14100),
       (Some (CHR ''5''), 24100), (Some (CHR ''5''), 34100), (None, 40000), (Some (CHR ''5''), 45000),
       (Some (CHR ''5''), 70000), (None, 80000), (None, 100000), (Some (CHR ''5''), 110000),
       (Some (CHR ''5''), 130000)]) keypad_boot)
   = [(CHR ''5'', 24100), (CHR ''5'', 130000)]"
  using debounce_once [of keypad_boot
      "[(Some (CHR ''5''), 100, []), (None, 2100, []), (Some (CHR ''5''), 4100, [14100, 24100, 34100]),
        (None, 40000, []), (Some (CHR ''5''), 45000, [70000]), (None, 80000, [100000]),
        (Some (CHR ''5''), 110000, [130000])]" "[50]"]
  by (simp add: keypad_boot_def)

end
