(* ===== verification/Core1.thy ===== *)
theory Core1 imports Door Keypad
begin

text \<open>
  \<open>core1.c\<close>: the keypad core. Its static state is the entry buffer, the sequence counter of
  \<open>process_input\<close> and the keypad driver's state; its loop body is \<open>main1_step\<close>. What the
  loop body meets is an argument: the column readings and the time of the scan, and the
  values of \<open>response_seq\<close> and \<open>response_granted\<close> that the wait for the verdict polls, one
  pair for each iteration that finds the deadline ahead and one for the iteration after it.
\<close>

definition FIFO_VERIFY_TIMEOUT_MS :: nat where
  "FIFO_VERIFY_TIMEOUT_MS = 2000"

definition INPUT_MIN_LEN :: nat where
  "INPUT_MIN_LEN = 7"

definition INPUT_MAX_LEN :: nat where
  "INPUT_MAX_LEN = 9"

definition TOTP_CODE_LEN :: nat where
  "TOTP_CODE_LEN = 6"

record entry =
  input_buf :: string
  input_len :: nat
  seq_counter :: u32  \<comment> \<open>the \<open>next_seq\<close> of \<open>process_input\<close>\<close>

definition entry_boot :: entry where
  "entry_boot = \<lparr>input_buf = replicate (INPUT_MAX_LEN + 1) NUL, input_len = 0, seq_counter = 0\<rparr>"

definition input_clear :: "entry \<Rightarrow> entry" where
  "input_clear s = s\<lparr>input_buf := replicate (INPUT_MAX_LEN + 1) NUL, input_len := 0\<rparr>"

section \<open>Asking for a verdict\<close>

definition parse_id :: "entry \<Rightarrow> u16" where
  "parse_id s =
     (let id_len = input_len s - TOTP_CODE_LEN;
          id_str = strncpy_c (replicate 4 NUL) (input_buf s) id_len
      in word_of_int (atoi (cstr id_str)))"

definition parse_code :: "entry \<Rightarrow> u32" where
  "parse_code s =
     (let id_len = input_len s - TOTP_CODE_LEN;
          code_str = strncpy_c (replicate 7 NUL) (drop id_len (input_buf s)) TOTP_CODE_LEN
      in word_of_int (atoi (cstr code_str)))"

definition verdict_effects :: "bool \<Rightarrow> effect list" where
  "verdict_effects granted =
     (if granted then buzzer_play_success @ buzzer_play_door_open @ buzzer_on @ latch_open @ buzzer_off
      else buzzer_play_fail)"

fun wait_verdict :: "u32 \<Rightarrow> (u32 \<times> bool) list \<Rightarrow> u32 \<times> bool \<Rightarrow> effect list" where
  \<comment> \<open>the poll loop; the pairs are \<open>response_seq\<close> and \<open>response_granted\<close> as read\<close>
  "wait_verdict my_seq [] (sq, granted) =
     WatchdogUpdate # (if sq = my_seq then verdict_effects granted
                       else Out (''[core1] verify timeout'' @ CRLF) # buzzer_play_fail)"
| "wait_verdict my_seq ((sq, granted) # polls) last_poll =
     WatchdogUpdate # (if sq = my_seq then verdict_effects granted
                       else SleepMs 5 # wait_verdict my_seq polls last_poll)"

definition process_input ::
  "(u32 \<times> bool) list \<Rightarrow> u32 \<times> bool \<Rightarrow> entry \<times> mailbox \<Rightarrow> effect list \<times> entry \<times> mailbox" where
  "process_input polls last_poll e =
     (let (s, m) = e in
      if input_len s < INPUT_MIN_LEN \<or> INPUT_MAX_LEN < input_len s
      then (buzzer_play_fail, input_clear s, m)
      else let i = parse_id s; code = parse_code s;
               s = s\<lparr>input_buf := replicate (INPUT_MAX_LEN + 1) NUL, input_len := 0\<rparr>;
               my_seq = seq_counter s + 1;
               s = s\<lparr>seq_counter := my_seq\<rparr>;
               m = m\<lparr>request_id := i, request_code := code\<rparr>;
               m = m\<lparr>request_seq := my_seq\<rparr>
           in (wait_verdict my_seq polls last_poll, s, m))"

section \<open>The loop\<close>

definition handle_key ::
  "(u32 \<times> bool) list \<Rightarrow> u32 \<times> bool \<Rightarrow> char \<Rightarrow> entry \<times> mailbox \<Rightarrow> effect list \<times> entry \<times> mailbox" where
  \<comment> \<open>the switch of \<open>main1\<close>\<close>
  "handle_key polls last_poll key e =
     (let (s, m) = e in
      if key = CHR ''A'' then (buzzer_play_doorbell, s, m)
      else if key = CHR ''*'' then (buzzer_beep_short, input_clear s, m)
      else if key = CHR ''#'' then process_input polls last_poll (s, m)
      else if key \<in> set ''0123456789''
      then (if input_len s < INPUT_MAX_LEN
            then (buzzer_beep_short,
                  s\<lparr>input_buf := (input_buf s)[input_len s := key], input_len := input_len s + 1\<rparr>, m)
            else ([], s, m))
      else ([], s, m))"

record scan_input =
  columns :: "nat \<Rightarrow> nat \<Rightarrow> bool"
  scan_time :: u64
  verdict_polls :: "(u32 \<times> bool) list"
  verdict_last :: "u32 \<times> bool"

record keypad_core =
  pad :: keypad
  entry :: entry
  box :: mailbox

definition main1_step :: "scan_input \<Rightarrow> keypad_core \<Rightarrow> effect list \<times> keypad_core" where
  \<comment> \<open>one turn of the loop\<close>
  "main1_step x s =
     (let (raw, es) = scan_raw (columns x);
          (key, pd) = keypad_get_key raw (scan_time x) (pad s);
          s = s\<lparr>pad := pd\<rparr>;
          (fs, e, m) = (case key of
             None \<Rightarrow> ([], entry s, box s)
           | Some k \<Rightarrow> handle_key (verdict_polls x) (verdict_last x) k (entry s, box s))
      in (es @ fs @ [SleepMs 5, WatchdogUpdate], s\<lparr>entry := e, box := m\<rparr>))"

fun main1_run :: "scan_input list \<Rightarrow> keypad_core \<Rightarrow> effect list \<times> keypad_core" where
  "main1_run [] s = ([], s)"
| "main1_run (x # xs) s =
     (let (es, s) = main1_step x s; (fs, s) = main1_run xs s in (es @ fs, s))"

section \<open>The entry buffer\<close>

definition digits :: "entry \<Rightarrow> string" where
  \<comment> \<open>what has been typed\<close>
  "digits s = take (input_len s) (input_buf s)"

definition entry_ok :: "entry \<Rightarrow> bool" where
  "entry_ok s \<longleftrightarrow> input_len s \<le> 9 \<and> input_buf s = digits s @ replicate (10 - input_len s) NUL \<and>
     list_all is_digit (digits s)"

fun typed :: "string \<Rightarrow> char \<Rightarrow> string" where
  \<comment> \<open>the digits after a key, on the digits before it\<close>
  "typed ds k =
     (if k = CHR ''*'' \<or> k = CHR ''#'' then []
      else if is_digit k \<and> length ds < 9 then ds @ [k] else ds)"

fun asked :: "string \<Rightarrow> char \<Rightarrow> (nat \<times> nat) option" where
  \<comment> \<open>the identifier and the code a key asks to verify: the last six digits are the code\<close>
  "asked ds k =
     (if k = CHR ''#'' \<and> 7 \<le> length ds
      then Some (dec_val (take (length ds - 6) ds), dec_val (drop (length ds - 6) ds)) else None)"

lemma dec_val_less: "list_all is_digit ds \<Longrightarrow> dec_val ds < 10 ^ length ds"
proof (induction ds rule: rev_induct)
  case (snoc c ds)
  have "char_val c \<le> 9"
    using snoc.prems by (auto simp: is_digit_def char_val_def)
  then show ?case
    using snoc by simp
qed simp

lemma entry_okD:
  assumes "entry_ok s"
  shows "input_len s \<le> 9" and "input_buf s = digits s @ replicate (10 - input_len s) NUL"
    and "list_all is_digit (digits s)" and "length (digits s) = input_len s"
proof -
  show l: "input_len s \<le> 9" and b: "input_buf s = digits s @ replicate (10 - input_len s) NUL"
    and "list_all is_digit (digits s)"
    using assms by (simp_all add: entry_ok_def)
  have "length (input_buf s) = length (digits s) + (10 - input_len s)"
    using arg_cong [OF b, of length] by simp
  moreover have "length (digits s) = min (length (input_buf s)) (input_len s)"
    by (simp add: digits_def)
  ultimately show "length (digits s) = input_len s"
    using l by linarith
qed

lemma entry_okI:
  assumes "input_buf s = ds @ replicate (10 - length ds) NUL" and "input_len s = length ds"
    and "length ds \<le> 9" and "list_all is_digit ds"
  shows "entry_ok s" and "digits s = ds"
  using assms by (simp_all add: entry_ok_def digits_def)

lemma entry_cleared: "entry_ok (input_clear s)" "digits (input_clear s) = []"
  by (auto intro!: entry_okI [of _ "[]"] simp: input_clear_def INPUT_MAX_LEN_def)

lemma entry_boot_ok: "entry_ok entry_boot" "digits entry_boot = []"
  by (auto intro!: entry_okI [of _ "[]"] simp: entry_boot_def INPUT_MAX_LEN_def)

lemma digit_keys: "k \<in> set ''0123456789'' \<longleftrightarrow> is_digit k"
proof
  assume "is_digit k"
  then have "(of_char k :: nat) \<in> set [48..<58]"
    by (auto simp: is_digit_def simp del: upt_rec_numeral)
  moreover have "[48..<58] = [48, 49, 50, 51, 52, 53, 54, 55, 56, 57::nat]"
    by (simp add: upt_rec)
  ultimately have "(of_char k :: nat) \<in> {48, 49, 50, 51, 52, 53, 54, 55, 56, 57}"
    by simp
  moreover have "k = char_of (of_char k :: nat)"
    by simp
  ultimately have "k \<in> char_of ` {48, 49, 50, 51, 52, 53, 54, 55, 56, 57::nat}"
    by blast
  then show "k \<in> set ''0123456789''"
    by (simp add: char_of_def bit_0)
qed (auto simp: is_digit_def)

lemma no_NUL_digits: "list_all is_digit ds \<Longrightarrow> NUL \<notin> set ds"
  by (auto simp: list_all_iff is_digit_def)

lemma cstr_digits_buffer:
  assumes "list_all is_digit ds" and "length ds < n"
  shows "cstr (strncpy_c (replicate n NUL) (ds @ rest) (length ds)) = ds"
proof -
  have nn: "NUL \<notin> set ds"
    by (rule no_NUL_digits [OF assms(1)])
  have "cstr (ds @ rest) = ds @ cstr rest"
    using nn by (induction ds) (auto simp: cstr_def)
  moreover have "drop (length ds) (replicate n NUL) = NUL # replicate (n - length ds - 1) NUL"
    using assms(2) by (cases "n - length ds") auto
  ultimately show ?thesis
    unfolding strncpy_c_def using cstr_append_NUL [OF nn] by simp
qed

lemma parse_entry:
  assumes "entry_ok s" and "7 \<le> input_len s"
  shows "parse_id s = of_nat (dec_val (take (input_len s - 6) (digits s)))"
    and "parse_code s = of_nat (dec_val (drop (input_len s - 6) (digits s)))"
proof -
  note ok = entry_okD [OF assms(1)]
  let ?i = "take (input_len s - 6) (digits s)" and ?c = "drop (input_len s - 6) (digits s)"
  have split: "digits s = ?i @ ?c"
    by simp
  have di: "list_all is_digit ?i" "length ?i = input_len s - 6" "length ?i < 4"
    and dc: "list_all is_digit ?c" "length ?c = 6"
    using ok(1,3,4) assms(2) by (auto simp: list_all_iff dest: in_set_takeD in_set_dropD)
  have "dec_val ?i < 10 ^ 3" "dec_val ?c < 10 ^ 6"
    using dec_val_less [OF di(1)] dec_val_less [OF dc(1)] di(3) dc(2)
      power_increasing [of "length ?i" 3 "10::nat"] by simp_all
  then have at: "atoi ?i = int (dec_val ?i)" "atoi ?c = int (dec_val ?c)"
    using di(1) dc(1) by (auto intro!: atoi_digits simp: list_all_iff)
  have bi: "input_buf s = ?i @ ?c @ replicate (10 - input_len s) NUL"
    using ok(2) split by simp
  have "cstr (strncpy_c (replicate 4 NUL) (input_buf s) (length ?i)) = ?i"
    unfolding bi by (rule cstr_digits_buffer [OF di(1,3)])
  then show "parse_id s = of_nat (dec_val ?i)"
    using di(2) at(1) by (simp add: parse_id_def TOTP_CODE_LEN_def Let_def)
  have db: "drop (input_len s - 6) (input_buf s) = ?c @ replicate (10 - input_len s) NUL"
    unfolding bi using di(2) by simp
  have "cstr (strncpy_c (replicate 7 NUL) (drop (input_len s - 6) (input_buf s)) (length ?c)) = ?c"
    unfolding db by (rule cstr_digits_buffer) (use dc in simp_all)
  then show "parse_code s = of_nat (dec_val ?c)"
    using dc(2) at(2) by (simp add: parse_code_def TOTP_CODE_LEN_def Let_def)
qed

section \<open>What a key does\<close>

definition request :: "u32 \<Rightarrow> nat \<times> nat \<Rightarrow> mailbox \<Rightarrow> mailbox" where
  "request n q m = m\<lparr>request_id := of_nat (fst q), request_code := of_nat (snd q), request_seq := n\<rparr>"

definition key_answered ::
  "(u32 \<times> bool) list \<Rightarrow> u32 \<times> bool \<Rightarrow> char \<Rightarrow> entry \<times> mailbox \<Rightarrow> effect list \<times> entry \<times> mailbox \<Rightarrow> bool" where
  \<comment> \<open>what a key does, in terms of the digits typed so far\<close>
  "key_answered polls lst k e r \<longleftrightarrow> (let (s, m) = e; (es, s', m') = r in
     entry_ok s' \<and> digits s' = typed (digits s) k \<and>
     seq_counter s' = (if asked (digits s) k = None then seq_counter s else seq_counter s + 1) \<and>
     m' = (case asked (digits s) k of None \<Rightarrow> m | Some q \<Rightarrow> request (seq_counter s + 1) q m) \<and>
     (unlocks es \<longleftrightarrow> asked (digits s) k \<noteq> None \<and> unlocks (wait_verdict (seq_counter s + 1) polls lst)))"

lemma hash_answered:
  assumes ok: "entry_ok s"
  shows "key_answered polls lst (CHR ''#'') (s, m) (handle_key polls lst (CHR ''#'') (s, m))"
proof (cases "7 \<le> input_len s")
  case True
  have "entry_ok (s\<lparr>input_buf := replicate 10 NUL, input_len := 0, seq_counter := n\<rparr>)"
    "digits (s\<lparr>input_buf := replicate 10 NUL, input_len := 0, seq_counter := n\<rparr>) = []" for n
    by (auto intro!: entry_okI [of _ "[]"])
  then show ?thesis
    using True entry_okD(1,4) [OF ok]
    by (auto simp: key_answered_def handle_key_def process_input_def INPUT_MIN_LEN_def INPUT_MAX_LEN_def Let_def
        request_def parse_entry [OF ok])
next
  case False
  then show ?thesis
    using entry_okD(4) [OF ok] entry_cleared
    by (auto simp: key_answered_def handle_key_def process_input_def INPUT_MIN_LEN_def input_clear_def)
qed

lemma digit_answered:
  assumes ok: "entry_ok s" and k: "is_digit k" "k \<noteq> CHR ''*''" "k \<noteq> CHR ''#''"
  shows "key_answered polls lst k (s, m) (handle_key polls lst k (s, m))"
proof -
  note o = entry_okD [OF ok]
  have a: "k \<noteq> CHR ''A''" "k \<in> set ''0123456789''"
    using k by (auto simp: digit_keys simp del: list.set) (auto simp: is_digit_def)
  show ?thesis
  proof (cases "input_len s < 9")
    case True
    let ?s = "s\<lparr>input_buf := (input_buf s)[input_len s := k], input_len := input_len s + 1\<rparr>"
    have "(input_buf s)[input_len s := k] = digits s @ (replicate (10 - input_len s) NUL)[0 := k]"
      by (subst o(2)) (simp add: list_update_append o(4))
    also have "(replicate (10 - input_len s) NUL)[0 := k] = k # replicate (9 - input_len s) NUL"
      using True by (cases "10 - input_len s") auto
    finally have "input_buf ?s = (digits s @ [k]) @ replicate (10 - length (digits s @ [k])) NUL"
      using o(4) by simp
    then have "entry_ok ?s" "digits ?s = digits s @ [k]"
      using True o(3,4) k(1) by (intro entry_okI [of ?s "digits s @ [k]"]; simp)+
    moreover have "handle_key polls lst k (s, m) = (buzzer_beep_short, ?s, m)"
      using k a True by (auto simp: handle_key_def INPUT_MAX_LEN_def)
    ultimately show ?thesis
      using k True o(4) by (simp add: key_answered_def)
  next
    case False
    then have "handle_key polls lst k (s, m) = ([], s, m)"
      using k a by (auto simp: handle_key_def INPUT_MAX_LEN_def)
    then show ?thesis
      using k False o(4) ok by (simp add: key_answered_def)
  qed
qed

lemma other_answered:
  assumes "entry_ok s" and k: "\<not> is_digit k" "k \<noteq> CHR ''*''" "k \<noteq> CHR ''#''"
  shows "key_answered polls lst k (s, m) (handle_key polls lst k (s, m))"
proof -
  have "k \<notin> set ''0123456789''"
    using k by (simp only: digit_keys not_False_eq_True)
  then have "handle_key polls lst k (s, m) = (if k = CHR ''A'' then buzzer_play_doorbell else [], s, m)"
    using k by (auto simp: handle_key_def)
  then show ?thesis
    using k assms(1) by (simp add: key_answered_def)
qed

lemma handle_key_answered:
  assumes "entry_ok s"
  shows "key_answered polls lst k (s, m) (handle_key polls lst k (s, m))"
proof -
  consider (star) "k = CHR ''*''" | (hash) "k = CHR ''#''" | (digit) "is_digit k" "k \<noteq> CHR ''*''" "k \<noteq> CHR ''#''"
    | (other) "\<not> is_digit k" "k \<noteq> CHR ''*''" "k \<noteq> CHR ''#''"
    by blast
  then show ?thesis
  proof cases
    case star
    then show ?thesis
      using entry_cleared by (auto simp: key_answered_def handle_key_def input_clear_def)
  qed (use assms hash_answered digit_answered other_answered in blast)+
qed

lemma handle_key_spec:
  assumes ok: "entry_ok s" and h: "handle_key polls lst k (s, m) = (es, s', m')"
  shows "entry_ok s'" and "digits s' = typed (digits s) k"
    and "seq_counter s' = (if asked (digits s) k = None then seq_counter s else seq_counter s + 1)"
    and "m' = (case asked (digits s) k of None \<Rightarrow> m | Some q \<Rightarrow> request (seq_counter s + 1) q m)"
    and "unlocks es \<longleftrightarrow> asked (digits s) k \<noteq> None \<and> unlocks (wait_verdict (seq_counter s + 1) polls lst)"
  using handle_key_answered [OF ok, of polls lst k m] by (simp_all add: h key_answered_def)

lemma wait_unlocks:
  "unlocks (wait_verdict n polls lst) \<longleftrightarrow>
     (case List.find (\<lambda>p. fst p = n) (polls @ [lst]) of None \<Rightarrow> False | Some p \<Rightarrow> snd p)"
proof (induction n polls lst rule: wait_verdict.induct)
  case (1 n q g)
  then show ?case
    by (auto simp: verdict_effects_def)
next
  case (2 n q g polls lst)
  then show ?case
    by (auto simp: verdict_effects_def)
qed

lemma scan_keeps_locked: "\<forall>r \<in> set rs. r < 4 \<Longrightarrow> \<not> unlocks (snd (scan_rows pressed rs))"
proof (induction rs)
  case (Cons r rs)
  obtain k es where "scan_rows pressed rs = (k, es)"
    by (cases "scan_rows pressed rs")
  with Cons show ?case
    by (cases "List.find (pressed r) [0..<KEYPAD_COLS]") (simp_all add: KEYPAD_ROW_BASE_def LATCH_PIN_def)
qed simp

definition pressed_key :: "scan_input \<Rightarrow> keypad_core \<Rightarrow> char option" where
  \<comment> \<open>the debounced key of a turn of the loop\<close>
  "pressed_key x s = fst (keypad_get_key (fst (scan_raw (columns x))) (scan_time x) (pad s))"

definition asked_now :: "scan_input \<Rightarrow> keypad_core \<Rightarrow> (nat \<times> nat) option" where
  "asked_now x s = Option.bind (pressed_key x s) (asked (digits (entry s)))"

lemma main1_step_spec:
  assumes ok: "entry_ok (entry s)"
  shows "entry_ok (entry (snd (main1_step x s)))"
    and "digits (entry (snd (main1_step x s))) =
      (case pressed_key x s of None \<Rightarrow> digits (entry s) | Some k \<Rightarrow> typed (digits (entry s)) k)"
    and "box (snd (main1_step x s)) = (case asked_now x s of None \<Rightarrow> box s
      | Some q \<Rightarrow> request (seq_counter (entry s) + 1) q (box s))"
    and "seq_counter (entry (snd (main1_step x s))) =
      (if asked_now x s = None then seq_counter (entry s) else seq_counter (entry s) + 1)"
    and "unlocks (fst (main1_step x s)) \<longleftrightarrow> asked_now x s \<noteq> None \<and>
      unlocks (wait_verdict (seq_counter (entry s) + 1) (verdict_polls x) (verdict_last x))"
proof -
  obtain raw es where r: "scan_raw (columns x) = (raw, es)"
    by fastforce
  obtain key pd where k: "keypad_get_key raw (scan_time x) (pad s) = (key, pd)"
    by fastforce
  have pk: "pressed_key x s = key"
    by (simp add: pressed_key_def r k)
  have nl: "\<not> unlocks es"
    using scan_keeps_locked [of "[0..<KEYPAD_ROWS]" "columns x"] r
    by (simp add: scan_raw_def KEYPAD_ROWS_def del: upt_rec_numeral)
  let ?R = "\<lambda>es s'. entry_ok (entry s') \<and> digits (entry s') =
      (case pressed_key x s of None \<Rightarrow> digits (entry s) | Some k \<Rightarrow> typed (digits (entry s)) k) \<and>
    box s' = (case asked_now x s of None \<Rightarrow> box s | Some q \<Rightarrow> request (seq_counter (entry s) + 1) q (box s)) \<and>
    seq_counter (entry s') = (if asked_now x s = None then seq_counter (entry s) else seq_counter (entry s) + 1) \<and>
    (unlocks es \<longleftrightarrow> asked_now x s \<noteq> None \<and>
      unlocks (wait_verdict (seq_counter (entry s) + 1) (verdict_polls x) (verdict_last x)))"
  have "?R (fst (main1_step x s)) (snd (main1_step x s))"
  proof (cases key)
    case None
    then have "main1_step x s = (es @ [SleepMs 5, WatchdogUpdate], s\<lparr>pad := pd, entry := entry s, box := box s\<rparr>)"
      by (simp add: main1_step_def r k)
    then show ?thesis
      using ok nl None by (simp add: pk asked_now_def)
  next
    case (Some c)
    obtain fs e m where h: "handle_key (verdict_polls x) (verdict_last x) c (entry s, box s) = (fs, e, m)"
      by (metis prod_cases3)
    then have "main1_step x s = (es @ fs @ [SleepMs 5, WatchdogUpdate], s\<lparr>pad := pd, entry := e, box := m\<rparr>)"
      using Some by (simp add: main1_step_def r k)
    then show ?thesis
      using handle_key_spec [OF ok h] nl Some by (simp add: pk asked_now_def)
  qed
  then show "entry_ok (entry (snd (main1_step x s)))"
    "digits (entry (snd (main1_step x s))) =
      (case pressed_key x s of None \<Rightarrow> digits (entry s) | Some k \<Rightarrow> typed (digits (entry s)) k)"
    "box (snd (main1_step x s)) = (case asked_now x s of None \<Rightarrow> box s
      | Some q \<Rightarrow> request (seq_counter (entry s) + 1) q (box s))"
    "seq_counter (entry (snd (main1_step x s))) =
      (if asked_now x s = None then seq_counter (entry s) else seq_counter (entry s) + 1)"
    "unlocks (fst (main1_step x s)) \<longleftrightarrow> asked_now x s \<noteq> None \<and>
      unlocks (wait_verdict (seq_counter (entry s) + 1) (verdict_polls x) (verdict_last x))"
    by blast+
qed

interpretation core1m: inv_machine "\<lambda>s x. snd (main1_step x s)" "\<lambda>s. entry_ok (entry s)"
  by unfold_locales (rule main1_step_spec(1))

definition core1_boot :: keypad_core where
  "core1_boot = \<lparr>pad = keypad_boot, entry = entry_boot, box = mailbox_boot\<rparr>"

section \<open>The watchdog\<close>

lemma watchdog_verdict: "\<exists>a \<le> 5800000. watchdog 8000000 0 (verdict_effects g) = Some a"
  by (simp add: verdict_effects_def buzzer_defs latch_open_def LATCH_OPEN_DELAY_def)

lemma watchdog_wait: "\<exists>a \<le> 5800000. watchdog 8000000 b (wait_verdict n polls lst) = Some a"
proof (induction n polls lst arbitrary: b rule: wait_verdict.induct)
  case (1 n q g)
  then show ?case
    using watchdog_verdict [of g] by (simp add: buzzer_defs)
next
  case (2 n q g polls lst)
  then show ?case
    using watchdog_verdict [of g] by simp
qed

lemma watchdog_scan: "a + 10 * length rs < 2000000 \<Longrightarrow>
  \<exists>b \<le> a + 10 * length rs. watchdog 8000000 a (snd (scan_rows pressed rs)) = Some b"
proof (induction rs arbitrary: a)
  case (Cons r rs)
  obtain k es where e: "scan_rows pressed rs = (k, es)"
    by (cases "scan_rows pressed rs")
  show ?case
  proof (cases "List.find (pressed r) [0..<KEYPAD_COLS]")
    case None
    have "\<exists>b \<le> a + 10 + 10 * length rs. watchdog 8000000 (a + 10) es = Some b"
      using Cons.IH [of "a + 10"] Cons.prems e by simp
    then show ?thesis
      using None Cons.prems e by (auto simp: ac_simps)
  next
    case (Some c)
    then show ?thesis
      using Cons.prems by simp
  qed
qed simp

lemma watchdog_key:
  assumes "a \<le> 40"
  shows "\<exists>b \<le> 5900000. watchdog 8000000 a (fst (handle_key polls lst k e)) = Some b"
proof -
  have w: "\<exists>b \<le> 5900000. watchdog 8000000 a (wait_verdict n polls lst) = Some b" for n
    using watchdog_wait [of a n polls lst] by (auto intro: order_trans)
  obtain s m where "e = (s, m)"
    by fastforce
  then show ?thesis
    using assms w by (auto simp: handle_key_def process_input_def Let_def buzzer_defs)
qed

lemma watchdog_step: "watchdog 8000000 0 (fst (main1_step x s)) = Some 0"
proof -
  obtain raw es where r: "scan_raw (columns x) = (raw, es)"
    by fastforce
  obtain a where a: "a \<le> 40" "watchdog 8000000 0 es = Some a"
    using watchdog_scan [of 0 "[0..<KEYPAD_ROWS]" "columns x"] r
    by (auto simp: scan_raw_def KEYPAD_ROWS_def simp del: upt_rec_numeral upt_Suc)
  obtain key pd where k: "keypad_get_key raw (scan_time x) (pad s) = (key, pd)"
    by fastforce
  obtain fs e m where f: "(case key of None \<Rightarrow> ([], entry s, box s)
      | Some k \<Rightarrow> handle_key (verdict_polls x) (verdict_last x) k (entry s, box s)) = (fs, e, m)"
    by (metis prod_cases3)
  have "\<exists>b \<le> 5900000. watchdog 8000000 a fs = Some b"
  proof (cases key)
    case None
    then show ?thesis
      using f a(1) by simp
  next
    case (Some k)
    then have fs: "fs = fst (handle_key (verdict_polls x) (verdict_last x) k (entry s, box s))"
      using f by simp
    show ?thesis
      unfolding fs by (rule watchdog_key [OF a(1)])
  qed
  then obtain b where "b \<le> 5900000" "watchdog 8000000 a fs = Some b"
    by blast
  moreover have "fst (main1_step x s) = es @ fs @ [SleepMs 5, WatchdogUpdate]"
    using f by (cases key) (simp_all add: main1_step_def r k)
  ultimately show ?thesis
    using a by (simp add: watchdog_append)
qed

section \<open>Properties\<close>

text \<open>C21: the entry buffer refines a list of digits: from a buffer that holds at most nine
  digits, every turn of the loop leaves such a buffer and stays inside it; a digit is
  appended unless nine are there, star and hash clear it, no other key touches it; and hash
  after seven to nine digits posts exactly one request, numbered by the next sequence
  number, for the identifier and the six-digit code that were typed.\<close>

theorem entry_refines_digits:
  assumes "entry_ok (entry s)" and "main1_step x s = (es, s')"
  shows "entry_ok (entry s')
    \<and> digits (entry s') = (case pressed_key x s of None \<Rightarrow> digits (entry s) | Some k \<Rightarrow> typed (digits (entry s)) k)
    \<and> box s' = (case asked_now x s of None \<Rightarrow> box s | Some q \<Rightarrow> request (seq_counter (entry s) + 1) q (box s))
    \<and> seq_counter (entry s') = (if asked_now x s = None then seq_counter (entry s) else seq_counter (entry s) + 1)"
  using main1_step_spec [OF assms(1), of x] assms(2) by simp

text \<open>C8: a turn of the loop drives the latch exactly when the hash key completed an entry
  and the first poll that echoes the sequence number of this very request, the one made
  after the deadline included, carries a grant: no other key, no short entry, no verdict on
  another request and no timeout opens the door.\<close>

theorem core1_unlocks_iff:
  assumes "entry_ok (entry s)"
  shows "unlocks (fst (main1_step x s)) \<longleftrightarrow>
    asked_now x s \<noteq> None \<and>
    (case List.find (\<lambda>p. fst p = seq_counter (entry s) + 1) (verdict_polls x @ [verdict_last x]) of
       None \<Rightarrow> False | Some p \<Rightarrow> snd p)"
  using main1_step_spec(5) [OF assms, of x] by (simp add: wait_unlocks)


section \<open>Witnesses\<close>

definition press_hash :: "(u32 \<times> bool) list \<Rightarrow> scan_input" where
  \<comment> \<open>the hash key, debounced by the time of the scan\<close>
  "press_hash polls = \<lparr>columns = (\<lambda>r c. r = 3 \<and> c = 2), scan_time = 20000, verdict_polls = polls,
     verdict_last = (0, False)\<rparr>"

definition seven_typed :: keypad_core where
  "seven_typed = \<lparr>pad = \<lparr>last_raw = Some (CHR ''#''), last_stable = None, stable_at = 20000\<rparr>,
     entry = \<lparr>input_buf = ''5686018'' @ replicate 3 NUL, input_len = 7, seq_counter = 41\<rparr>,
     box = mailbox_boot\<rparr>"

lemma seven_typed_ok: "entry_ok (entry seven_typed)" "digits (entry seven_typed) = ''5686018''"
  by (auto intro!: entry_okI [of _ "''5686018''"] simp: seven_typed_def is_digit_def)

lemma hash_pressed: "pressed_key (press_hash polls) seven_typed = Some (CHR ''#'')"
proof -
  have "fst (scan_raw (\<lambda>r c. r = 3 \<and> c = 2)) = Some (CHR ''#'')"
    by (simp add: scan_raw_def KEYPAD_ROWS_def KEYPAD_COLS_def KEY_MAP_def upt_rec)
  then show ?thesis
    by (simp add: pressed_key_def press_hash_def seven_typed_def keypad_get_key_def)
qed

lemma hash_asked: "asked_now (press_hash polls) seven_typed = Some (5, 686018)"
  by (simp add: asked_now_def hash_pressed seven_typed_ok dec_val_def char_val_def)

theorem entry_refines_digits_witness:
  "digits (entry (snd (main1_step (press_hash []) seven_typed))) = []
   \<and> request_id (box (snd (main1_step (press_hash []) seven_typed))) = 5
   \<and> request_code (box (snd (main1_step (press_hash []) seven_typed))) = 686018
   \<and> request_seq (box (snd (main1_step (press_hash []) seven_typed))) = 42"
  using entry_refines_digits [OF seven_typed_ok(1), of "press_hash []",
      OF prod.collapse [symmetric]]
  by (simp add: hash_pressed hash_asked seven_typed_ok request_def) (simp add: seven_typed_def)

theorem core1_unlocks_iff_witness:
  "unlocks (fst (main1_step (press_hash [(41, True), (42, True)]) seven_typed))
   \<and> \<not> unlocks (fst (main1_step (press_hash [(41, True), (42, False)]) seven_typed))"
  using core1_unlocks_iff [OF seven_typed_ok(1), of "press_hash [(41, True), (42, True)]"]
    core1_unlocks_iff [OF seven_typed_ok(1), of "press_hash [(41, True), (42, False)]"]
  by (simp add: hash_asked) (simp add: press_hash_def seven_typed_def)

end
