(* ===== verification/TwoCores.thy ===== *)
theory TwoCores imports Core1
begin

text \<open>
  The whole lock: the loop of \<open>main1\<close> (theory \<open>Core1\<close>) running against core 0 through the shared
  mailbox (the step relation of theory \<open>Door\<close>). A turn of the loop that submits an entry writes
  the fields of its request one by one and then polls; between any two of its accesses core 0
  and its environment (commands, clock, storage) take any number of steps. The two numbers a
  poll of \<open>Core1\<close> is given are the ones read from the mailbox at that moment.
\<close>

section \<open>Steps of core 0 and of the environment\<close>

inductive_cases door_stepE: "door_step decide s s'"

lemma core0_moves_frame:
  assumes "core0_moves decide s s'"
  shows "core1 s' = core1 s \<and> next_seq s' = next_seq s \<and> attempts s' = attempts s \<and>
    submitted s' = submitted s \<and> opened s' = opened s"
proof -
  have "door_step decide s s'" "core1 s' = core1 s"
    using assms by (simp_all add: core0_moves_def)
  then show ?thesis
    by (cases rule: door_stepE) auto
qed

interpretation core0m: inv_steps "core0_moves decide"
  "\<lambda>s. core1 s = p \<and> next_seq s = n \<and> attempts s = a \<and> submitted s = q \<and> opened s = ops" for decide p n a q ops
  by unfold_locales (auto dest: core0_moves_frame)

lemma others_frame:
  assumes "others decide s s'"
  shows "core1 s' = core1 s" and "next_seq s' = next_seq s" and "attempts s' = attempts s"
    and "submitted s' = submitted s" and "opened s' = opened s"
  using core0m.steps_inv [OF assms] by blast+

lemma others_then: "others decide s t \<Longrightarrow> door_step decide t u \<Longrightarrow> (door_step decide)\<^sup>*\<^sup>* s u"
  using others_steps rtranclp.rtrancl_into_rtrancl by metis

lemma others_between:
  assumes "others decide s t" and "door_step decide t t'" and "others decide t' u" and "door_step decide u v"
  shows "(door_step decide)\<^sup>*\<^sup>* s v"
  using others_then [OF assms(1,2)] others_then [OF assms(3,4)] by (rule rtranclp_trans)

section \<open>A turn of core 1\<close>

inductive waits ::
  "(u16 \<Rightarrow> u32 \<Rightarrow> 'e \<Rightarrow> bool) \<Rightarrow> u32 \<Rightarrow> u16 \<Rightarrow> u32 \<Rightarrow> (u32 \<times> bool) list \<Rightarrow> u32 \<times> bool \<Rightarrow> 'e door \<Rightarrow> 'e door \<Rightarrow> bool"
  for decide :: "u16 \<Rightarrow> u32 \<Rightarrow> 'e \<Rightarrow> bool" and n :: u32 and i :: u16 and c :: u32 where
  \<comment> \<open>the poll loop of \<open>process_input\<close>: what it reads, from where it starts and where it ends\<close>
  again: "others decide s t \<Longrightarrow> response_seq (mb t) \<noteq> n \<Longrightarrow> waits decide n i c polls lst t s' \<Longrightarrow>
    waits decide n i c ((response_seq (mb t), g) # polls) lst s s'"
| expired: "others decide s t \<Longrightarrow> response_seq (mb t) \<noteq> n \<Longrightarrow>
    waits decide n i c [] (response_seq (mb t), g) s (t\<lparr>core1 := Input\<rparr>)"
| granted: "others decide s t \<Longrightarrow> response_seq (mb t) = n \<Longrightarrow>
    others decide (t\<lparr>core1 := ReadGranted n i c\<rparr>) u \<Longrightarrow> response_granted (mb u) \<Longrightarrow>
    reads = polls @ [lst] \<Longrightarrow> hd reads = (n, True) \<Longrightarrow>
    waits decide n i c polls lst s (u\<lparr>opened := (n, i, c) # opened u, core1 := Input\<rparr>)"
| refused: "others decide s t \<Longrightarrow> response_seq (mb t) = n \<Longrightarrow>
    others decide (t\<lparr>core1 := ReadGranted n i c\<rparr>) u \<Longrightarrow> \<not> response_granted (mb u) \<Longrightarrow>
    reads = polls @ [lst] \<Longrightarrow> hd reads = (n, False) \<Longrightarrow>
    waits decide n i c polls lst s (u\<lparr>core1 := Input\<rparr>)"

inductive core1_turn ::
  "(u16 \<Rightarrow> u32 \<Rightarrow> 'e \<Rightarrow> bool) \<Rightarrow> scan_input \<Rightarrow> 'e door \<times> keypad_core \<Rightarrow> effect list \<Rightarrow> 'e door \<times> keypad_core \<Rightarrow> bool"
  for decide :: "u16 \<Rightarrow> u32 \<Rightarrow> 'e \<Rightarrow> bool" where
  quiet: "main1_step x k = (es, k') \<Longrightarrow> seq_counter (entry k') = seq_counter (entry k) \<Longrightarrow>
    others decide s s' \<Longrightarrow> core1_turn decide x (s, k) es (s', k')"
| attempt: "main1_step x k = (es, k') \<Longrightarrow> seq_counter (entry k') \<noteq> seq_counter (entry k) \<Longrightarrow>
    n = request_seq (box k') \<Longrightarrow> i = request_id (box k') \<Longrightarrow> c = request_code (box k') \<Longrightarrow>
    others decide s s0 \<Longrightarrow>
    others decide (s0\<lparr>next_seq := n, attempts := Suc (attempts s0), submitted := (n, i, c) # submitted s0,
      core1 := PutId n i c\<rparr>) s1 \<Longrightarrow>
    others decide (s1\<lparr>mb := (mb s1)\<lparr>request_id := i\<rparr>, core1 := PutCode n i c\<rparr>) s2 \<Longrightarrow>
    others decide (s2\<lparr>mb := (mb s2)\<lparr>request_code := c\<rparr>, core1 := PutSeq n i c\<rparr>) s3 \<Longrightarrow>
    waits decide n i c (verdict_polls x) (verdict_last x)
      (s3\<lparr>mb := (mb s3)\<lparr>request_seq := n\<rparr>, core1 := Wait n i c\<rparr>) s' \<Longrightarrow>
    core1_turn decide x (s, k) es (s', k')"

type_synonym history = "(keypad_core \<times> scan_input \<times> effect list) list"
  \<comment> \<open>the turns taken, the last one first: core 1 before it, what it met, what it drove\<close>

inductive lock_run :: "(u16 \<Rightarrow> u32 \<Rightarrow> 'e \<Rightarrow> bool) \<Rightarrow> 'e \<Rightarrow> history \<Rightarrow> 'e door \<Rightarrow> keypad_core \<Rightarrow> bool"
  for decide :: "u16 \<Rightarrow> u32 \<Rightarrow> 'e \<Rightarrow> bool" and e0 :: 'e where
  boot: "lock_run decide e0 [] (door_boot e0) core1_boot"
| next_turn: "lock_run decide e0 h s k \<Longrightarrow> core1_turn decide x (s, k) es (s', k') \<Longrightarrow>
    lock_run decide e0 ((k, x, es) # h) s' k'"

section \<open>Turns are runs of the protocol\<close>

lemma wait_first:
  "hd (polls @ [lst]) = (n, g) \<Longrightarrow> unlocks (wait_verdict n polls lst) = g"
  by (cases polls) (simp_all add: wait_unlocks del: wait_verdict.simps)

lemma waits_steps:
  assumes "waits decide n i c polls lst s s'" and "core1 s = Wait n i c"
  shows "(door_step decide)\<^sup>*\<^sup>* s s' \<and> core1 s' = Input \<and> next_seq s' = next_seq s \<and>
    attempts s' = attempts s \<and>
    opened s' = (if unlocks (wait_verdict n polls lst) then [(n, i, c)] else []) @ opened s"
  using assms
proof (induction rule: waits.induct)
  case (again s t polls lst s' g)
  have "core1 t = Wait n i c"
    using others_frame(1) [OF again.hyps(1)] again.prems by simp
  then show ?case
    using again.IH others_frame [OF again.hyps(1)] others_steps [OF again.hyps(1)] again.hyps(2)
    by (auto simp: wait_unlocks)
next
  case (expired s t g)
  have "door_step decide t (t\<lparr>core1 := Input\<rparr>)"
    using others_frame(1) [OF expired.hyps(1)] expired.prems by (auto intro: door_step.timeout)
  then show ?case
    using others_then [OF expired.hyps(1)] others_frame [OF expired.hyps(1)] expired.hyps(2)
    by (simp add: wait_unlocks)
next
  case (granted s t u reads polls lst)
  have "door_step decide t (t\<lparr>core1 := ReadGranted n i c\<rparr>)"
    using others_frame(1) [OF granted.hyps(1)] granted.prems granted.hyps(2) by (auto intro: door_step.saw_response)
  moreover have "door_step decide u (u\<lparr>opened := (n, i, c) # opened u, core1 := Input\<rparr>)"
    using others_frame(1) [OF granted.hyps(3)] granted.hyps(4) by (auto intro: door_step.grant)
  ultimately show ?case
    using others_between [OF granted.hyps(1) _ granted.hyps(3)] wait_first [of polls lst n True] granted.hyps(5,6)
      others_frame [OF granted.hyps(1)] others_frame [OF granted.hyps(3)]
    by simp
next
  case (refused s t u reads polls lst)
  have "door_step decide t (t\<lparr>core1 := ReadGranted n i c\<rparr>)"
    using others_frame(1) [OF refused.hyps(1)] refused.prems refused.hyps(2) by (auto intro: door_step.saw_response)
  moreover have "door_step decide u (u\<lparr>core1 := Input\<rparr>)"
    using others_frame(1) [OF refused.hyps(3)] refused.hyps(4) by (auto intro: door_step.refuse)
  ultimately show ?case
    using others_between [OF refused.hyps(1) _ refused.hyps(3)] wait_first [of polls lst n False] refused.hyps(5,6)
      others_frame [OF refused.hyps(1)] others_frame [OF refused.hyps(3)]
    by simp
qed

fun unlocked :: "keypad_core \<times> scan_input \<times> effect list \<Rightarrow> (u32 \<times> u16 \<times> u32) list" where
  \<comment> \<open>the attempt a turn of the loop opens the latch for\<close>
  "unlocked (k, x, es) =
     (case asked_now x k of
        Some (i, c) \<Rightarrow> if unlocks es then [(seq_counter (entry k) + 1, of_nat i, of_nat c)] else []
      | None \<Rightarrow> [])"

definition in_step :: "'e door \<Rightarrow> keypad_core \<Rightarrow> bool" where
  \<comment> \<open>core 1 between two turns\<close>
  "in_step s k \<longleftrightarrow> core1 s = Input \<and> next_seq s = seq_counter (entry k) \<and> entry_ok (entry k)"

lemma request_fields [simp]:
  "request_seq (request n q m) = n" "request_id (request n q m) = of_nat (fst q)"
  "request_code (request n q m) = of_nat (snd q)"
  by (simp_all add: request_def)

lemma submit_steps:
  assumes "core1 s0 = Input"
    and "others decide s0 s" and "n = next_seq s0 + 1"
    and "others decide (s\<lparr>next_seq := n, attempts := Suc (attempts s), submitted := (n, i, c) # submitted s,
      core1 := PutId n i c\<rparr>) s1"
    and "others decide (s1\<lparr>mb := (mb s1)\<lparr>request_id := i\<rparr>, core1 := PutCode n i c\<rparr>) s2"
    and "others decide (s2\<lparr>mb := (mb s2)\<lparr>request_code := c\<rparr>, core1 := PutSeq n i c\<rparr>) s3"
  shows "(door_step decide)\<^sup>*\<^sup>* s0 (s3\<lparr>mb := (mb s3)\<lparr>request_seq := n\<rparr>, core1 := Wait n i c\<rparr>)"
    and "next_seq s3 = n" and "attempts s3 = Suc (attempts s0)" and "opened s3 = opened s0"
proof -
  note f = others_frame [OF assms(2)] others_frame [OF assms(4)] others_frame [OF assms(5)] others_frame [OF assms(6)]
  show "next_seq s3 = n" "attempts s3 = Suc (attempts s0)" "opened s3 = opened s0"
    using f by simp_all
  have "door_step decide s (s\<lparr>next_seq := n, attempts := Suc (attempts s), submitted := (n, i, c) # submitted s,
      core1 := PutId n i c\<rparr>)"
    using f assms(1,3) door_step.submit [of s decide i c] by simp
  moreover have "door_step decide s1 (s1\<lparr>mb := (mb s1)\<lparr>request_id := i\<rparr>, core1 := PutCode n i c\<rparr>)"
    using f by (auto intro: door_step.put_id)
  moreover have "door_step decide s2 (s2\<lparr>mb := (mb s2)\<lparr>request_code := c\<rparr>, core1 := PutSeq n i c\<rparr>)"
    using f by (auto intro: door_step.put_code)
  moreover have "door_step decide s3 (s3\<lparr>mb := (mb s3)\<lparr>request_seq := n\<rparr>, core1 := Wait n i c\<rparr>)"
    using f by (auto intro: door_step.put_seq)
  ultimately show "(door_step decide)\<^sup>*\<^sup>* s0 (s3\<lparr>mb := (mb s3)\<lparr>request_seq := n\<rparr>, core1 := Wait n i c\<rparr>)"
    using others_between [OF assms(2) _ assms(4)] others_between [OF assms(5) _ assms(6)] by (meson rtranclp_trans)
qed

lemma turn_steps:
  assumes "core1_turn decide x (s, k) es (s', k')" and "in_step s k"
  shows "(door_step decide)\<^sup>*\<^sup>* s s' \<and> in_step s' k' \<and> opened s' = unlocked (k, x, es) @ opened s \<and>
    (unlocks es \<longrightarrow> asked_now x k \<noteq> None)"
proof -
  have k: "core1 s = Input" "next_seq s = seq_counter (entry k)" "entry_ok (entry k)"
    using assms(2) by (simp_all add: in_step_def)
  note spec = main1_step_spec [OF k(3), of x]
  show ?thesis
    using assms(1)
  proof cases
    case quiet
    then have "asked_now x k = None"
      using spec(4) by (auto split: if_splits)
    then show ?thesis
      using quiet spec(1,5) k others_frame [OF quiet(3)] others_steps [OF quiet(3)]
      by (simp add: in_step_def)
  next
    case (attempt n i c s0 s1 s2 s3)
    have k': "k' = snd (main1_step x k)" "es = fst (main1_step x k)"
      using attempt(1) by simp_all
    obtain q where q: "asked_now x k = Some q"
      using attempt(2) spec(4) k' by (auto split: if_splits)
    then have n: "n = next_seq s + 1" "n = seq_counter (entry k) + 1" "i = of_nat (fst q)" "c = of_nat (snd q)"
      using attempt(3-5) spec(3) k' k(2) by simp_all
    note sub = submit_steps [OF k(1) attempt(6) n(1) attempt(7-9)]
    have "unlocks es = unlocks (wait_verdict n (verdict_polls x) (verdict_last x))"
      using spec(5) q k' n(2) by simp
    moreover have "seq_counter (entry k') = n" "entry_ok (entry k')"
      using spec(1,4) q k' n(2) by simp_all
    ultimately show ?thesis
      using waits_steps [OF attempt(10)] sub q n by (auto simp: in_step_def split_def elim: rtranclp_trans)
  qed
qed

lemma lock_run_steps:
  assumes "lock_run decide e0 h s k"
  shows "door_reachable decide e0 s \<and> in_step s k \<and> opened s = concat (map unlocked h) \<and>
    (\<forall>(k0, x, es) \<in> set h. unlocks es \<longrightarrow> asked_now x k0 \<noteq> None)"
  using assms
proof induction
  case boot
  show ?case
    using entry_boot_ok(1) by (simp add: in_step_def door_boot_def core1_boot_def entry_boot_def)
next
  case (next_turn h s k x es s' k')
  then show ?case
    using turn_steps [OF next_turn.hyps(2)] by (auto elim: rtranclp_trans)
qed

text \<open>C4: the two cores together, from boot, under every interleaving of their accesses to the
  mailbox and with any commands, clock and storage on core 0: a turn of the keypad loop drives
  the latch only when its \<open>#\<close> asked for an identifier and a code that core 0, for this very
  request, looked up in storage and found sound, enabled and accepted by TOTP; and the latch is
  driven exactly once for each attempt the protocol opens. (Fewer than \<open>2^32\<close> attempts.)\<close>

theorem latch_driven_only_for_verified_entry:
  assumes "lock_run (\<lambda>i c e. fst (door_verdict L crc hmac i c e)) e0 h s k" and "attempts s < 2 ^ 32"
  shows "opened s = concat (map unlocked h)
    \<and> (\<forall>(k0, x, es) \<in> set h. unlocks es \<longrightarrow>
        (\<exists>i c st rtc key. asked_now x k0 = Some (i, c)
          \<and> (seq_counter (entry k0) + 1, of_nat i, of_nat c, (st, rtc), True) \<in> set (verdicts s)
          \<and> fst (storage_key_get L crc (of_nat i) st) = Some key
          \<and> is_checksum_valid key \<and> is_enabled key \<and> totp_verify hmac rtc (secret key) (of_nat c)))"
proof -
  note run = lock_run_steps [OF assms(1)]
  have "\<exists>i c st rtc key. asked_now x k0 = Some (i, c)
      \<and> (seq_counter (entry k0) + 1, of_nat i, of_nat c, (st, rtc), True) \<in> set (verdicts s)
      \<and> fst (storage_key_get L crc (of_nat i) st) = Some key
      \<and> is_checksum_valid key \<and> is_enabled key \<and> totp_verify hmac rtc (secret key) (of_nat c)"
    if t: "(k0, x, es) \<in> set h" "unlocks es" for k0 x es
  proof -
    obtain i c where a: "asked_now x k0 = Some (i, c)"
      using run t by fastforce
    then have "(seq_counter (entry k0) + 1, of_nat i, of_nat c) \<in> set (opened s)"
      using run t by force
    then show ?thesis
      using opened_verified [OF conjunct1 [OF run] assms(2)] a by blast
  qed
  then show ?thesis
    using run by blast
qed

section \<open>Witness\<close>

definition press :: "nat \<Rightarrow> nat \<Rightarrow> u64 \<Rightarrow> scan_input" where
  "press r c t = \<lparr>columns = (\<lambda>r' c'. r' = r \<and> c' = c), scan_time = t, verdict_polls = [], verdict_last = (1, True)\<rparr>"

fun all_quiet :: "scan_input list \<Rightarrow> keypad_core \<Rightarrow> bool" where
  "all_quiet [] k = True"
| "all_quiet (x # xs) k = (seq_counter (entry (snd (main1_step x k))) = seq_counter (entry k) \<and>
     all_quiet xs (snd (main1_step x k)))"

lemma quiet_typing:
  "lock_run decide e0 h s k \<Longrightarrow> all_quiet xs k \<Longrightarrow>
     \<exists>h'. lock_run decide e0 h' s (foldl (\<lambda>k x. snd (main1_step x k)) k xs)"
proof (induction xs arbitrary: h k)
  case (Cons x xs)
  have "core1_turn decide x (s, k) (fst (main1_step x k)) (s, snd (main1_step x k))"
    using Cons.prems(2) by (intro core1_turn.quiet) simp_all
  from Cons.IH [OF lock_run.next_turn [OF Cons.prems(1) this]] Cons.prems(2) show ?case
    by simp
qed auto

lemma scan_time_press [simp]: "scan_time (press r c t) = t"
  by (simp add: press_def)

lemma scan_press: "r < 4 \<Longrightarrow> c < 4 \<Longrightarrow> fst (scan_raw (columns (press r c t))) = Some (KEY_MAP ! r ! c)"
  by (auto simp: press_def scan_raw_def KEYPAD_ROWS_def KEYPAD_COLS_def upt_rec numeral_eq_Suc less_Suc_eq)

definition typed_at :: "string \<Rightarrow> keypad \<Rightarrow> keypad_core \<Rightarrow> bool" where
  "typed_at ds pd k \<longleftrightarrow> entry_ok (entry k) \<and> digits (entry k) = ds \<and> seq_counter (entry k) = 0 \<and> pad k = pd"

fun type_run :: "(nat \<times> nat \<times> u64) list \<Rightarrow> string \<times> keypad \<Rightarrow> (string \<times> keypad) option" where
  \<comment> \<open>digits typed and keypad state over scans that submit nothing\<close>
  "type_run [] e = Some e"
| "type_run ((r, c, t) # ps) e =
     (case keypad_get_key (Some (KEY_MAP ! r ! c)) t (snd e) of
        (None, pd) \<Rightarrow> type_run ps (fst e, pd)
      | (Some a, pd) \<Rightarrow> if is_digit a then type_run ps (typed (fst e) a, pd) else None)"

lemma main1_pad:
  "pad (snd (main1_step x k)) = snd (keypad_get_key (fst (scan_raw (columns x))) (scan_time x) (pad k))"
  by (simp add: main1_step_def split_def Let_def)

lemma type_key:
  assumes "typed_at ds pd k" and "r < 4" and "c < 4"
    and "keypad_get_key (Some (KEY_MAP ! r ! c)) t pd = (key, pd')" and "\<forall>a. key = Some a \<longrightarrow> is_digit a"
  shows "typed_at (case key of None \<Rightarrow> ds | Some a \<Rightarrow> typed ds a) pd' (snd (main1_step (press r c t) k))"
proof -
  have k: "entry_ok (entry k)" "digits (entry k) = ds" "seq_counter (entry k) = 0" "pad k = pd"
    using assms(1) by (simp_all add: typed_at_def)
  have p: "pressed_key (press r c t) k = key"
    using assms(4) k(4) by (simp add: pressed_key_def scan_press [OF assms(2,3)])
  have "asked_now (press r c t) k = None"
  proof (cases key)
    case (Some a)
    then have "a \<noteq> CHR ''#''"
      using assms(5) by (auto simp: is_digit_def)
    with Some show ?thesis
      by (simp add: asked_now_def p)
  qed (simp add: asked_now_def p)
  then show ?thesis
    using main1_step_spec(1,2,4) [OF k(1), of "press r c t"] assms(4)
    by (simp add: typed_at_def p main1_pad scan_press [OF assms(2,3)] k split: option.splits)
qed

lemma type_run_quiet:
  assumes "typed_at ds pd k" and "type_run ps (ds, pd) = Some (ds', pd')"
    and "\<forall>(r, c, t) \<in> set ps. r < 4 \<and> c < 4"
  shows "all_quiet (map (\<lambda>(r, c, t). press r c t) ps) k \<and>
    typed_at ds' pd' (foldl (\<lambda>k x. snd (main1_step x k)) k (map (\<lambda>(r, c, t). press r c t) ps))"
  using assms
proof (induction ps arbitrary: ds pd k)
  case (Cons p ps)
  obtain r c t where p: "p = (r, c, t)"
    using prod_cases3 by blast
  obtain key pd1 where g: "keypad_get_key (Some (KEY_MAP ! r ! c)) t pd = (key, pd1)"
    by fastforce
  let ?ds = "case key of None \<Rightarrow> ds | Some a \<Rightarrow> typed ds a"
  have "type_run ps (?ds, pd1) = Some (ds', pd')" "\<forall>a. key = Some a \<longrightarrow> is_digit a"
    using Cons.prems(2) p g by (auto split: option.splits if_splits)
  moreover have "typed_at ?ds pd1 (snd (main1_step (press r c t) k))"
    using type_key [OF Cons.prems(1) _ _ g calculation(2)] Cons.prems(3) p by simp
  moreover have "seq_counter (entry k) = 0"
    using Cons.prems(1) by (simp add: typed_at_def)
  ultimately show ?case
    using Cons.IH [of ?ds pd1] Cons.prems(3) p by (auto simp: typed_at_def)
qed simp

definition typing :: "(nat \<times> nat \<times> u64) list" where
  \<comment> \<open>5686018 and \<open>#\<close>, two scans each, all but the last\<close>
  "typing = [(1, 1, 0), (1, 1, 30000), (1, 2, 100000), (1, 2, 130000), (2, 1, 200000), (2, 1, 230000),
     (1, 2, 300000), (1, 2, 330000), (3, 1, 400000), (3, 1, 430000), (0, 0, 500000), (0, 0, 530000),
     (2, 1, 600000), (2, 1, 630000), (3, 2, 700000)]"

definition hash_down :: keypad where
  "hash_down = \<lparr>last_raw = Some (CHR ''#''), last_stable = Some (CHR ''8''), stable_at = 720000\<rparr>"

lemma typing_run: "type_run typing ([], keypad_boot) = Some (''5686018'', hash_down)"
  by (simp add: typing_def keypad_boot_def keypad_get_key_def KEYPAD_DEBOUNCE_MS_def KEY_MAP_def
      is_digit_def hash_down_def)

lemma one_attempt:
  assumes "lock_run door_decide door_env h (door_boot door_env) k" and "typed_at ''5686018'' hash_down k"
  obtains s es where "lock_run door_decide door_env ((k, press 3 2 730000, es) # h) s (snd (main1_step (press 3 2 730000) k))"
    and "unlocks es" and "asked_now (press 3 2 730000) k = Some (5, 686018)" and "attempts s = 1"
proof -
  let ?x = "press 3 2 730000"
  have k: "entry_ok (entry k)" "digits (entry k) = ''5686018''" "seq_counter (entry k) = 0" "pad k = hash_down"
    using assms(2) by (simp_all add: typed_at_def)
  have "pressed_key ?x k = Some (CHR ''#'')"
    by (simp add: pressed_key_def scan_press k(4) hash_down_def keypad_get_key_def KEY_MAP_def)
  then have a: "asked_now ?x k = Some (5, 686018)"
    by (simp add: asked_now_def k(2) dec_val_def char_val_def)
  note spec = main1_step_spec [OF k(1), of ?x]
  have x: "verdict_polls ?x = []" "verdict_last ?x = (1, True)"
    by (simp_all add: press_def)
  obtain es k' where m: "main1_step ?x k = (es, k')"
    by fastforce
  have u: "unlocks es"
    using spec(5) a m k(3) x wait_first [of "[]" "(1, True)" 1 True] by simp
  let ?d = "door_boot door_env"
  let ?d4 = "?d\<lparr>next_seq := 1, attempts := 1, submitted := [(1, 5, 686018)],
      mb := (mb ?d)\<lparr>request_id := 5, request_code := 686018, request_seq := 1\<rparr>, core1 := Wait 1 5 686018\<rparr>"
  have boot: "request_seq (mb ?d4) \<noteq> last_handled ?d4" "core0 ?d4 = Idle"
    by (simp_all add: door_boot_def)
  let ?e = "?d4\<lparr>mb := (mb ?d4)\<lparr>response_granted := True, response_seq := 1\<rparr>, last_handled := 1,
      verdicts := [(1, 5, 686018, door_env, True)]\<rparr>"
  have "others door_decide ?d4 ?e"
    using core0_steps [OF boot(2,1), of door_decide] door_decide_yes
    by (simp add: core0_handle_door_verify_def Let_def door_boot_def)
  then have w: "waits door_decide 1 5 686018 [] (1, True) ?d4
      (?e\<lparr>core1 := ReadGranted 1 5 686018, opened := [(1, 5, 686018)], core1 := Input\<rparr>)"
    using waits.granted [of door_decide ?d4 ?e 1 5 686018 "?e\<lparr>core1 := ReadGranted 1 5 686018\<rparr>" "[(1, True)]" "[]"]
    by (simp add: door_boot_def)
  have "core1_turn door_decide ?x (?d, k) es (?e\<lparr>core1 := ReadGranted 1 5 686018, opened := [(1, 5, 686018)], core1 := Input\<rparr>, k')"
    using m spec(3,4) a k(3) x w
    by (intro core1_turn.attempt [where ?s0.0 = ?d and ?s1.0 = "?d\<lparr>next_seq := 1, attempts := 1,
          submitted := [(1, 5, 686018)], core1 := PutId 1 5 686018\<rparr>"
        and ?s2.0 = "?d\<lparr>next_seq := 1, attempts := 1, submitted := [(1, 5, 686018)],
          mb := (mb ?d)\<lparr>request_id := 5\<rparr>, core1 := PutCode 1 5 686018\<rparr>"
        and ?s3.0 = "?d\<lparr>next_seq := 1, attempts := 1, submitted := [(1, 5, 686018)],
          mb := (mb ?d)\<lparr>request_id := 5, request_code := 686018\<rparr>, core1 := PutSeq 1 5 686018\<rparr>"])
      (simp_all add: door_boot_def)
  from lock_run.next_turn [OF assms(1) this] show thesis
    using that [of es] m a u by simp
qed

theorem latch_driven_only_for_verified_entry_witness:
  "\<exists>h s k. lock_run door_decide door_env h s k \<and> opened s = concat (map unlocked h)
    \<and> (\<exists>(k0, x, es) \<in> set h. unlocks es \<and> asked_now x k0 = Some (5, 686018)
      \<and> (\<exists>st key. fst (storage_key_get ram_api sum_crc 5 st) = Some key \<and> is_enabled key))"
proof -
  have "typed_at [] keypad_boot core1_boot"
    using entry_boot_ok by (simp add: typed_at_def core1_boot_def entry_boot_def)
  moreover have "\<forall>(r, c, t) \<in> set typing. r < 4 \<and> c < 4"
    by (simp add: typing_def)
  ultimately have q: "all_quiet (map (\<lambda>(r, c, t). press r c t) typing) core1_boot"
    and t: "typed_at ''5686018'' hash_down
      (foldl (\<lambda>k x. snd (main1_step x k)) core1_boot (map (\<lambda>(r, c, t). press r c t) typing))"
    using type_run_quiet [OF _ typing_run] by blast+
  from quiet_typing [OF lock_run.boot q, of door_decide door_env] t obtain h k where
    "lock_run door_decide door_env h (door_boot door_env) k" "typed_at ''5686018'' hash_down k"
    by blast
  then obtain s es where r: "lock_run door_decide door_env ((k, press 3 2 730000, es) # h) s
      (snd (main1_step (press 3 2 730000) k))"
    and u: "unlocks es" "asked_now (press 3 2 730000) k = Some (5, 686018)" "attempts s = 1"
    by (rule one_attempt)
  have "attempts s < 2 ^ 32"
    using u(3) by simp
  note t = latch_driven_only_for_verified_entry [OF r this]
  show ?thesis
    using t r u by fastforce
qed

end
