(* ===== verification/Text.thy ===== *)
theory Text imports Clock Hardware Storage
begin

text \<open>
  The \<open>printf\<close> and \<open>strftime\<close> formats of the console: signed decimals, two-digit fields, upper
  case hexadecimal bytes, the UTC date of a unix time, yes and no.
\<close>

definition sdec :: "int \<Rightarrow> string" where
  \<comment> \<open>\<open>%d\<close>\<close>
  "sdec i = (if i < 0 then CHR ''-'' # udec (nat (- i)) else udec (nat i))"

definition dec2 :: "nat \<Rightarrow> string" where
  \<comment> \<open>\<open>%02u\<close>\<close>
  "dec2 n = zero_pad 2 (udec n)"

definition hex_digit :: "nat \<Rightarrow> char" where
  "hex_digit n = ''0123456789ABCDEF'' ! n"

definition hex2 :: "u8 \<Rightarrow> string" where
  \<comment> \<open>\<open>%02X\<close>\<close>
  "hex2 b = [hex_digit (unat b div 16), hex_digit (unat b mod 16)]"

definition strftime_utc :: "u32 \<Rightarrow> string" where
  \<comment> \<open>\<open>strftime(.., "%Y-%m-%d %H:%M:%S", gmtime(&t))\<close>; \<open>gmtime\<close> is the Gregorian calendar, which
      \<open>clock_set_from_unix_time\<close> computes (theorem \<open>clock_set_get\<close>)\<close>
  "strftime_utc t =
     (case clock_set_from_unix_time t of
        None \<Rightarrow> []
      | Some d \<Rightarrow> udec (unat (year d)) @ ''-'' @ dec2 (unat (month d)) @ ''-'' @ dec2 (unat (day d)) @ '' '' @
          dec2 (unat (hour d)) @ '':'' @ dec2 (unat (minute d)) @ '':'' @ dec2 (unat (sec d)))"

definition yes_no :: "bool \<Rightarrow> string" where
  "yes_no b = (if b then ''yes'' else ''no'')"

definition quoted :: "string \<Rightarrow> string" where
  "quoted s = CHR 0x27 # s @ [CHR 0x27]"

end
