(* ===== verification/Ntp.thy ===== *)
theory Ntp imports Clock
begin

text \<open>
  \<open>network/ntp.c\<close> and \<open>network/ntp.h\<close>: the client's static state, the rollback check, the two
  lwIP callbacks, the blocking sync and the periodic task. lwIP, cyw43 and the random
  source are outside the repository: what they deliver (datagrams, DNS answers, nonces,
  clock readings, buffers) is the argument \<open>ntp_event\<close> or \<open>sync_env\<close>. Addresses are an
  arbitrary type \<open>'a\<close> with equality. \<open>BUILD_UNIX_TIME\<close> is generated at build time and is the
  parameter \<open>build\<close>. A poll loop that waits for a deadline is given the callbacks that each
  of its iterations delivers, and those of the last one, after which the deadline has passed.
\<close>

definition NTP_PORT :: u16 where
  "NTP_PORT = 123"

definition NTP_DELTA :: u32 where
  "NTP_DELTA = 2208988800"

definition NTP_RESYNC_INTERVAL_S :: u32 where
  "NTP_RESYNC_INTERVAL_S = 30 * 60"

definition NTP_ROLLBACK_EPSILON_S :: u32 where
  "NTP_ROLLBACK_EPSILON_S = 5"

definition NTP_ROLLBACK_BUDGET_S :: u32 where
  "NTP_ROLLBACK_BUDGET_S = 300"

definition NTP_MAX_FORWARD_STEP_S :: u32 where
  "NTP_MAX_FORWARD_STEP_S = 86400"

definition NTP_SANE_MAX_AGE_S :: u32 where
  "NTP_SANE_MAX_AGE_S = 20 * 365 * 86400"

definition UINT32_MAX :: u32 where
  "UINT32_MAX = 0xFFFFFFFF"

datatype ntp_state_t =
    NTP_STATE_IDLE
  | NTP_STATE_RESOLVING
  | NTP_STATE_WAITING
  | NTP_STATE_SUCCESS
  | NTP_STATE_FAILED

record 'a ntp =
  ntp_state :: ntp_state_t
  ntp_nonce :: "u8 list"
  ntp_pcb :: bool  \<comment> \<open>not NULL\<close>
  server_addr :: 'a
  synced :: bool
  last_sync_unix :: u32
  last_sync_monotonic_us :: u64
  rollback_budget_used_s :: u32
  rtc :: "datetime_t option"  \<comment> \<open>what \<open>rtc_set_datetime\<close> was last given\<close>
  sent :: "(bool \<times> 'a \<times> u8 list) list"  \<comment> \<open>\<open>udp_sendto\<close>: is there a pcb, to whom, what\<close>

section \<open>Rollback protection\<close>

definition elapsed_s :: "u64 \<Rightarrow> 'a ntp \<Rightarrow> u32" where
  "elapsed_s now s = ucast ((now - last_sync_monotonic_us s) div 1000000)"

definition projected_time :: "u64 \<Rightarrow> 'a ntp \<Rightarrow> u32" where
  "projected_time now s =
     (if UINT32_MAX - elapsed_s now s < last_sync_unix s then UINT32_MAX
      else last_sync_unix s + elapsed_s now s)"

definition rollback_check :: "u64 \<Rightarrow> u32 \<Rightarrow> 'a ntp \<Rightarrow> bool \<times> 'a ntp" where
  "rollback_check now new_time s =
     (if \<not> synced s then (True, s)
      else let projected = projected_time now s;
               floor = (if NTP_ROLLBACK_EPSILON_S < projected
                        then projected - NTP_ROLLBACK_EPSILON_S else 0)
      in if new_time < floor then (False, s)
      else if projected \<le> UINT32_MAX - NTP_MAX_FORWARD_STEP_S \<and>
              projected + NTP_MAX_FORWARD_STEP_S < new_time then (False, s)
      else if new_time < projected
      then let backstep = projected - new_time in
        if NTP_ROLLBACK_BUDGET_S - rollback_budget_used_s s < backstep then (False, s)
        else (True, s\<lparr>rollback_budget_used_s := rollback_budget_used_s s + backstep\<rparr>)
      else (True, s))"

definition apply_time :: "u64 \<Rightarrow> u32 \<Rightarrow> 'a ntp \<Rightarrow> 'a ntp" where
  "apply_time now unix_time s =
     s\<lparr>rtc := clock_set_from_unix_time unix_time, last_sync_unix := unix_time,
       last_sync_monotonic_us := now, synced := True\<rparr>"

section \<open>Callbacks\<close>

record 'a datagram =
  payload :: "u8 list"
  from_addr :: 'a
  from_port :: u16
  t_check :: u64  \<comment> \<open>\<open>time_us_64()\<close> in the rollback check and in \<open>apply_time\<close>\<close>
  t_apply :: u64

definition be32_at :: "u8 list \<Rightarrow> nat \<Rightarrow> u32" where
  "be32_at buf i = push_bit 24 (ucast (buf ! i)) OR push_bit 16 (ucast (buf ! (i + 1))) OR
     push_bit 8 (ucast (buf ! (i + 2))) OR ucast (buf ! (i + 3))"

definition ntp_recv_cb :: "u32 \<Rightarrow> 'a datagram \<Rightarrow> 'a ntp \<Rightarrow> 'a ntp" where
  "ntp_recv_cb build p s =
     (if length (payload p) < 48 then s
      else let buf = take 48 (payload p) in
      if from_addr p \<noteq> server_addr s \<or> from_port p \<noteq> NTP_PORT then s
      else let li = drop_bit 6 (buf ! 0) AND 3; mode = buf ! 0 AND 7; stratum = buf ! 1 in
      if li = 3 then s
      else if mode \<noteq> 4 then s
      else if stratum = 0 \<or> 15 < stratum then s
      else if take 8 (drop 24 buf) \<noteq> ntp_nonce s then s
      else let seconds_since_1900 = be32_at buf 40 in
      if seconds_since_1900 < NTP_DELTA then s\<lparr>ntp_state := NTP_STATE_FAILED\<rparr>
      else let unix_time = seconds_since_1900 - NTP_DELTA in
      if unix_time < build \<or> NTP_SANE_MAX_AGE_S < unix_time - build then s
      else case rollback_check (t_check p) unix_time s of
        (False, s) \<Rightarrow> s
      | (True, s) \<Rightarrow> (apply_time (t_apply p) unix_time s)\<lparr>ntp_state := NTP_STATE_SUCCESS\<rparr>)"

definition le64 :: "u64 \<Rightarrow> u8 list" where
  "le64 w = map (\<lambda>i. ucast (drop_bit (8 * i) w)) [0..<8]"

definition ntp_request :: "u64 \<Rightarrow> u8 list" where
  "ntp_request nonce = 0x1B # replicate 39 0 @ le64 nonce"

definition dns_found_cb :: "'a option \<Rightarrow> bool \<Rightarrow> u64 \<Rightarrow> 'a ntp \<Rightarrow> 'a ntp" where
  \<comment> \<open>the answer, whether \<open>pbuf_alloc\<close> finds memory, and \<open>get_rand_64()\<close>\<close>
  "dns_found_cb ipaddr alloc nonce s =
     (case ipaddr of
        None \<Rightarrow> s\<lparr>ntp_state := NTP_STATE_FAILED\<rparr>
      | Some a \<Rightarrow>
          let s = s\<lparr>server_addr := a\<rparr> in
          if \<not> alloc then s\<lparr>ntp_state := NTP_STATE_FAILED\<rparr>
          else let req = ntp_request nonce in
            s\<lparr>ntp_nonce := drop 40 req, sent := sent s @ [(ntp_pcb s, a, req)],
              ntp_state := NTP_STATE_WAITING\<rparr>)"

datatype 'a ntp_event =
    DnsFound "'a option" bool u64
  | Datagram "'a datagram"

fun ntp_step :: "u32 \<Rightarrow> 'a ntp \<Rightarrow> 'a ntp_event \<Rightarrow> 'a ntp" where
  "ntp_step build s (DnsFound a alloc nonce) = dns_found_cb a alloc nonce s"
| "ntp_step build s (Datagram p) = ntp_recv_cb build p s"

section \<open>Synchronising\<close>

datatype 'a dns_start =
    ERR_OK 'a bool u64  \<comment> \<open>cached address; the callback is called at once\<close>
  | ERR_INPROGRESS
  | ERR_OTHER

record 'a sync_env =
  pcb_new :: bool  \<comment> \<open>\<open>udp_new_ip_type\<close> succeeds\<close>
  dns :: "'a dns_start"
  polls :: "'a ntp_event list list"  \<comment> \<open>callbacks of each iteration before the deadline\<close>
  last_poll :: "'a ntp_event list"  \<comment> \<open>callbacks of the iteration that finds it passed\<close>

fun poll_loop :: "u32 \<Rightarrow> 'a ntp_event list list \<Rightarrow> 'a ntp_event list \<Rightarrow> 'a ntp \<Rightarrow> bool \<times> 'a ntp" where
  \<comment> \<open>the first component tells whether the loop ended before the deadline\<close>
  "poll_loop build ps lst s =
     (if ntp_state s = NTP_STATE_SUCCESS \<or> ntp_state s = NTP_STATE_FAILED then (True, s)
      else case ps of
        [] \<Rightarrow> (False, foldl (ntp_step build) s lst)
      | p # ps \<Rightarrow> poll_loop build ps lst (foldl (ntp_step build) s p))"

declare poll_loop.simps [simp del]

definition ntp_sync :: "u32 \<Rightarrow> 'a sync_env \<Rightarrow> 'a ntp \<Rightarrow> bool \<times> 'a ntp" where
  "ntp_sync build e s =
     (let s = (if ntp_pcb s then s\<lparr>ntp_pcb := False\<rparr> else s);
          s = s\<lparr>ntp_pcb := pcb_new e\<rparr> in
      if \<not> ntp_pcb s then (False, s)
      else let s = s\<lparr>ntp_state := NTP_STATE_RESOLVING\<rparr> in
      if dns e = ERR_OTHER then (False, s\<lparr>ntp_pcb := False\<rparr>)
      else let s = (case dns e of
                      ERR_OK a alloc nonce \<Rightarrow> dns_found_cb (Some a) alloc nonce (s\<lparr>server_addr := a\<rparr>)
                    | _ \<Rightarrow> s);
               (ended, s) = poll_loop build (polls e) (last_poll e) s in
      if \<not> ended then (False, s\<lparr>ntp_pcb := False\<rparr>)
      else let ok = (ntp_state s = NTP_STATE_SUCCESS);
               s = s\<lparr>ntp_state := NTP_STATE_IDLE\<rparr>
           in (ok, s\<lparr>ntp_pcb := False\<rparr>))"

definition ntp_task :: "u32 \<Rightarrow> bool \<Rightarrow> u64 \<Rightarrow> 'a sync_env \<Rightarrow> 'a ntp \<Rightarrow> bool option \<times> 'a ntp" where
  \<comment> \<open>\<open>connected\<close> is \<open>wifi_is_connected()\<close>; \<open>None\<close> when no sync is due, else its result
      (false sounds the error tune)\<close>
  "ntp_task build connected now e s =
     (if \<not> synced s then (None, s)
      else if \<not> connected then (None, s)
      else if elapsed_s now s < NTP_RESYNC_INTERVAL_S then (None, s)
      else let (ok, s) = ntp_sync build e s in (Some ok, s))"

definition ntp_last_sync_time :: "'a ntp \<Rightarrow> u32" where
  "ntp_last_sync_time s = last_sync_unix s"

definition ntp_is_synced :: "'a ntp \<Rightarrow> bool" where
  "ntp_is_synced s = synced s"

definition ntp_boot :: "'a \<Rightarrow> 'a ntp" where
  \<comment> \<open>the static initialisers\<close>
  "ntp_boot a = \<lparr>ntp_state = NTP_STATE_IDLE, ntp_nonce = replicate 8 0, ntp_pcb = False,
     server_addr = a, synced = False, last_sync_unix = 0, last_sync_monotonic_us = 0,
     rollback_budget_used_s = 0, rtc = None, sent = []\<rparr>"

section \<open>The decision on numbers\<close>

lemma unat_le_max: "unat (x::u32) \<le> 4294967295"
  using unsigned_less [of x, where ?'a = nat] by simp

lemma projected_nat:
  "unat (projected_time now s) = min 4294967295 (unat (last_sync_unix s) + unat (elapsed_s now s))"
proof -
  have m: "unat (UINT32_MAX - elapsed_s now s) = 4294967295 - unat (elapsed_s now s)"
    using unat_sub [of "elapsed_s now s" UINT32_MAX] unat_le_max [of "elapsed_s now s"]
    by (simp add: UINT32_MAX_def word_le_nat_alt)
  show ?thesis
  proof (cases "UINT32_MAX - elapsed_s now s < last_sync_unix s")
    case True
    then have "4294967295 - unat (elapsed_s now s) < unat (last_sync_unix s)"
      by (simp add: word_less_nat_alt m)
    then show ?thesis
      using True by (simp add: projected_time_def UINT32_MAX_def)
  next
    case False
    then have "unat (last_sync_unix s) \<le> 4294967295 - unat (elapsed_s now s)"
      by (simp add: word_less_nat_alt m)
    then have le: "unat (last_sync_unix s) + unat (elapsed_s now s) \<le> 4294967295"
      using unat_le_max [of "elapsed_s now s"] by linarith
    then have "unat (last_sync_unix s + elapsed_s now s) = unat (last_sync_unix s) + unat (elapsed_s now s)"
      by (simp add: unat_word_ariths)
    then show ?thesis
      using False le by (simp add: projected_time_def)
  qed
qed

lemma rollback_check_nat:
  fixes now :: u64
  assumes "synced s" and used: "rollback_budget_used_s s \<le> NTP_ROLLBACK_BUDGET_S"
  defines "P \<equiv> unat (projected_time now s)"
  shows "rollback_check now t s =
    (if unat t + 5 < P \<or> P + 86400 < unat t \<or> 300 - unat (rollback_budget_used_s s) < P - unat t
     then (False, s)
     else (True, s\<lparr>rollback_budget_used_s := rollback_budget_used_s s + of_nat (P - unat t)\<rparr>))"
proof -
  define pr where "pr = projected_time now s"
  have P: "P = unat pr"
    by (simp add: P_def pr_def)
  have f: "(t < (if NTP_ROLLBACK_EPSILON_S < pr then pr - NTP_ROLLBACK_EPSILON_S else 0)) \<longleftrightarrow> unat t + 5 < P"
  proof (cases "NTP_ROLLBACK_EPSILON_S < pr")
    case True
    then have "unat (pr - NTP_ROLLBACK_EPSILON_S) = P - 5"
      using unat_sub [of NTP_ROLLBACK_EPSILON_S pr]
      by (simp add: P NTP_ROLLBACK_EPSILON_S_def word_le_nat_alt word_less_nat_alt)
    then show ?thesis
      using True by (simp add: word_less_nat_alt) linarith
  next
    case False
    then show ?thesis
      by (simp add: P NTP_ROLLBACK_EPSILON_S_def word_less_nat_alt)
  qed
  have c: "pr \<le> UINT32_MAX - NTP_MAX_FORWARD_STEP_S \<longleftrightarrow> P \<le> 4294967295 - 86400"
    by (simp add: P UINT32_MAX_def NTP_MAX_FORWARD_STEP_S_def word_le_nat_alt)
  have fw: "pr \<le> UINT32_MAX - NTP_MAX_FORWARD_STEP_S \<and> pr + NTP_MAX_FORWARD_STEP_S < t \<longleftrightarrow> P + 86400 < unat t"
  proof (cases "P \<le> 4294967295 - 86400")
    case True
    then have "unat (pr + NTP_MAX_FORWARD_STEP_S) = P + 86400"
      by (simp add: P NTP_MAX_FORWARD_STEP_S_def unat_word_ariths)
    then show ?thesis
      using True c by (simp add: word_less_nat_alt)
  next
    case False
    then show ?thesis
      using c unat_le_max [of t] by simp
  qed
  have lt: "t < pr \<longleftrightarrow> unat t < P"
    by (simp add: P word_less_nat_alt)
  have b: "NTP_ROLLBACK_BUDGET_S - rollback_budget_used_s s < pr - t \<longleftrightarrow>
      300 - unat (rollback_budget_used_s s) < P - unat t" if "unat t < P"
    using that unat_sub [of t pr] unat_sub [OF used]
    by (simp add: P NTP_ROLLBACK_BUDGET_S_def word_less_nat_alt word_le_nat_alt)
  have d: "pr - t = of_nat (P - unat t)" if "unat t < P"
  proof -
    have u: "unat (pr - t) = P - unat t"
      using that unat_sub [of t pr] by (simp add: P word_le_nat_alt)
    show ?thesis
      unfolding u [symmetric] by simp
  qed
  show ?thesis
    using assms(1) b d
    unfolding rollback_check_def Let_def pr_def [symmetric] f fw lt by simp
qed

section \<open>What a datagram can do\<close>

definition genuine :: "'a datagram \<Rightarrow> 'a ntp \<Rightarrow> bool" where
  \<comment> \<open>a whole server reply from the queried server that echoes the nonce of the request\<close>
  "genuine p s \<longleftrightarrow>
     48 \<le> length (payload p) \<and> from_addr p = server_addr s \<and> from_port p = 123 \<and>
     take 8 (drop 24 (take 48 (payload p))) = ntp_nonce s \<and>
     payload p ! 0 AND 7 = 4 \<and> drop_bit 6 (payload p ! 0) AND 3 \<noteq> 3 \<and>
     payload p ! 1 \<noteq> 0 \<and> \<not> 15 < payload p ! 1"

definition ntp_time :: "'a datagram \<Rightarrow> u32" where
  "ntp_time p = be32_at (payload p) 40 - NTP_DELTA"

definition in_band :: "u32 \<Rightarrow> u32 \<Rightarrow> bool" where
  "in_band build t \<longleftrightarrow> unat build \<le> unat t \<and> unat t \<le> unat build + 20 * 365 * 86400"

definition ntp_accepts :: "u32 \<Rightarrow> 'a datagram \<Rightarrow> 'a ntp \<Rightarrow> bool" where
  "ntp_accepts build p s \<longleftrightarrow>
     genuine p s \<and> NTP_DELTA \<le> be32_at (payload p) 40 \<and> in_band build (ntp_time p) \<and>
     fst (rollback_check (t_check p) (ntp_time p) s)"

lemma in_band_word:
  "(t < build \<or> NTP_SANE_MAX_AGE_S < t - build) \<longleftrightarrow> \<not> in_band build t"
  using unat_sub [of build t]
  by (auto simp: in_band_def NTP_SANE_MAX_AGE_S_def word_less_nat_alt word_le_nat_alt not_less)

lemma be32_at_take: "be32_at (take 48 buf) 40 = be32_at buf 40"
  by (simp add: be32_at_def)

lemma rollback_check_other:
  "rollback_check now t s = (b, s') \<Longrightarrow> s' = s\<lparr>rollback_budget_used_s := rollback_budget_used_s s'\<rparr>
     \<and> (\<not> b \<longrightarrow> s' = s)"
  by (auto simp: rollback_check_def Let_def split: if_splits)

lemma ntp_recv_split:
  "ntp_recv_cb build p s =
     (if ntp_accepts build p s
      then (apply_time (t_apply p) (ntp_time p) (snd (rollback_check (t_check p) (ntp_time p) s)))
             \<lparr>ntp_state := NTP_STATE_SUCCESS\<rparr>
      else if genuine p s \<and> be32_at (payload p) 40 < NTP_DELTA
      then s\<lparr>ntp_state := NTP_STATE_FAILED\<rparr>
      else s)"
proof (cases "genuine p s")
  case False
  then show ?thesis
    by (auto simp: ntp_recv_cb_def ntp_accepts_def genuine_def NTP_PORT_def Let_def)
next
  case g: True
  have r: "ntp_recv_cb build p s =
     (if be32_at (payload p) 40 < NTP_DELTA then s\<lparr>ntp_state := NTP_STATE_FAILED\<rparr>
      else if \<not> in_band build (ntp_time p) then s
      else case rollback_check (t_check p) (ntp_time p) s of
        (False, s) \<Rightarrow> s
      | (True, s) \<Rightarrow> (apply_time (t_apply p) (ntp_time p) s)\<lparr>ntp_state := NTP_STATE_SUCCESS\<rparr>)"
    using g unfolding ntp_recv_cb_def Let_def be32_at_take ntp_time_def [symmetric] in_band_word
    by (simp add: genuine_def NTP_PORT_def)
  obtain b s1 where rb: "rollback_check (t_check p) (ntp_time p) s = (b, s1)"
    by fastforce
  show ?thesis
    using g rollback_check_other [OF rb] unfolding r rb
    by (cases b) (auto simp: ntp_accepts_def rb)
qed

definition ntp_ok :: "'a ntp \<Rightarrow> bool" where
  "ntp_ok s \<longleftrightarrow> rollback_budget_used_s s \<le> NTP_ROLLBACK_BUDGET_S"

lemma budget_step:
  assumes "ntp_ok s" and "synced s" and "fst (rollback_check now t s)"
  shows "unat (rollback_budget_used_s (snd (rollback_check now t s))) =
      unat (rollback_budget_used_s s) + (unat (projected_time now s) - unat t)"
    and "unat (rollback_budget_used_s s) + (unat (projected_time now s) - unat t) \<le> 300"
    and "unat (projected_time now s) \<le> unat t + 5" and "unat t \<le> unat (projected_time now s) + 86400"
proof -
  define P where "P = unat (projected_time now s)"
  define u where "u = unat (rollback_budget_used_s s)"
  have u: "u \<le> 300"
    using assms(1) by (simp add: ntp_ok_def u_def NTP_ROLLBACK_BUDGET_S_def word_le_nat_alt)
  note rb = rollback_check_nat [OF assms(2) assms(1) [unfolded ntp_ok_def], of now t, folded P_def u_def]
  have c: "\<not> unat t + 5 < P" "\<not> P + 86400 < unat t" "\<not> 300 - u < P - unat t"
    using assms(3) by (auto simp: rb split: if_splits)
  then have "rollback_check now t s =
      (True, s\<lparr>rollback_budget_used_s := rollback_budget_used_s s + of_nat (P - unat t)\<rparr>)"
    by (simp add: rb)
  moreover have "unat (rollback_budget_used_s s + of_nat (P - unat t)) = u + (P - unat t)"
  proof -
    have "P - unat t \<le> 300"
      using c(3) u by linarith
    then have "unat (of_nat (P - unat t) :: u32) = P - unat t"
      by (simp add: unsigned_of_nat take_bit_nat_eq_self)
    then show ?thesis
      using u \<open>P - unat t \<le> 300\<close> by (simp add: unat_word_ariths flip: u_def)
  qed
  ultimately show "unat (rollback_budget_used_s (snd (rollback_check now t s))) = u + (P - unat t)"
    by simp
  show "u + (P - unat t) \<le> 300" "P \<le> unat t + 5" "unat t \<le> P + 86400"
    using c u by linarith+
qed

section \<open>Invariant\<close>

definition ntp_inv :: "u32 \<Rightarrow> 'a ntp \<Rightarrow> bool" where
  "ntp_inv build s \<longleftrightarrow> ntp_ok s \<and>
     (synced s \<longrightarrow> rtc s = clock_set_from_unix_time (last_sync_unix s) \<and> in_band build (last_sync_unix s)) \<and>
     (ntp_state s = NTP_STATE_SUCCESS \<longrightarrow> synced s)"

lemma recv_ok: "ntp_ok s \<Longrightarrow> ntp_ok (ntp_recv_cb build p s)"
proof -
  assume ok: "ntp_ok s"
  show ?thesis
  proof (cases "ntp_accepts build p s \<and> synced s")
    case True
    then have "fst (rollback_check (t_check p) (ntp_time p) s)"
      by (simp add: ntp_accepts_def)
    note b = budget_step(1,2) [OF ok _ this]
    have "rollback_budget_used_s (snd (rollback_check (t_check p) (ntp_time p) s)) \<le> NTP_ROLLBACK_BUDGET_S"
      using b True by (simp add: NTP_ROLLBACK_BUDGET_S_def word_le_nat_alt)
    then show ?thesis
      using True by (simp add: ntp_recv_split ntp_ok_def apply_time_def)
  next
    case False
    then show ?thesis
      using ok by (auto simp: ntp_recv_split ntp_ok_def apply_time_def rollback_check_def)
  qed
qed

lemma ntp_step_inv: "ntp_inv build s \<Longrightarrow> ntp_inv build (ntp_step build s e)"
proof -
  assume i: "ntp_inv build s"
  show ?thesis
  proof (cases e)
    case (DnsFound a alloc nonce)
    then show ?thesis
      using i by (auto simp: dns_found_cb_def ntp_inv_def ntp_ok_def Let_def split: option.split)
  next
    case (Datagram p)
    have "ntp_ok (ntp_recv_cb build p s)"
      using i by (auto simp: ntp_inv_def intro: recv_ok)
    then show ?thesis
      using i Datagram by (auto simp: ntp_inv_def ntp_recv_split ntp_accepts_def apply_time_def)
  qed
qed

interpretation ntpm: inv_machine "ntp_step build" "ntp_inv build" for build
  by unfold_locales (rule ntp_step_inv)

text \<open>C20: a datagram sets the clock exactly when it is accepted: it is a genuine reply to the
  pending request, its time lies between the build time and twenty years after it and, once
  synchronised, not more than five seconds before nor a day after the monotonic projection.
  A genuine reply whose time lies before 1970 fails the sync, and changes nothing else; every
  other datagram leaves the whole state alone.\<close>

theorem ntp_recv_effect:
  assumes "ntp_ok s"
  shows "if ntp_accepts build p s
    then genuine p s \<and> in_band build (ntp_time p)
      \<and> (synced s \<longrightarrow> unat (projected_time (t_check p) s) \<le> unat (ntp_time p) + 5
            \<and> unat (ntp_time p) \<le> unat (projected_time (t_check p) s) + 86400)
      \<and> rtc (ntp_recv_cb build p s) = clock_set_from_unix_time (ntp_time p)
      \<and> last_sync_unix (ntp_recv_cb build p s) = ntp_time p
      \<and> ntp_state (ntp_recv_cb build p s) = NTP_STATE_SUCCESS
    else if genuine p s \<and> be32_at (payload p) 40 < NTP_DELTA
    then ntp_recv_cb build p s = s\<lparr>ntp_state := NTP_STATE_FAILED\<rparr>
    else ntp_recv_cb build p s = s"
proof (cases "ntp_accepts build p s")
  case True
  then have f: "fst (rollback_check (t_check p) (ntp_time p) s)"
    by (simp add: ntp_accepts_def)
  show ?thesis
    using True budget_step(3,4) [OF assms _ f]
    by (simp add: ntp_recv_split apply_time_def) (simp add: ntp_accepts_def)
next
  case False
  then show ?thesis
    by (simp add: ntp_recv_split)
qed

definition backstep :: "u32 \<Rightarrow> 'a ntp \<Rightarrow> 'a ntp_event \<Rightarrow> nat" where
  \<comment> \<open>how far below the monotonic projection an accepted reply sets a synchronised clock\<close>
  "backstep build s e = (case e of
     Datagram p \<Rightarrow> if synced s \<and> ntp_accepts build p s
       then unat (projected_time (t_check p) s) - unat (ntp_time p) else 0
   | _ \<Rightarrow> 0)"

fun total_back :: "u32 \<Rightarrow> 'a ntp \<Rightarrow> 'a ntp_event list \<Rightarrow> nat" where
  "total_back build s [] = 0"
| "total_back build s (e # es) = backstep build s e + total_back build (ntp_step build s e) es"

lemma backstep_charged:
  assumes "ntp_ok s"
  shows "unat (rollback_budget_used_s (ntp_step build s e)) =
    unat (rollback_budget_used_s s) + backstep build s e"
proof (cases e)
  case (DnsFound a alloc nonce)
  then show ?thesis
    by (simp add: backstep_def dns_found_cb_def Let_def split: option.split)
next
  case (Datagram p)
  show ?thesis
  proof (cases "synced s \<and> ntp_accepts build p s")
    case True
    then have "fst (rollback_check (t_check p) (ntp_time p) s)"
      by (simp add: ntp_accepts_def)
    from budget_step(1) [OF assms _ this] show ?thesis
      using True Datagram by (simp add: backstep_def ntp_recv_split apply_time_def)
  next
    case False
    then show ?thesis
      using Datagram by (auto simp: backstep_def ntp_recv_split apply_time_def rollback_check_def)
  qed
qed

text \<open>C14: the backward corrections of one boot, over any sequence of DNS answers and
  datagrams whatever, add up to at most 300 seconds.\<close>

theorem rollback_total_bounded:
  "total_back build (ntp_boot a) es \<le> 300"
proof -
  have "total_back build s es + unat (rollback_budget_used_s s) =
      unat (rollback_budget_used_s (foldl (ntp_step build) s es))" if "ntp_inv build s" for s
    using that
  proof (induction es arbitrary: s)
    case (Cons e es)
    then have "ntp_ok s"
      by (simp add: ntp_inv_def)
    from Cons.IH [OF ntp_step_inv [OF Cons.prems, of e]] backstep_charged [OF this, of build e] show ?case
      by simp
  qed simp
  moreover have b: "ntp_inv build (ntp_boot a)"
    by (simp add: ntp_inv_def ntp_ok_def ntp_boot_def)
  moreover have "unat (rollback_budget_used_s (foldl (ntp_step build) (ntp_boot a) es)) \<le> 300"
    using ntpm.run_inv [OF b, of es]
    by (simp add: ntp_inv_def ntp_ok_def NTP_ROLLBACK_BUDGET_S_def word_le_nat_alt)
  ultimately show ?thesis
    by fastforce
qed

section \<open>The blocking sync\<close>

definition set_by :: "'a ntp_event list \<Rightarrow> 'a ntp \<Rightarrow> bool" where
  \<comment> \<open>a success is owed to one of these events\<close>
  "set_by es s \<longleftrightarrow> (ntp_state s = NTP_STATE_SUCCESS \<longrightarrow>
     (\<exists>p. Datagram p \<in> set es \<and> last_sync_unix s = ntp_time p \<and> last_sync_monotonic_us s = t_apply p))"

lemma set_by_step: "set_by es s \<Longrightarrow> e \<in> set es \<Longrightarrow> set_by es (ntp_step build s e)"
  by (cases e)
     (auto simp: set_by_def dns_found_cb_def ntp_recv_split apply_time_def Let_def split: option.split)

lemma set_by_run: "set_by es s \<Longrightarrow> set p \<subseteq> set es \<Longrightarrow> set_by es (foldl (ntp_step build) s p)"
  by (induction p arbitrary: s) (auto intro: set_by_step)

lemma poll_loop_result:
  "poll_loop build ps lst s = (b, s') \<Longrightarrow> ntp_inv build s \<Longrightarrow> set_by es s \<Longrightarrow>
     set (concat ps) \<subseteq> set es \<Longrightarrow>
     ntp_inv build s' \<and>
     (b \<longrightarrow> set_by es s' \<and> (ntp_state s' = NTP_STATE_SUCCESS \<or> ntp_state s' = NTP_STATE_FAILED))"
proof (induction ps arbitrary: s)
  case Nil
  then show ?case
    by (auto simp: poll_loop.simps [of build "[]"] ntpm.run_inv split: if_splits)
next
  case (Cons p ps)
  show ?case
  proof (cases "ntp_state s = NTP_STATE_SUCCESS \<or> ntp_state s = NTP_STATE_FAILED")
    case True
    then show ?thesis
      using Cons.prems by (auto simp: poll_loop.simps [of build "p # ps"])
  next
    case False
    then have "poll_loop build ps lst (foldl (ntp_step build) s p) = (b, s')"
      using Cons.prems(1) by (simp add: poll_loop.simps [of build "p # ps"])
    from Cons.IH [OF this ntpm.run_inv [OF Cons.prems(2)] set_by_run [OF Cons.prems(3)]]
    show ?thesis
      using Cons.prems(4) by simp
  qed
qed

lemma dns_found_inv: "ntp_inv build s \<Longrightarrow> ntp_inv build (dns_found_cb a alloc nonce s)"
  using ntp_step_inv [of build s "DnsFound a alloc nonce"] by simp

definition sync_start :: "'a sync_env \<Rightarrow> 'a ntp \<Rightarrow> 'a ntp" where
  \<comment> \<open>the state when the poll loop is entered\<close>
  "sync_start e s =
     (let s = s\<lparr>ntp_pcb := True, ntp_state := NTP_STATE_RESOLVING\<rparr> in
      case dns e of
        ERR_OK a alloc nonce \<Rightarrow> dns_found_cb (Some a) alloc nonce (s\<lparr>server_addr := a\<rparr>)
      | _ \<Rightarrow> s)"

lemma ntp_sync_polls:
  assumes "pcb_new e" and "dns e \<noteq> ERR_OTHER"
  shows "ntp_sync build e s =
    (let (ended, s') = poll_loop build (polls e) (last_poll e) (sync_start e s) in
     if \<not> ended then (False, s'\<lparr>ntp_pcb := False\<rparr>)
     else (ntp_state s' = NTP_STATE_SUCCESS, s'\<lparr>ntp_state := NTP_STATE_IDLE, ntp_pcb := False\<rparr>))"
  using assms
  by (cases "ntp_pcb s"; cases "dns e") (simp_all add: ntp_sync_def sync_start_def Let_def split: prod.split)

lemma sync_start_inv: "ntp_inv build s \<Longrightarrow> ntp_inv build (sync_start e s)"
  by (auto simp: sync_start_def Let_def ntp_inv_def ntp_ok_def dns_found_cb_def split: dns_start.split)

lemma sync_start_set_by: "set_by es (sync_start e s)"
  by (simp add: sync_start_def Let_def set_by_def dns_found_cb_def split: dns_start.split)

lemma ntp_sync_outcome:
  assumes "ntp_inv build s" and "ntp_sync build e s = (ok, s')"
  shows "ntp_inv build s' \<and> \<not> ntp_pcb s' \<and>
    (ok \<longrightarrow> ntp_state s' = NTP_STATE_IDLE \<and> synced s' \<and>
       (\<exists>p. Datagram p \<in> set (concat (polls e)) \<and>
            in_band build (ntp_time p) \<and>
            clock_get_unix_time (rtc s') = Some (ntp_time p) \<and>
            last_sync_monotonic_us s' = t_apply p))"
proof (cases "pcb_new e \<and> dns e \<noteq> ERR_OTHER")
  case False
  then have "\<not> ok" "s' = s\<lparr>ntp_pcb := False\<rparr> \<or> s' = s\<lparr>ntp_pcb := False, ntp_state := NTP_STATE_RESOLVING\<rparr>"
    using assms(2) by (auto simp: ntp_sync_def Let_def split: if_splits)
  then show ?thesis
    using assms(1) by (auto simp: ntp_inv_def ntp_ok_def)
next
  case True
  let ?es = "concat (polls e)"
  obtain ended t where l: "poll_loop build (polls e) (last_poll e) (sync_start e s) = (ended, t)"
    by fastforce
  note r = poll_loop_result [OF l sync_start_inv [OF assms(1)] sync_start_set_by order_refl]
  have res: "(ok, s') = (if \<not> ended then (False, t\<lparr>ntp_pcb := False\<rparr>)
      else (ntp_state t = NTP_STATE_SUCCESS, t\<lparr>ntp_state := NTP_STATE_IDLE, ntp_pcb := False\<rparr>))"
    using assms(2) True by (simp add: ntp_sync_polls l)
  have inv: "ntp_inv build s'" "\<not> ntp_pcb s'"
    using r res by (auto simp: ntp_inv_def ntp_ok_def split: if_splits)
  show ?thesis
  proof (cases ok)
    case False
    then show ?thesis
      using inv by simp
  next
    case True
    then have ended: ended and t: "ntp_state t = NTP_STATE_SUCCESS"
      and s': "s' = t\<lparr>ntp_state := NTP_STATE_IDLE, ntp_pcb := False\<rparr>"
      using res by (simp_all split: if_splits)
    obtain p where p: "Datagram p \<in> set ?es" "last_sync_unix t = ntp_time p" "last_sync_monotonic_us t = t_apply p"
      using r ended t by (auto simp: set_by_def)
    have sy: "synced t" "rtc t = clock_set_from_unix_time (ntp_time p)" "in_band build (ntp_time p)"
      using r t p(2) by (simp_all add: ntp_inv_def)
    obtain dt where "clock_set_from_unix_time (ntp_time p) = Some dt" "unix_of_datetime dt = ntp_time p"
      by (rule clock_roundtrip)
    then have "clock_get_unix_time (rtc t) = Some (ntp_time p)"
      using sy(2) by (simp add: clock_get_unix_time_def)
    then show ?thesis
      using inv p sy s' by auto
  qed
qed

text \<open>C26: every path of \<open>ntp_sync\<close> releases its UDP socket and keeps the invariant; when it
  returns true, a reply that one of its polls delivered has set the RTC to its time, and the
  state machine is idle again.\<close>

theorem ntp_sync_result:
  assumes "ntp_inv build s" and "ntp_sync build e s = (ok, s')"
  shows "ntp_inv build s' \<and> \<not> ntp_pcb s' \<and>
    (ok \<longrightarrow> ntp_state s' = NTP_STATE_IDLE \<and> synced s' \<and>
       (\<exists>p. Datagram p \<in> set (concat (polls e)) \<and>
            in_band build (ntp_time p) \<and>
            clock_get_unix_time (rtc s') = Some (ntp_time p) \<and>
            last_sync_monotonic_us s' = t_apply p))"
  by (rule ntp_sync_outcome [OF assms])

subsection \<open>Datagrams that are not the reply\<close>

definition spoofed :: "'a ntp \<Rightarrow> 'a ntp_event \<Rightarrow> bool" where
  \<comment> \<open>a datagram that is not a genuine reply in the state it arrives in\<close>
  "spoofed s x \<longleftrightarrow> (case x of Datagram p \<Rightarrow> \<not> genuine p s | DnsFound _ _ _ \<Rightarrow> False)"

fun heard :: "u32 \<Rightarrow> 'a ntp \<Rightarrow> 'a ntp_event list \<Rightarrow> 'a ntp_event list" where
  \<comment> \<open>the events without the spoofed datagrams\<close>
  "heard build s [] = []"
| "heard build s (x # es) =
     (if spoofed s x then heard build (ntp_step build s x) es
      else x # heard build (ntp_step build s x) es)"

fun heard_polls :: "u32 \<Rightarrow> 'a ntp \<Rightarrow> 'a ntp_event list list \<Rightarrow> 'a ntp_event list list" where
  "heard_polls build s [] = []"
| "heard_polls build s (p # ps) = heard build s p # heard_polls build (foldl (ntp_step build) s p) ps"

definition heard_env :: "u32 \<Rightarrow> 'a ntp \<Rightarrow> 'a sync_env \<Rightarrow> 'a sync_env" where
  \<comment> \<open>the same sync without the spoofed datagrams\<close>
  "heard_env build s e =
     e\<lparr>polls := heard_polls build (sync_start e s) (polls e),
       last_poll := heard build (foldl (ntp_step build) (sync_start e s) (concat (polls e))) (last_poll e)\<rparr>"

lemma spoofed_step: "spoofed s x \<Longrightarrow> ntp_step build s x = s"
  by (auto simp: spoofed_def ntp_recv_split ntp_accepts_def split: ntp_event.splits)

lemma foldl_heard: "foldl (ntp_step build) s (heard build s es) = foldl (ntp_step build) s es"
  by (induction es arbitrary: s) (auto simp: spoofed_step)

lemma poll_loop_heard:
  "poll_loop build (heard_polls build s ps) (heard build (foldl (ntp_step build) s (concat ps)) lst) s =
     poll_loop build ps lst s"
proof (induction ps arbitrary: s)
  case Nil
  then show ?case
    by (simp add: poll_loop.simps [of build "[]"] foldl_heard)
next
  case (Cons p ps)
  then show ?case
    by (simp add: poll_loop.simps [of build "_ # _"] foldl_heard)
qed

definition sync_ended :: "'a ntp \<Rightarrow> bool" where
  "sync_ended s \<longleftrightarrow> ntp_state s = NTP_STATE_SUCCESS \<or> ntp_state s = NTP_STATE_FAILED"

lemma poll_loop_ends:
  assumes "concat (take n ps) = es" and "sync_ended (foldl (ntp_step build) s es)"
    and "\<forall>k < length es. \<not> sync_ended (foldl (ntp_step build) s (take k es))"
  shows "poll_loop build ps lst s = (True, foldl (ntp_step build) s es)"
  using assms
proof (induction ps arbitrary: n s es)
  case Nil
  then show ?case
    by (simp add: poll_loop.simps [of build "[]"] sync_ended_def)
next
  case (Cons p ps)
  show ?case
  proof (cases "sync_ended s")
    case True
    then have "es = []"
      using Cons.prems(3) by (cases es) auto
    then show ?thesis
      using True by (simp add: poll_loop.simps [of build "p # ps"] sync_ended_def)
  next
    case False
    then have "es \<noteq> []"
      using Cons.prems(2) by auto
    then obtain m where n: "n = Suc m"
      using Cons.prems(1) by (cases n) auto
    then have es: "es = p @ concat (take m ps)"
      using Cons.prems(1) by simp
    have "\<not> sync_ended (foldl (ntp_step build) (foldl (ntp_step build) s p) (take k (concat (take m ps))))"
      if "k < length (concat (take m ps))" for k
      using Cons.prems(3) [rule_format, of "length p + k"] that by (simp add: es)
    then have "poll_loop build ps lst (foldl (ntp_step build) s p) = (True, foldl (ntp_step build) s es)"
      using Cons.IH [of m "concat (take m ps)" "foldl (ntp_step build) s p"] Cons.prems(2) by (simp add: es)
    then show ?thesis
      using False by (simp add: poll_loop.simps [of build "p # ps"] sync_ended_def)
  qed
qed

lemma ntp_sync_heard: "ntp_sync build (heard_env build s e) s = ntp_sync build e s"
proof -
  have "sync_start (heard_env build s e) s = sync_start e s"
    by (simp add: sync_start_def heard_env_def)
  then show ?thesis
    using poll_loop_heard [of build "sync_start e s" "polls e" "last_poll e"]
    by (cases "pcb_new e \<and> dns e \<noteq> ERR_OTHER")
       (auto simp: ntp_sync_polls heard_env_def, auto simp: ntp_sync_def Let_def)
qed

lemma heard_reply_succeeds:
  assumes "pcb_new e" and "dns e \<noteq> ERR_OTHER"
    and "concat (take n (polls (heard_env build s e))) = es @ [Datagram p]"
    and "\<forall>k \<le> length es. \<not> sync_ended (foldl (ntp_step build) (sync_start e s) (take k es))"
    and "ntp_accepts build p (foldl (ntp_step build) (sync_start e s) es)"
  shows "fst (ntp_sync build e s) \<and> last_sync_unix (snd (ntp_sync build e s)) = ntp_time p"
proof -
  let ?t = "foldl (ntp_step build) (sync_start e s) (es @ [Datagram p])"
  have t: "ntp_state ?t = NTP_STATE_SUCCESS" "last_sync_unix ?t = ntp_time p"
    using assms(5) by (simp_all add: ntp_recv_split apply_time_def)
  have "poll_loop build (polls (heard_env build s e)) (last_poll (heard_env build s e)) (sync_start e s) = (True, ?t)"
    by (rule poll_loop_ends [OF assms(3)]) (use t(1) assms(4) in \<open>auto simp: sync_ended_def less_Suc_eq_le\<close>)
  then have "poll_loop build (polls e) (last_poll e) (sync_start e s) = (True, ?t)"
    by (simp add: heard_env_def poll_loop_heard)
  then show ?thesis
    using assms(1,2) t by (simp add: ntp_sync_polls)
qed

lemma request_out:
  "ntp_state (dns_found_cb (Some a) True nonce s) = NTP_STATE_WAITING"
  "dns e = ERR_OK a True nonce \<Longrightarrow> ntp_state (sync_start e s) = NTP_STATE_WAITING"
  "dns e = ERR_INPROGRESS \<Longrightarrow> ntp_state (sync_start e s) = NTP_STATE_RESOLVING"
  by (simp_all add: sync_start_def dns_found_cb_def Let_def)

text \<open>C29: datagrams that are not the genuine reply cannot make a sync fail, wherever they arrive,
  before the DNS answer, between it and the reply or in the same poll: the whole sync does
  exactly what it does without them. So it succeeds, and sets the time of the reply, whenever
  what is left of the polls before the deadline is up to some poll the acceptable reply (the
  name server's answer was cached) or the name server's answer and then the acceptable
  reply.\<close>

theorem spoofed_datagrams_cannot_abort:
  "ntp_sync build (heard_env build s e) s = ntp_sync build e s
   \<and> (pcb_new e \<and> dns e = ERR_OK a True nonce
        \<and> concat (take n (polls (heard_env build s e))) = [Datagram p]
        \<and> ntp_accepts build p (sync_start e s)
      \<longrightarrow> fst (ntp_sync build e s) \<and> last_sync_unix (snd (ntp_sync build e s)) = ntp_time p)
   \<and> (pcb_new e \<and> dns e = ERR_INPROGRESS
        \<and> concat (take n (polls (heard_env build s e))) = [DnsFound (Some a) True nonce, Datagram p]
        \<and> ntp_accepts build p (dns_found_cb (Some a) True nonce (sync_start e s))
      \<longrightarrow> fst (ntp_sync build e s) \<and> last_sync_unix (snd (ntp_sync build e s)) = ntp_time p)"
proof (intro conjI impI)
  assume "pcb_new e \<and> dns e = ERR_OK a True nonce
    \<and> concat (take n (polls (heard_env build s e))) = [Datagram p] \<and> ntp_accepts build p (sync_start e s)"
  then show "fst (ntp_sync build e s)" "last_sync_unix (snd (ntp_sync build e s)) = ntp_time p"
    using heard_reply_succeeds [of e n build s "[]" p]
    by (auto simp: sync_ended_def request_out)
next
  assume "pcb_new e \<and> dns e = ERR_INPROGRESS
    \<and> concat (take n (polls (heard_env build s e))) = [DnsFound (Some a) True nonce, Datagram p]
    \<and> ntp_accepts build p (dns_found_cb (Some a) True nonce (sync_start e s))"
  then show "fst (ntp_sync build e s)" "last_sync_unix (snd (ntp_sync build e s)) = ntp_time p"
    using heard_reply_succeeds [of e n build s "[DnsFound (Some a) True nonce]" p]
    by (auto simp: le_Suc_eq sync_ended_def request_out)
qed (rule ntp_sync_heard)

section \<open>Witnesses\<close>

definition reply :: "u8 \<Rightarrow> u16 datagram" where
  \<comment> \<open>a reply of mode \<open>m\<close> to the all-zero nonce, for the time 1700102528\<close>
  "reply m = \<lparr>payload = [0x18 + m, 1] @ replicate 38 0 @ [0xE9, 0, 0, 0] @ replicate 4 0,
     from_addr = 7, from_port = 123, t_check = 1000000, t_apply = 1000001\<rparr>"

definition reply_env :: "u16 sync_env" where
  "reply_env = \<lparr>pcb_new = True, dns = ERR_OK 7 True 0,
     polls = [[Datagram (reply 3)], [Datagram (reply 4)]], last_poll = []\<rparr>"

lemma reply_bytes:
  "length (payload (reply m)) = 48" "payload (reply m) ! 0 = 0x18 + m" "payload (reply m) ! 1 = 1"
  "take 8 (drop 24 (take 48 (payload (reply m)))) = replicate 8 0"
  "be32_at (payload (reply m)) 40 = 0xE9000000"
  by (simp_all add: reply_def be32_at_def nth_append min_def)

lemma reply_time: "ntp_time (reply m) = 1700102528"
  by (simp add: ntp_time_def reply_bytes NTP_DELTA_def)

lemma reply_genuine:
  "server_addr s = 7 \<Longrightarrow> ntp_nonce s = replicate 8 0 \<Longrightarrow> genuine (reply 4) s"
  "\<not> genuine (reply 3) s"
  by (simp_all add: genuine_def reply_bytes) (simp_all add: reply_def)

lemma reply_in_band: "in_band 1700000000 1700102528"
  by (simp add: in_band_def)

lemma reply_accepted:
  "server_addr s = 7 \<Longrightarrow> ntp_nonce s = replicate 8 0 \<Longrightarrow> \<not> synced s \<Longrightarrow>
     ntp_accepts 1700000000 (reply 4) s"
  by (simp add: ntp_accepts_def reply_genuine reply_time reply_in_band rollback_check_def
      reply_bytes NTP_DELTA_def)

lemma reply_start:
  "server_addr (sync_start reply_env (ntp_boot 7)) = 7"
  "ntp_nonce (sync_start reply_env (ntp_boot 7)) = replicate 8 0"
  "\<not> synced (sync_start reply_env (ntp_boot 7))"
  by (simp_all add: sync_start_def reply_env_def dns_found_cb_def ntp_boot_def Let_def
      ntp_request_def le64_def upt_rec numeral_eq_Suc)

lemma boot_ok: "ntp_ok (ntp_boot a)" "ntp_inv build (ntp_boot a)"
  by (simp_all add: ntp_ok_def ntp_inv_def ntp_boot_def)

theorem ntp_recv_effect_witness:
  "genuine (reply 4) (ntp_boot 7)
   \<and> last_sync_unix (ntp_recv_cb 1700000000 (reply 4) (ntp_boot 7)) = 1700102528"
proof -
  have "ntp_accepts 1700000000 (reply 4) (ntp_boot 7)"
    by (rule reply_accepted) (simp_all add: ntp_boot_def)
  then show ?thesis
    using ntp_recv_effect [OF boot_ok(1), of 1700000000 "reply 4" 7] by (simp add: reply_time)
qed

definition first_env :: "u16 sync_env" where
  \<comment> \<open>a first sync: spoofed datagrams before and after the name server's answer, and on both
      sides of the reply in its poll\<close>
  "first_env = \<lparr>pcb_new = True, dns = ERR_INPROGRESS,
     polls = [[Datagram (reply 3)], [DnsFound (Some 7) True 0, Datagram (reply 3)], [],
              [Datagram (reply 3), Datagram (reply 4), Datagram (reply 3)]], last_poll = []\<rparr>"

lemma first_heard:
  "concat (take 4 (polls (heard_env 1700000000 (ntp_boot 7) first_env))) = [DnsFound (Some 7) True 0, Datagram (reply 4)]"
proof -
  let ?s = "sync_start first_env (ntp_boot 7)" and ?d = "dns_found_cb (Some 7) True 0"
  have d: "server_addr (?d ?s) = 7" "ntp_nonce (?d ?s) = replicate 8 0"
    by (simp_all add: dns_found_cb_def ntp_request_def le64_def upt_rec numeral_eq_Suc)
  have j: "spoofed t (Datagram (reply 3))" "ntp_recv_cb 1700000000 (reply 3) t = t" for t
    using reply_genuine(2) [of t] by (simp_all add: spoofed_def ntp_recv_split ntp_accepts_def)
  have "\<not> spoofed (?d ?s) (Datagram (reply 4))"
    using reply_genuine(1) [OF d] by (simp add: spoofed_def)
  moreover have "\<not> spoofed t (DnsFound a m n)" for t :: "u16 ntp" and a m n
    by (simp add: spoofed_def)
  moreover have "polls first_env = [[Datagram (reply 3)], [DnsFound (Some 7) True 0, Datagram (reply 3)], [],
      [Datagram (reply 3), Datagram (reply 4), Datagram (reply 3)]]"
    by (simp add: first_env_def)
  ultimately show ?thesis
    by (simp add: heard_env_def j)
qed

theorem spoofed_datagrams_cannot_abort_witness:
  "fst (ntp_sync 1700000000 first_env (ntp_boot 7))
   \<and> last_sync_unix (snd (ntp_sync 1700000000 first_env (ntp_boot 7))) = 1700102528"
proof -
  have "ntp_accepts 1700000000 (reply 4) (dns_found_cb (Some 7) True 0 (sync_start first_env (ntp_boot 7)))"
    by (rule reply_accepted)
      (simp_all add: sync_start_def first_env_def dns_found_cb_def ntp_boot_def Let_def ntp_request_def
        le64_def upt_rec numeral_eq_Suc)
  moreover have "pcb_new first_env" "dns first_env = ERR_INPROGRESS"
    by (simp_all add: first_env_def)
  ultimately show ?thesis
    using spoofed_datagrams_cannot_abort [of 1700000000 "ntp_boot 7" first_env 7 0 4 "reply 4"] first_heard
    by (simp add: reply_time)
qed

lemma reply_sync: "ntp_sync 1700000000 reply_env (ntp_boot 7)
   = (True, snd (ntp_sync 1700000000 reply_env (ntp_boot 7)))"
proof -
  let ?t = "sync_start reply_env (ntp_boot 7)"
  have e: "pcb_new reply_env" "dns reply_env \<noteq> ERR_OTHER"
    "polls reply_env = [[Datagram (reply 3)], [Datagram (reply 4)]]"
    by (simp_all add: reply_env_def)
  have w: "ntp_state ?t = NTP_STATE_WAITING"
    by (simp add: sync_start_def reply_env_def dns_found_cb_def Let_def)
  have junk: "ntp_recv_cb 1700000000 (reply 3) ?t = ?t"
    using reply_genuine(2) by (simp add: ntp_recv_split ntp_accepts_def)
  have good: "ntp_state (ntp_recv_cb 1700000000 (reply 4) ?t) = NTP_STATE_SUCCESS"
    using reply_accepted [OF reply_start] by (simp add: ntp_recv_split)
  have "fst (ntp_sync 1700000000 reply_env (ntp_boot 7))"
    unfolding ntp_sync_polls [OF e(1,2)] e(3)
    by (simp add: poll_loop.simps w junk good)
  then show ?thesis
    by (simp add: prod_eq_iff)
qed

theorem ntp_sync_result_witness:
  "\<not> ntp_pcb (snd (ntp_sync 1700000000 reply_env (ntp_boot 7)))
   \<and> synced (snd (ntp_sync 1700000000 reply_env (ntp_boot 7)))"
  using ntp_sync_result [OF boot_ok(2) reply_sync] by blast

end
