(* ===== verification/Secret.thy ===== *)
theory Secret imports Ntp
begin

text \<open>
  \<open>shared/random.c\<close>: the secret of a new key. \<open>pico_rand\<close>, the board identifier and mbedTLS's
  HMAC-DRBG are outside the repository: the successive results of \<open>get_rand_64\<close> are the
  argument \<open>rng\<close>, the DRBG the record \<open>drbg_api\<close>. The seed on the stack and its wipe are not
  state of the model.
\<close>

definition SECRET_DRBG_DRAWS :: nat where
  "SECRET_DRBG_DRAWS = 64"

definition PICO_UNIQUE_BOARD_ID_SIZE_BYTES :: nat where
  "PICO_UNIQUE_BOARD_ID_SIZE_BYTES = 8"

record 'c drbg_api =
  md_sha256 :: bool  \<comment> \<open>\<open>mbedtls_md_info_from_type\<close> is not NULL\<close>
  seed_buf :: "u8 list \<Rightarrow> int \<times> 'c"
  drbg_random :: "'c \<Rightarrow> nat \<Rightarrow> int \<times> u8 list"
    \<comment> \<open>the return code and the first bytes of the output buffer afterwards\<close>

definition seed_pool :: "(nat \<Rightarrow> u64) \<Rightarrow> u8 list \<Rightarrow> u8 list" where
  "seed_pool rng board = concat (map (le64 \<circ> rng) [0..<SECRET_DRBG_DRAWS]) @ board"

definition generate_secret ::
  "'c drbg_api \<Rightarrow> (nat \<Rightarrow> u64) \<Rightarrow> u8 list \<Rightarrow> u8 list \<Rightarrow> u8 list" where
  \<comment> \<open>the last argument is the output buffer before the call, the result the buffer after it\<close>
  "generate_secret D rng board out =
     (if out = [] then out
      else let seed = seed_pool rng board in
      if \<not> md_sha256 D then secure_wipe (length out) out
      else let (rc, ctx) = seed_buf D seed in
      if rc \<noteq> 0 then secure_wipe (length out) out
      else let (rc, bytes) = drbg_random D ctx (length out); out = overwrite bytes out in
      if rc \<noteq> 0 then secure_wipe (length out) out
      else out)"

definition drbg_sound :: "'c drbg_api \<Rightarrow> bool" where
  \<comment> \<open>the generator writes inside the buffer, and all of it when it succeeds\<close>
  "drbg_sound D \<longleftrightarrow>
     (\<forall>ctx n rc bs. drbg_random D ctx n = (rc, bs) \<longrightarrow> length bs \<le> n \<and> (rc = 0 \<longrightarrow> length bs = n))"

lemma length_le64: "length (le64 w) = 8"
  by (simp add: le64_def)

lemma length_seed_pool: "length (seed_pool rng board) = 512 + length board"
proof -
  have "length (concat (map (le64 \<circ> rng) [0..<n])) = 8 * n" for n
    by (induction n) (simp_all add: length_le64)
  then show ?thesis
    by (simp add: seed_pool_def SECRET_DRBG_DRAWS_def)
qed

lemma length_generate_secret:
  assumes "drbg_sound D"
  shows "length (generate_secret D rng board out) = length out"
proof -
  have "length (overwrite bs out) = length out" if "drbg_random D ctx (length out) = (rc, bs)" for ctx rc bs
    using assms that by (auto simp: drbg_sound_def intro!: length_overwrite)
  then show ?thesis
    by (auto simp: generate_secret_def secure_wipe_eq Let_def split: prod.split)
qed

text \<open>C28: a generated secret is the DRBG's output on the whole pool of sixty-four draws and the
  board identifier, or, when the digest is missing or seeding or generating fails, all
  zeros: never the pool, nor what the buffer held, nor a partial output.\<close>

theorem generate_secret_fail_closed:
  assumes "drbg_sound D" and "out \<noteq> []"
  shows "length (generate_secret D rng board out) = length out
    \<and> length (seed_pool rng board) = 512 + length board
    \<and> generate_secret D rng board out =
       (if md_sha256 D \<and> fst (seed_buf D (seed_pool rng board)) = 0
           \<and> fst (drbg_random D (snd (seed_buf D (seed_pool rng board))) (length out)) = 0
        then snd (drbg_random D (snd (seed_buf D (seed_pool rng board))) (length out))
        else replicate (length out) 0)"
proof -
  have len: "length bs \<le> length out \<and> (rc = 0 \<longrightarrow> length bs = length out)"
    if "drbg_random D ctx (length out) = (rc, bs)" for ctx rc bs
    using assms(1) that by (auto simp: drbg_sound_def)
  have "generate_secret D rng board out =
       (if md_sha256 D \<and> fst (seed_buf D (seed_pool rng board)) = 0
           \<and> fst (drbg_random D (snd (seed_buf D (seed_pool rng board))) (length out)) = 0
        then snd (drbg_random D (snd (seed_buf D (seed_pool rng board))) (length out))
        else replicate (length out) 0)"
  proof -
    obtain r1 ctx where s: "seed_buf D (seed_pool rng board) = (r1, ctx)"
      by fastforce
    obtain r2 bs where g: "drbg_random D ctx (length out) = (r2, bs)"
      by fastforce
    show ?thesis
      using assms(2) len [OF g]
      by (auto simp: generate_secret_def s g overwrite_def secure_wipe_eq Let_def)
  qed
  then show ?thesis
    using length_generate_secret [OF assms(1)] length_seed_pool by blast
qed

definition len_drbg :: "int \<Rightarrow> nat drbg_api" where
  \<comment> \<open>a generator to evaluate with: the length of its seed, over and over\<close>
  "len_drbg rc = \<lparr>md_sha256 = True, seed_buf = (\<lambda>seed. (0, length seed)),
     drbg_random = (\<lambda>k n. (rc, replicate n (of_nat k)))\<rparr>"

lemma len_drbg_sound: "drbg_sound (len_drbg rc)"
  by (simp add: drbg_sound_def len_drbg_def)

theorem generate_secret_fail_closed_witness:
  "generate_secret (len_drbg 0) (\<lambda>i. of_nat i) (replicate 8 9) [1, 2, 3] = [8, 8, 8]
   \<and> generate_secret (len_drbg (-1)) (\<lambda>i. of_nat i) (replicate 8 9) [1, 2, 3] = [0, 0, 0]"
  using generate_secret_fail_closed [OF len_drbg_sound, of "[1, 2, 3]" 0 "\<lambda>i. of_nat i" "replicate 8 9"]
    generate_secret_fail_closed [OF len_drbg_sound, of "[1, 2, 3]" "-1" "\<lambda>i. of_nat i" "replicate 8 9"]
  by (simp add: len_drbg_def length_seed_pool)

end
