(* ===== verification/Wifi.thy ===== *)
theory Wifi imports Text Keystore
begin

text \<open>
  \<open>network/wifi.c\<close>: connecting, the link check and the periodic task. The CYW43 driver is
  outside the repository: what it answers is the record \<open>cyw43\<close>. The static state is
  \<open>wifi_state\<close>; the console output is in the effects.
\<close>

record cyw43 =
  arch_init :: int  \<comment> \<open>\<open>cyw43_arch_init\<close>\<close>
  connect_rc :: "string \<Rightarrow> string \<Rightarrow> int"  \<comment> \<open>\<open>cyw43_arch_wifi_connect_timeout_ms\<close>\<close>
  link_up :: bool

datatype wifi_log_state_t =
    WIFI_LOG_STATE_UNKNOWN
  | WIFI_LOG_STATE_CONNECTED
  | WIFI_LOG_STATE_NO_CREDENTIALS
  | WIFI_LOG_STATE_RETRY_FAILED

record wifi_state =
  initialised :: bool
  next_check :: u64
  last_logged_state :: wifi_log_state_t

definition wifi_boot :: wifi_state where
  "wifi_boot = \<lparr>initialised = False, next_check = 0, last_logged_state = WIFI_LOG_STATE_UNKNOWN\<rparr>"

definition wifi_connect :: "cyw43 \<Rightarrow> string \<Rightarrow> string \<Rightarrow> wifi_state \<Rightarrow> bool \<times> effect list \<times> wifi_state" where
  "wifi_connect R network passphrase w =
     (if \<not> initialised w \<and> arch_init R \<noteq> 0
      then (False, [Out (''[wifi] failed to init cyw43'' @ CRLF)], w)
      else let w = w\<lparr>initialised := True\<rparr>;
               es = [Out (''[wifi] connecting to '' @ quoted (cstr network) @ ''...'' @ CRLF)];
               rc = connect_rc R (cstr network) (cstr passphrase)
           in if rc \<noteq> 0 then (False, es @ [Out (''[wifi] connect failed: '' @ sdec rc @ CRLF)], w)
              else (True, es @ [Out (''[wifi] connected'' @ CRLF)], w))"

definition wifi_is_connected :: "cyw43 \<Rightarrow> wifi_state \<Rightarrow> bool" where
  "wifi_is_connected R w = (initialised w \<and> link_up R)"

definition wifi_task ::
  "('fs, 'f) lfs_api \<Rightarrow> cyw43 \<Rightarrow> u64 \<Rightarrow> u64 \<Rightarrow> wifi_state \<times> 'fs store \<Rightarrow> effect list \<times> wifi_state \<times> 'fs store" where
  \<comment> \<open>the times of \<open>time_reached\<close> and of \<open>make_timeout_time_ms\<close>\<close>
  "wifi_task L R now now2 e =
     (let (w, st) = e in
      if now < next_check w then ([], w, st)
      else let w = w\<lparr>next_check := now2 + 30000000\<rparr> in
      if wifi_is_connected R w then ([], w\<lparr>last_logged_state := WIFI_LOG_STATE_CONNECTED\<rparr>, st)
      else case storage_wifi_get L st of
        (None, st) \<Rightarrow>
          (if last_logged_state w \<noteq> WIFI_LOG_STATE_NO_CREDENTIALS
           then [Out (''[wifi] no credentials stored - not retrying'' @ CRLF)] else [],
           w\<lparr>last_logged_state := WIFI_LOG_STATE_NO_CREDENTIALS\<rparr>, st)
      | (Some cfg, st) \<Rightarrow>
          let es = (if last_logged_state w \<noteq> WIFI_LOG_STATE_RETRY_FAILED
                    then [Out (''[wifi] connection lost, reconnecting...'' @ CRLF)] else []);
              (ok, fs, w) = wifi_connect R (ssid cfg) (password cfg) w
          in if ok then (es @ fs @ [Out (''[wifi] reconnected'' @ CRLF)],
                         w\<lparr>last_logged_state := WIFI_LOG_STATE_CONNECTED\<rparr>, st)
             else (es @ fs @ [Out (''[wifi] reconnect failed'' @ CRLF)],
                   w\<lparr>last_logged_state := WIFI_LOG_STATE_RETRY_FAILED\<rparr>, st))"

record task_call =
  call_radio :: cyw43
  call_now :: u64
  call_now2 :: u64

fun wifi_tasks :: "('fs, 'f) lfs_api \<Rightarrow> task_call list \<Rightarrow> wifi_state \<times> 'fs store \<Rightarrow> effect list \<times> wifi_state \<times> 'fs store" where
  "wifi_tasks L [] e = ([], e)"
| "wifi_tasks L (c # cs) e =
     (let (es, e) = wifi_task L (call_radio c) (call_now c) (call_now2 c) e;
          (fs, e) = wifi_tasks L cs e
      in (es @ fs, e))"

section \<open>The task\<close>

lemma wifi_get_spec:
  assumes L: "lfs_laws L V" and g: "storage_wifi_get L st = (c, st')"
  shows "same_volume V (lfs st) (lfs st')" and "mounted st' = mounted st"
    and "c = Some cfg \<Longrightarrow> FILE_WIFI \<in> dom (files V (lfs st))"
proof -
  obtain r st1 where r: "read_file L FILE_WIFI SIZEOF_WIFI st = (r, st1)"
    by fastforce
  note sp = read_file_spec [OF L r]
  have "same_volume V (lfs st) (lfs st') \<and> mounted st' = mounted st \<and>
      (c = Some cfg \<longrightarrow> FILE_WIFI \<in> dom (files V (lfs st)))"
    using g sp by (auto simp: storage_wifi_get_def r Let_def same_volume_def split: if_splits option.splits)
  then show "same_volume V (lfs st) (lfs st')" "mounted st' = mounted st"
    "c = Some cfg \<Longrightarrow> FILE_WIFI \<in> dom (files V (lfs st))"
    by blast+
qed

lemma wifi_task_store:
  assumes L: "lfs_laws L V" and t: "wifi_task L R now now2 (w, st) = (es, w', st')"
  shows "same_volume V (lfs st) (lfs st')" and "mounted st' = mounted st"
proof -
  obtain c st1 where g: "storage_wifi_get L st = (c, st1)"
    by fastforce
  have "st' = st \<or> st' = st1"
    using t by (auto simp: wifi_task_def g Let_def split: if_splits option.splits prod.splits)
  then show "same_volume V (lfs st) (lfs st')" "mounted st' = mounted st"
    using wifi_get_spec [OF L g] by (auto simp: same_volume_def)
qed

definition no_credentials :: "('fs, 'f) lfs_view \<Rightarrow> 'fs store \<Rightarrow> bool" where
  "no_credentials V st \<longleftrightarrow> files V (lfs st) FILE_WIFI = None"

lemma wifi_task_quiet:
  assumes L: "lfs_laws L V" and n: "no_credentials V st" and d: "\<not> link_up R"
    and t: "wifi_task L R now now2 (w, st) = (es, w', st')"
  shows "no_credentials V st'"
    and "es = [] \<and> last_logged_state w' = last_logged_state w \<or>
      last_logged_state w' = WIFI_LOG_STATE_NO_CREDENTIALS \<and>
      length es = (if last_logged_state w = WIFI_LOG_STATE_NO_CREDENTIALS then 0 else 1)"
proof -
  show "no_credentials V st'"
    using wifi_task_store(1) [OF L t] n by (simp add: no_credentials_def same_volume_def)
  obtain c st1 where g: "storage_wifi_get L st = (c, st1)"
    by fastforce
  have "c = None"
    using wifi_get_spec(3) [OF L g] n by (cases c) (auto simp: no_credentials_def)
  then show "es = [] \<and> last_logged_state w' = last_logged_state w \<or>
      last_logged_state w' = WIFI_LOG_STATE_NO_CREDENTIALS \<and>
      length es = (if last_logged_state w = WIFI_LOG_STATE_NO_CREDENTIALS then 0 else 1)"
    using t d by (auto simp: wifi_task_def g wifi_is_connected_def Let_def split: if_splits)
qed

text \<open>The periodic task never changes what is stored, does nothing before its next check,
  sets that check thirty seconds ahead when it runs; and as long as no credentials are
  stored and the link is down, any number of its calls prints at most one line.\<close>

theorem wifi_task_quiet_without_credentials:
  assumes L: "lfs_laws L V" and n: "no_credentials V st" and d: "\<forall>c \<in> set cs. \<not> link_up (call_radio c)"
  shows "length (fst (wifi_tasks L cs (w, st))) \<le> 1
    \<and> same_volume V (lfs st) (lfs (snd (snd (wifi_tasks L cs (w, st)))))
    \<and> (now < next_check w \<longrightarrow> wifi_task L R now now2 (w, st) = ([], w, st))
    \<and> (\<not> now < next_check w \<longrightarrow> next_check (fst (snd (wifi_task L R now now2 (w, st)))) = now2 + 30000000)"
proof -
  have r: "length (fst (wifi_tasks L cs (w, st))) \<le>
        (if last_logged_state w = WIFI_LOG_STATE_NO_CREDENTIALS then 0 else 1)
      \<and> same_volume V (lfs st) (lfs (snd (snd (wifi_tasks L cs (w, st)))))"
    using n d
  proof (induction cs arbitrary: w st)
    case Nil
    then show ?case
      by (simp add: same_volume_def)
  next
    case (Cons c cs)
    obtain es w1 st1 where t: "wifi_task L (call_radio c) (call_now c) (call_now2 c) (w, st) = (es, w1, st1)"
      by (metis prod_cases3)
    note q = wifi_task_quiet [OF L Cons.prems(1) _ t] and s = wifi_task_store(1) [OF L t]
    obtain fs w2 st2 where ts: "wifi_tasks L cs (w1, st1) = (fs, w2, st2)"
      by (metis prod_cases3)
    have "length fs \<le> (if last_logged_state w1 = WIFI_LOG_STATE_NO_CREDENTIALS then 0 else 1)
        \<and> same_volume V (lfs st1) (lfs st2)"
      using Cons.IH [of st1 w1] Cons.prems(2) q(1) ts by simp
    then show ?case
      using q(2) Cons.prems(2) s by (auto simp: t ts same_volume_def split: if_splits)
  qed
  have "next_check (fst (snd (wifi_task L R now now2 (w, st)))) = now2 + 30000000" if "\<not> now < next_check w"
    using that by (auto simp: wifi_task_def wifi_connect_def Let_def split: option.splits prod.splits)
  then show ?thesis
    using r by (auto simp: wifi_task_def split: if_splits)
qed

definition dead_radio :: cyw43 where
  "dead_radio = \<lparr>arch_init = 0, connect_rc = (\<lambda>_ _. -1), link_up = False\<rparr>"

theorem wifi_task_quiet_without_credentials_witness:
  "length (fst (wifi_tasks ram_api
      [\<lparr>call_radio = dead_radio, call_now = 10, call_now2 = 11\<rparr>,
       \<lparr>call_radio = dead_radio, call_now = 30000011, call_now2 = 30000012\<rparr>] (wifi_boot, ram_store))) \<le> 1"
proof -
  let ?cs = "[\<lparr>call_radio = dead_radio, call_now = 10, call_now2 = 11\<rparr>,
       \<lparr>call_radio = dead_radio, call_now = 30000011, call_now2 = 30000012\<rparr>]"
  have "no_credentials ram_view ram_store" "\<forall>c \<in> set ?cs. \<not> link_up (call_radio c)"
    by (simp_all add: no_credentials_def ram_view_def ram_store_def dead_radio_def)
  from wifi_task_quiet_without_credentials [OF ram_laws this] show ?thesis
    by blast
qed

end
