(* ===== verification/Backup.thy ===== *)
theory Backup imports Keystore
begin

text \<open>
  \<open>storage/backup.c\<close> and \<open>storage/backup.h\<close>: the packed binary image of the key database, its
  export and the gates of its import. The static record arrays are scratch: they are filled
  by the listing and wiped before the functions return, so they are local here. The result
  -1 of the export is \<open>None\<close>, the number of bytes written is the length of the blob.
\<close>

section \<open>Format\<close>

definition BACKUP_MAGIC :: u32 where
  "BACKUP_MAGIC = 0x4C4C5348"

definition BACKUP_VERSION :: u32 where
  "BACKUP_VERSION = 1"

definition BACKUP_MAX_KEYS :: nat where
  "BACKUP_MAX_KEYS = KEY_MAX_COUNT"

record backup_header_t =
  magic :: u32
  version :: u32
  key_count :: u32
  checksum :: u32

record backup_key_t =
  b_id :: u16
  b_name :: string
  b_secret :: "u8 list"
  b_is_enabled :: u8
  b_is_admin :: u8
  b_created_at :: u32

definition SIZEOF_HEADER :: nat where
  "SIZEOF_HEADER = 16"

definition SIZEOF_BACKUP_KEY :: nat where
  "SIZEOF_BACKUP_KEY = 44"

definition header_image :: "backup_header_t \<Rightarrow> u8 list" where
  "header_image h = le32 (magic h) @ le32 (version h) @ le32 (key_count h) @ le32 (checksum h)"

definition of_header_image :: "u8 list \<Rightarrow> backup_header_t" where
  "of_header_image bs =
     \<lparr>magic = of_le32 (take 4 bs), version = of_le32 (take 4 (drop 4 bs)),
      key_count = of_le32 (take 4 (drop 8 bs)), checksum = of_le32 (take 4 (drop 12 bs))\<rparr>"

definition key_image :: "backup_key_t \<Rightarrow> u8 list" where
  "key_image b = le16 (b_id b) @ map byte_of_char (b_name b) @ b_secret b @
     [b_is_enabled b, b_is_admin b] @ le32 (b_created_at b)"

definition of_key_image :: "u8 list \<Rightarrow> backup_key_t" where
  "of_key_image bs =
     \<lparr>b_id = of_le16 (take 2 bs), b_name = map char_of_byte (take 16 (drop 2 bs)),
      b_secret = take 20 (drop 18 bs), b_is_enabled = bs ! 38, b_is_admin = bs ! 39,
      b_created_at = of_le32 (take 4 (drop 40 bs))\<rparr>"

definition key_at :: "u8 list \<Rightarrow> nat \<Rightarrow> backup_key_t" where
  \<comment> \<open>\<open>keys[i]\<close> of the array that starts after the header\<close>
  "key_at buf i = of_key_image (take SIZEOF_BACKUP_KEY (drop (SIZEOF_HEADER + i * SIZEOF_BACKUP_KEY) buf))"

definition backup_checksum :: "crc32 \<Rightarrow> u8 list \<Rightarrow> u32" where
  \<comment> \<open>over the bytes of the key array\<close>
  "backup_checksum lfs_crc keys = lfs_crc 0xFFFFFFFF keys"

definition to_backup_key :: "key_record_t \<Rightarrow> backup_key_t" where
  "to_backup_key k =
     \<lparr>b_id = key_id k, b_name = key_name k, b_secret = secret k,
      b_is_enabled = bool_byte (is_enabled k), b_is_admin = bool_byte (is_admin k),
      b_created_at = created_at k\<rparr>"

definition to_key_record :: "backup_key_t \<Rightarrow> key_record_t" where
  "to_key_record b =
     \<lparr>key_id = b_id b, key_name = (b_name b)[KEY_NAME_MAX - 1 := NUL], secret = b_secret b,
      is_enabled = (b_is_enabled b \<noteq> 0), is_admin = (b_is_admin b \<noteq> 0),
      created_at = b_created_at b, is_checksum_valid = True\<rparr>"

section \<open>Export\<close>

definition backup_export ::
  "('fs, 'f) lfs_api \<Rightarrow> crc32 \<Rightarrow> nat \<Rightarrow> 'fs store \<Rightarrow> u8 list option \<times> 'fs store" where
  "backup_export L crc buf_size st =
     (case storage_key_list L crc (int BACKUP_MAX_KEYS) st of
        (None, st) \<Rightarrow> (None, st)
      | (Some records, st) \<Rightarrow>
          if buf_size < SIZEOF_HEADER + length records * SIZEOF_BACKUP_KEY then (None, st)
          else let keys = concat (map (key_image \<circ> to_backup_key) (filter is_checksum_valid records));
                   exported_key_count = length (filter is_checksum_valid records);
                   hdr = \<lparr>magic = BACKUP_MAGIC, version = BACKUP_VERSION,
                          key_count = of_nat exported_key_count, checksum = backup_checksum crc keys\<rparr>
               in (Some (header_image hdr @ keys), st))"

section \<open>Import\<close>

datatype import_error =
    buffer_too_small
  | bad_magic
  | unsupported_version u32
  | too_many_keys u32
  | empty_backup
  | truncated_data
  | checksum_mismatch
  | unterminated_name u16
  | invalid_id u16
  | no_enabled_admin
  | write_failed u16

definition buf_keys :: "u8 list \<Rightarrow> nat \<Rightarrow> backup_key_t list" where
  "buf_keys buf n = map (key_at buf) [0..<n]"

definition import_gates :: "crc32 \<Rightarrow> u8 list \<Rightarrow> import_error + backup_key_t list" where
  \<comment> \<open>everything before storage is touched\<close>
  "import_gates crc buf =
     (if length buf < SIZEOF_HEADER then Inl buffer_too_small
      else let hdr = of_header_image (take SIZEOF_HEADER buf) in
      if magic hdr \<noteq> BACKUP_MAGIC then Inl bad_magic
      else if version hdr \<noteq> BACKUP_VERSION then Inl (unsupported_version (version hdr))
      else if of_nat KEY_MAX_COUNT < key_count hdr then Inl (too_many_keys (key_count hdr))
      else if key_count hdr < 1 then Inl empty_backup
      else let n = unat (key_count hdr); expected = SIZEOF_HEADER + n * SIZEOF_BACKUP_KEY in
      if length buf < expected then Inl truncated_data
      else if checksum hdr \<noteq>
                backup_checksum crc (take (n * SIZEOF_BACKUP_KEY) (drop SIZEOF_HEADER buf))
        then Inl checksum_mismatch
      else let keys = buf_keys buf n in
      case List.find (\<lambda>k. \<not> terminated (b_name k)) keys of
        Some k \<Rightarrow> Inl (unterminated_name (b_id k))
      | None \<Rightarrow>
      (case List.find (\<lambda>k. KEY_ID_MAX < b_id k) keys of
        Some k \<Rightarrow> Inl (invalid_id (b_id k))
      | None \<Rightarrow>
          if \<not> list_ex (\<lambda>k. b_is_enabled k \<noteq> 0 \<and> b_is_admin k \<noteq> 0) keys then Inl no_enabled_admin
          else Inr keys))"

fun delete_existing :: "('fs, 'f) lfs_api \<Rightarrow> key_record_t list \<Rightarrow> 'fs store \<Rightarrow> 'fs store" where
  "delete_existing L [] st = st"
| "delete_existing L (k # ks) st =
     (let (_, st) = storage_key_delete L (key_id k) st in delete_existing L ks st)"

fun write_keys ::
  "('fs, 'f) lfs_api \<Rightarrow> crc32 \<Rightarrow> backup_key_t list \<Rightarrow> 'fs store \<Rightarrow> (import_error + unit) \<times> 'fs store" where
  "write_keys L crc [] st = (Inr (), st)"
| "write_keys L crc (k # ks) st =
     (let (ok, st) = storage_key_save L crc (to_key_record k) st in
      if \<not> ok then (Inl (write_failed (b_id k)), st) else write_keys L crc ks st)"

definition backup_import ::
  "('fs, 'f) lfs_api \<Rightarrow> crc32 \<Rightarrow> u8 list \<Rightarrow> 'fs store \<Rightarrow> (import_error + unit) \<times> 'fs store" where
  "backup_import L crc buf st =
     (case import_gates crc buf of
        Inl e \<Rightarrow> (Inl e, st)
      | Inr keys \<Rightarrow>
          let (existing, st) = storage_key_list L crc (int BACKUP_MAX_KEYS) st;
              st = delete_existing L (case existing of None \<Rightarrow> [] | Some ks \<Rightarrow> ks) st
          in write_keys L crc keys st)"

section \<open>Images\<close>

definition bkey_ok :: "backup_key_t \<Rightarrow> bool" where
  "bkey_ok b \<longleftrightarrow> length (b_name b) = KEY_NAME_MAX \<and> length (b_secret b) = KEY_SECRET_LEN"

interpretation header: fixed_codec header_image of_header_image SIZEOF_HEADER "\<lambda>_. True"
  by unfold_locales (simp_all add: header_image_def of_header_image_def SIZEOF_HEADER_def)

interpretation bkey: fixed_codec key_image of_key_image SIZEOF_BACKUP_KEY bkey_ok
  by unfold_locales
     (simp_all add: bkey_ok_def key_image_def of_key_image_def SIZEOF_BACKUP_KEY_def
       KEY_NAME_MAX_def KEY_SECRET_LEN_def nth_append)

lemma bkey_ok_to_backup: "wf_key k \<Longrightarrow> bkey_ok (to_backup_key k)"
  by (simp add: wf_key_def bkey_ok_def to_backup_key_def)

lemma to_key_record_wf: "bkey_ok b \<Longrightarrow> wf_key (to_key_record b)"
  by (simp add: wf_key_def bkey_ok_def to_key_record_def)

lemma norm_to_key_record [simp]: "norm_key (to_key_record b) = to_key_record b"
  by (simp add: norm_key_def to_key_record_def)

lemma key_id_to_key_record [simp]: "key_id (to_key_record b) = b_id b"
  by (simp add: to_key_record_def)

lemma b_id_to_backup_key [simp]: "b_id (to_backup_key k) = key_id k"
  by (simp add: to_backup_key_def)

lemma to_key_record_backup [simp]: "to_key_record (to_backup_key k) = norm_key k"
  by (simp add: to_key_record_def to_backup_key_def norm_key_def)

lemma key_at_ok:
  assumes "SIZEOF_HEADER + n * SIZEOF_BACKUP_KEY \<le> length buf" and "i < n"
  shows "bkey_ok (key_at buf i)"
proof -
  have "Suc i * SIZEOF_BACKUP_KEY \<le> n * SIZEOF_BACKUP_KEY"
    using assms(2) by (intro mult_le_mono1) simp
  then have "i * 44 + 60 \<le> length buf"
    using assms(1) by (simp add: SIZEOF_HEADER_def SIZEOF_BACKUP_KEY_def)
  then show ?thesis
    by (simp add: key_at_def of_key_image_def bkey_ok_def SIZEOF_HEADER_def SIZEOF_BACKUP_KEY_def
        KEY_NAME_MAX_def KEY_SECRET_LEN_def)
qed

lemma buf_keys_image:
  assumes "\<forall>b \<in> set bs. bkey_ok b" and "length h = SIZEOF_HEADER"
  shows "buf_keys (h @ concat (map key_image bs) @ rest) (length bs) = bs"
proof (rule nth_equalityI)
  fix i
  assume "i < length (buf_keys (h @ concat (map key_image bs) @ rest) (length bs))"
  then have i: "i < length bs"
    by (simp add: buf_keys_def)
  have "drop (SIZEOF_HEADER + i * SIZEOF_BACKUP_KEY) (h @ concat (map key_image bs) @ rest) =
      drop (i * SIZEOF_BACKUP_KEY) (concat (map key_image bs) @ rest)"
    using assms(2) by (simp add: drop_append)
  then show "buf_keys (h @ concat (map key_image bs) @ rest) (length bs) ! i = bs ! i"
    using bkey.dec_slice [OF assms(1) i, of rest] i by (simp add: buf_keys_def key_at_def)
qed (simp add: buf_keys_def)

section \<open>The gates\<close>

lemma find_None_ball: "List.find P xs = None \<longleftrightarrow> (\<forall>x \<in> set xs. \<not> P x)"
  by (auto simp: find_None_iff)

lemma gates_Inr:
  "import_gates crc buf = Inr keys \<longleftrightarrow>
     SIZEOF_HEADER \<le> length buf \<and>
     (let hdr = of_header_image (take SIZEOF_HEADER buf); n = unat (key_count hdr) in
        magic hdr = BACKUP_MAGIC \<and> version hdr = BACKUP_VERSION \<and> 1 \<le> n \<and> n \<le> KEY_MAX_COUNT \<and>
        SIZEOF_HEADER + n * SIZEOF_BACKUP_KEY \<le> length buf \<and>
        checksum hdr = backup_checksum crc (take (n * SIZEOF_BACKUP_KEY) (drop SIZEOF_HEADER buf)) \<and>
        keys = buf_keys buf n \<and>
        (\<forall>k \<in> set keys. terminated (b_name k) \<and> b_id k \<le> KEY_ID_MAX) \<and>
        (\<exists>k \<in> set keys. b_is_enabled k \<noteq> 0 \<and> b_is_admin k \<noteq> 0))"
proof -
  define hdr where "hdr = of_header_image (take SIZEOF_HEADER buf)"
  define n where "n = unat (key_count hdr)"
  define ks where "ks = buf_keys buf n"
  have n: "of_nat KEY_MAX_COUNT < key_count hdr \<longleftrightarrow> KEY_MAX_COUNT < n"
    "key_count hdr < 1 \<longleftrightarrow> n < 1"
    by (simp_all add: n_def word_less_nat_alt KEY_MAX_COUNT_def)
  have find: "(case List.find (\<lambda>k. \<not> terminated (b_name k)) ks of
        Some k \<Rightarrow> Inl (unterminated_name (b_id k))
      | None \<Rightarrow> (case List.find (\<lambda>k. KEY_ID_MAX < b_id k) ks of
          Some k \<Rightarrow> Inl (invalid_id (b_id k))
        | None \<Rightarrow> if \<not> list_ex (\<lambda>k. b_is_enabled k \<noteq> 0 \<and> b_is_admin k \<noteq> 0) ks
            then Inl no_enabled_admin else Inr ks)) = Inr keys \<longleftrightarrow>
     keys = ks \<and> (\<forall>k \<in> set ks. terminated (b_name k) \<and> b_id k \<le> KEY_ID_MAX) \<and>
     (\<exists>k \<in> set ks. b_is_enabled k \<noteq> 0 \<and> b_is_admin k \<noteq> 0)" (is "?F = _ \<longleftrightarrow> ?R")
  proof (cases "List.find (\<lambda>k. \<not> terminated (b_name k)) ks")
    case (Some k)
    then have "\<not> (\<forall>k \<in> set ks. terminated (b_name k))"
      using find_None_ball [of "\<lambda>k. \<not> terminated (b_name k)" ks] by auto
    then show ?thesis
      using Some by auto
  next
    case t: None
    then have tt: "\<forall>k \<in> set ks. terminated (b_name k)"
      by (simp add: find_None_ball)
    show ?thesis
    proof (cases "List.find (\<lambda>k. KEY_ID_MAX < b_id k) ks")
      case (Some k)
      then have "\<not> (\<forall>k \<in> set ks. \<not> KEY_ID_MAX < b_id k)"
        using find_None_ball [of "\<lambda>k. KEY_ID_MAX < b_id k" ks] by auto
      then show ?thesis
        using Some t by (auto simp: not_less)
    next
      case None
      then have "\<forall>k \<in> set ks. b_id k \<le> KEY_ID_MAX"
        by (simp add: find_None_ball not_less)
      then show ?thesis
        using t None tt by (auto simp: list_ex_iff)
    qed
  qed
  show ?thesis
    unfolding import_gates_def Let_def hdr_def [symmetric] n_def [symmetric] n ks_def [symmetric]
    using find by (auto simp: not_less ks_def)
qed

section \<open>Effect on the store\<close>

lemma delete_existing_eq: "delete_existing L ks st = delete_each (storage_key_delete L) key_id ks st"
  by (induction ks arbitrary: st) (simp_all split: prod.split)

lemma write_keys_eq:
  "write_keys L crc ks st = (r, st') \<Longrightarrow>
     save_each (storage_key_save L crc) (map to_key_record ks) st = (r = Inr (), st')"
  by (induction ks arbitrary: st)
     (auto split: prod.splits if_splits)

definition import_map :: "backup_key_t list \<Rightarrow> u16 \<rightharpoonup> key_record_t" where
  "import_map ks = map_of (rev (map (\<lambda>k. (b_id k, to_key_record k)) ks))"

lemma import_accepted:
  assumes ok: "store_ok L V crc st" and g: "import_gates crc buf = Inr ks"
    and i: "backup_import L crc buf st = (r, st')"
  shows "store_ok L V crc st' \<and> (r = Inr () \<longrightarrow> lfs_commits L \<longrightarrow> key_map V crc st' = import_map ks)"
proof -
  obtain l st1 where l: "storage_key_list L crc (int KEY_MAX_COUNT) st = (l, st1)"
    by fastforce
  obtain es where es: "l = Some es" "store_ok L V crc (delete_existing L es st1)"
    "key_map V crc (delete_existing L es st1) = Map.empty"
    using keys.list_delete_all [OF ok l] by (auto simp: delete_existing_eq)
  have w: "write_keys L crc ks (delete_existing L es st1) = (r, st')"
    using i by (simp add: backup_import_def g BACKUP_MAX_KEYS_def l es(1))
  have wf: "\<forall>k \<in> set (map to_key_record ks). wf_key k"
    using g key_at_ok by (fastforce simp: gates_Inr Let_def buf_keys_def to_key_record_wf)
  have "(\<lambda>r. (key_id r, norm_key r)) \<circ> to_key_record = (\<lambda>k. (b_id k, to_key_record k))"
    by (simp add: fun_eq_iff)
  then show ?thesis
    using keys.save_all_law [OF es(2) wf write_keys_eq [OF w]] es(3)
    by (simp add: import_map_def commits_save)
qed

lemma import_outcome:
  assumes "store_ok L V crc st" and "backup_import L crc buf st = (r, st')"
  shows "case import_gates crc buf of
      Inl e \<Rightarrow> r = Inl e \<and> st' = st
    | Inr ks \<Rightarrow> store_ok L V crc st' \<and>
        (r = Inr () \<longrightarrow> lfs_commits L \<longrightarrow> (\<forall>i. fst (storage_key_get L crc i st') = import_map ks i))"
proof (cases "import_gates crc buf")
  case (Inl e)
  then show ?thesis
    using assms(2) by (simp add: backup_import_def)
next
  case (Inr ks)
  then show ?thesis
    using import_accepted [OF assms(1) Inr assms(2)] keys.fst_get [of L V crc st'] by auto
qed

text \<open>C12: on a mounted volume whose reads, listings and removes do not fail (\<open>store_ok\<close>), an import
  that any gate refuses leaves the store as it was, byte for byte; an import that reports
  success leaves, when no close fails (\<open>lfs_commits\<close>: the code ignores its result), exactly the
  records of the backup, canonicalised, where of two records with one identifier the later
  wins.\<close>

theorem import_all_or_gate:
  assumes "store_ok L V crc st" and "backup_import L crc buf st = (r, st')"
  shows "case import_gates crc buf of
      Inl e \<Rightarrow> r = Inl e \<and> st' = st
    | Inr ks \<Rightarrow> store_ok L V crc st' \<and>
        (r = Inr () \<longrightarrow> lfs_commits L \<longrightarrow> (\<forall>i. fst (storage_key_get L crc i st') = import_map ks i))"
  by (rule import_outcome [OF assms])

lemma import_map_distinct:
  assumes "distinct (map b_id ks)"
  shows "import_map ks i = Some r \<longleftrightarrow> (\<exists>k \<in> set ks. b_id k = i \<and> r = to_key_record k)"
proof -
  have "distinct (map fst (rev (map (\<lambda>k. (b_id k, to_key_record k)) ks)))"
    using assms by (simp add: comp_def flip: rev_map)
  then show ?thesis
    by (auto simp: import_map_def)
qed

text \<open>C24: what the administrator gate is for: after a successful import of a backup whose
  identifiers are distinct, on a mounted volume whose reads, listings, removes and closes do not
  fail, the device has an enabled administrator key with a valid checksum, so the login cannot
  fall into its unprovisioned mode.\<close>

theorem import_keeps_admin:
  assumes "store_ok L V crc st" and "lfs_commits L" and "backup_import L crc buf st = (Inr (), st')"
    and "import_gates crc buf = Inr ks" and "distinct (map b_id ks)"
  shows "\<exists>i r. fst (storage_key_get L crc i st') = Some r \<and> is_enabled r \<and> is_admin r \<and> is_checksum_valid r"
proof -
  obtain k where k: "k \<in> set ks" "b_is_enabled k \<noteq> 0" "b_is_admin k \<noteq> 0"
    using assms(4) by (auto simp: gates_Inr Let_def)
  have "import_map ks (b_id k) = Some (to_key_record k)"
    using import_map_distinct [OF assms(5)] k(1) by blast
  then have "fst (storage_key_get L crc (b_id k) st') = Some (to_key_record k)"
    using import_outcome [OF assms(1,3)] assms(2,4) by simp
  then show ?thesis
    using k by (intro exI [of _ "b_id k"] exI [of _ "to_key_record k"]) (simp add: to_key_record_def)
qed

section \<open>Round trip\<close>

lemma stored_key_facts:
  assumes "store_ok L V crc st" and "key_map V crc st i = Some k"
  shows "key_id k = i" and "i \<le> KEY_ID_MAX" and "wf_key k" and "terminated (key_name k)"
    and "is_checksum_valid k \<Longrightarrow> norm_key k = k"
proof -
  show "key_id k = i" "wf_key k"
    using assms key_map_wf by (auto simp: store_ok_def)
  obtain d where d: "files V (lfs st) (key_path i) = Some d" "decode_key crc d = Some k"
    using assms(2) by (auto simp: key_map_def bind_eq_Some_conv split: if_splits)
  have "key_path i \<in> dom (files V (lfs st))"
    using d(1) by blast
  then obtain j where "j \<le> KEY_ID_MAX" "key_path i = key_path j"
    using store_okD(4) [OF assms(1)] key_file_path unfolding names_ok_def by blast
  then show "i \<le> KEY_ID_MAX"
    by simp
  obtain n where n: "key_name k = n[KEY_NAME_MAX - 1 := NUL]" "length n = KEY_NAME_MAX"
    using d(2) key_map_wf [OF assms(2)]
    by (auto simp: decode_key_def to_record_def wf_key_def split: if_splits)
  then show "terminated (key_name k)"
    by (simp add: terminated_def set_update_memI KEY_NAME_MAX_def)
  show "norm_key k = k" if "is_checksum_valid k"
    using n(1) that by (simp add: norm_key_def)
qed

definition typed_key :: "crc32 \<Rightarrow> u16 \<Rightarrow> key_record_t \<Rightarrow> bool" where
  "typed_key crc i k \<longleftrightarrow> key_id k = i \<and> i \<le> KEY_ID_MAX \<and> wf_key k \<and> terminated (key_name k) \<and>
     (is_checksum_valid k \<longrightarrow> to_record crc (to_stored crc k) = k)"

lemma key_map_typed: "store_ok L V crc st \<Longrightarrow> key_map V crc st i = Some k \<Longrightarrow> typed_key crc i k"
  using stored_key_facts [of L V crc st i k] by (auto simp: typed_key_def to_record_to_stored)

text \<open>C23: whatever bytes the files of a sound store hold (mounted, and found, listed and read
  without fault), every record that a get or a listing returns
  is a well-formed key: it carries the identifier it was asked for, within range, a name of 16
  bytes with a terminator, a secret of full length, and if its checksum is valid, storing it and
  loading it again gives the same record. The listing fits the array of the caller and agrees
  with get on every record.\<close>

theorem loaded_keys_typed:
  assumes "store_ok L V crc st" and "storage_key_list L crc (int KEY_MAX_COUNT) st = (l, st')"
  shows "(\<forall>i k. fst (storage_key_get L crc i st) = Some k \<longrightarrow> typed_key crc i k)
    \<and> (\<exists>rs. l = Some rs \<and> length rs \<le> KEY_MAX_COUNT \<and> distinct (map key_id rs)
        \<and> (\<forall>k. k \<in> set rs \<longleftrightarrow> fst (storage_key_get L crc (key_id k) st) = Some k)
        \<and> (\<forall>k \<in> set rs. typed_key crc (key_id k) k))"
proof -
  have get: "fst (storage_key_get L crc i st) = key_map V crc st i" for i
    using keys.fst_get [of L V crc] assms(1) by simp
  obtain rs where rs: "l = Some rs" "set rs = ran (key_map V crc st)" "distinct (map key_id rs)" "length rs \<le> KEY_MAX_COUNT"
    using list_spec [OF assms] by blast
  have mem: "k \<in> set rs \<longleftrightarrow> key_map V crc st (key_id k) = Some k" for k
    using stored_key_facts(1) [OF assms(1)] unfolding rs(2) ran_def by auto
  show ?thesis
    using rs(1,3,4) get mem key_map_typed [OF assms(1)] by auto
qed

lemma take_16_header [simp]: "take SIZEOF_HEADER (header_image h @ bs) = header_image h"
  "drop SIZEOF_HEADER (header_image h @ bs) = bs"
  using header.enc_width [of h] by simp_all

definition blob_of :: "crc32 \<Rightarrow> backup_key_t list \<Rightarrow> u8 list" where
  "blob_of crc bs =
     header_image \<lparr>magic = BACKUP_MAGIC, version = BACKUP_VERSION, key_count = of_nat (length bs),
       checksum = backup_checksum crc (concat (map key_image bs))\<rparr> @ concat (map key_image bs)"

lemma length_blob_of:
  "\<forall>b \<in> set bs. bkey_ok b \<Longrightarrow> length (blob_of crc bs) = SIZEOF_HEADER + length bs * SIZEOF_BACKUP_KEY"
  using bkey.length_image header.enc_width by (simp add: blob_of_def)

lemma gates_blob_of:
  assumes okb: "\<forall>b \<in> set bs. bkey_ok b" and len: "length bs \<le> KEY_MAX_COUNT"
    and fields: "\<forall>b \<in> set bs. terminated (b_name b) \<and> b_id b \<le> KEY_ID_MAX"
    and adm: "\<exists>b \<in> set bs. b_is_enabled b \<noteq> 0 \<and> b_is_admin b \<noteq> 0"
  shows "import_gates crc (blob_of crc bs) = Inr bs"
proof -
  define hdr where "hdr = \<lparr>magic = BACKUP_MAGIC, version = BACKUP_VERSION, key_count = of_nat (length bs),
      checksum = backup_checksum crc (concat (map key_image bs))\<rparr>"
  have blob: "blob_of crc bs = header_image hdr @ concat (map key_image bs) @ []"
    unfolding blob_of_def hdr_def by simp
  have h: "of_header_image (take SIZEOF_HEADER (blob_of crc bs)) = hdr"
    unfolding blob take_16_header using header.dec_enc by simp
  have cnt: "unat (key_count hdr) = length bs"
    using len by (simp add: hdr_def KEY_MAX_COUNT_def unsigned_of_nat take_bit_nat_eq_self)
  have bk: "buf_keys (blob_of crc bs) (length bs) = bs"
    unfolding blob by (rule buf_keys_image [OF okb]) (simp add: header.enc_width)
  have body: "take (length bs * SIZEOF_BACKUP_KEY) (drop SIZEOF_HEADER (blob_of crc bs)) =
      concat (map key_image bs)"
    unfolding blob take_16_header using bkey.length_image [OF okb] by simp
  have "1 \<le> length bs"
    using adm by (cases bs) auto
  then show ?thesis
    unfolding gates_Inr Let_def h cnt bk body length_blob_of [OF okb]
    using len fields adm by (simp add: hdr_def)
qed

lemma export_spec:
  assumes ok: "store_ok L V crc st" and e: "backup_export L crc n st = (res, st')"
  obtains ks where "set ks = {k \<in> ran (key_map V crc st). is_checksum_valid k}"
    and "distinct (map key_id ks)" and "length ks \<le> KEY_MAX_COUNT"
    and "res = None \<or> res = Some (blob_of crc (map to_backup_key ks))"
    and "SIZEOF_HEADER + KEY_MAX_COUNT * SIZEOF_BACKUP_KEY \<le> n \<longrightarrow> res \<noteq> None"
    and "\<forall>blob. res = Some blob \<longrightarrow> length blob \<le> n"
    and "\<forall>b \<in> set (map to_backup_key ks). bkey_ok b \<and> terminated (b_name b) \<and> b_id b \<le> KEY_ID_MAX"
proof -
  obtain l st1 where l: "storage_key_list L crc (int KEY_MAX_COUNT) st = (l, st1)"
    by fastforce
  obtain rs where rs: "l = Some rs" "set rs = ran (key_map V crc st)" "distinct (map key_id rs)"
    "length rs \<le> KEY_MAX_COUNT"
    using list_spec [OF ok l] by blast
  let ?ks = "filter is_checksum_valid rs"
  have fields: "bkey_ok (to_backup_key k) \<and> terminated (b_name (to_backup_key k)) \<and> key_id k \<le> KEY_ID_MAX"
    if k: "k \<in> set ?ks" for k
  proof -
    obtain i where "key_map V crc st i = Some k"
      using k rs(2) by (auto simp: ran_def)
    from stored_key_facts [OF ok this] show ?thesis
      by (simp add: bkey_ok_to_backup) (simp add: to_backup_key_def)
  qed
  then have okb: "\<forall>b \<in> set (map to_backup_key ?ks). bkey_ok b \<and> terminated (b_name b) \<and> b_id b \<le> KEY_ID_MAX"
    by auto
  have res: "res = (if n < SIZEOF_HEADER + length rs * SIZEOF_BACKUP_KEY then None
      else Some (blob_of crc (map to_backup_key ?ks)))"
    using e by (simp add: backup_export_def BACKUP_MAX_KEYS_def l rs(1) Let_def blob_of_def split: if_splits)
  have le: "length ?ks \<le> length rs"
    by simp
  show thesis
  proof (rule that [of ?ks])
    show "length ?ks \<le> KEY_MAX_COUNT"
      using le rs(4) by linarith
    have "length (blob_of crc (map to_backup_key ?ks)) \<le> SIZEOF_HEADER + length rs * SIZEOF_BACKUP_KEY"
      using mult_le_mono1 [OF le, of SIZEOF_BACKUP_KEY] length_blob_of [of "map to_backup_key ?ks" crc] okb
      by simp
    then show "\<forall>blob. res = Some blob \<longrightarrow> length blob \<le> n"
      unfolding res by simp
    show "SIZEOF_HEADER + KEY_MAX_COUNT * SIZEOF_BACKUP_KEY \<le> n \<longrightarrow> res \<noteq> None"
    proof
      assume "SIZEOF_HEADER + KEY_MAX_COUNT * SIZEOF_BACKUP_KEY \<le> n"
      moreover have "length rs * SIZEOF_BACKUP_KEY \<le> KEY_MAX_COUNT * SIZEOF_BACKUP_KEY"
        by (rule mult_le_mono1 [OF rs(4)])
      ultimately have "\<not> n < SIZEOF_HEADER + length rs * SIZEOF_BACKUP_KEY"
        by linarith
      then show "res \<noteq> None"
        unfolding res by simp
    qed
    show "distinct (map key_id ?ks)"
      by (rule distinct_map_filter [OF rs(3)])
    show "set ?ks = {k \<in> ran (key_map V crc st). is_checksum_valid k}"
      using rs(2) by auto
    show "res = None \<or> res = Some (blob_of crc (map to_backup_key ?ks))"
      unfolding res by simp
  qed (rule okb)
qed

lemma gates_of_export:
  assumes ok: "store_ok L V crc st" and e: "backup_export L crc n st = (Some blob, st')"
    and a: "key_map V crc st j = Some a" "is_checksum_valid a" "is_enabled a" "is_admin a"
  obtains ks where "import_gates crc blob = Inr (map to_backup_key ks)" and "distinct (map key_id ks)"
    and "set ks = {k \<in> ran (key_map V crc st). is_checksum_valid k}"
proof -
  obtain ks where ks: "set ks = {k \<in> ran (key_map V crc st). is_checksum_valid k}"
    "distinct (map key_id ks)" "length ks \<le> KEY_MAX_COUNT"
    and res: "Some blob = None \<or> Some blob = Some (blob_of crc (map to_backup_key ks))"
    and "SIZEOF_HEADER + KEY_MAX_COUNT * SIZEOF_BACKUP_KEY \<le> n \<longrightarrow> Some blob \<noteq> None"
    and "\<forall>b. Some blob = Some b \<longrightarrow> length b \<le> n"
    and okb: "\<forall>b \<in> set (map to_backup_key ks). bkey_ok b \<and> terminated (b_name b) \<and> b_id b \<le> KEY_ID_MAX"
    by (rule export_spec [OF ok e]) (rule that)
  have "a \<in> set ks"
    using a ks(1) by (auto simp: ran_def)
  moreover have "b_is_enabled (to_backup_key a) \<noteq> 0 \<and> b_is_admin (to_backup_key a) \<noteq> 0"
    using a by (simp add: to_backup_key_def)
  ultimately have "\<exists>b \<in> set (map to_backup_key ks). b_is_enabled b \<noteq> 0 \<and> b_is_admin b \<noteq> 0"
    by auto
  then have "import_gates crc (blob_of crc (map to_backup_key ks)) = Inr (map to_backup_key ks)"
    using okb ks(3) by (intro gates_blob_of) auto
  then show thesis
    using that ks(1,2) res by simp
qed

lemma option_filter_eqI:
  assumes "\<And>x. m = Some x \<longleftrightarrow> n = Some x \<and> P x"
  shows "m = (case n of Some k \<Rightarrow> if P k then Some k else None | None \<Rightarrow> None)"
proof (cases m)
  case None
  then show ?thesis
    using assms by (cases n) auto
next
  case (Some x)
  then show ?thesis
    using assms [of x] by simp
qed

lemma accepted_import_result:
  assumes "import_gates crc blob = Inr bs" and "backup_import L crc blob st = (r, st')"
  shows "r = Inr () \<or> (\<exists>i. r = Inl (write_failed i))"
proof -
  have "fst (write_keys L crc bs s) = Inr () \<or> (\<exists>i. fst (write_keys L crc bs s) = Inl (write_failed i))" for bs s
    by (induction bs arbitrary: s) (auto split: prod.split)
  moreover obtain l s where "storage_key_list L crc (int BACKUP_MAX_KEYS) st = (l, s)"
    by fastforce
  ultimately show ?thesis
    using assms by (simp add: backup_import_def) (metis fst_conv)
qed

lemma import_map_exported:
  assumes ok: "store_ok L V crc st" and "distinct (map key_id ks)"
    and ks: "set ks = {k \<in> ran (key_map V crc st). is_checksum_valid k}"
  shows "import_map (map to_backup_key ks) i =
    (case key_map V crc st i of Some k \<Rightarrow> if is_checksum_valid k then Some k else None | None \<Rightarrow> None)"
proof (rule option_filter_eqI)
  have d: "distinct (map b_id (map to_backup_key ks))"
    using assms(2) by (simp add: comp_def to_backup_key_def)
  fix x
  have "import_map (map to_backup_key ks) i = Some x \<longleftrightarrow> (\<exists>k \<in> set ks. key_id k = i \<and> x = norm_key k)"
    unfolding import_map_distinct [OF d] by auto
  also have "\<dots> \<longleftrightarrow> (\<exists>k. key_map V crc st i = Some k \<and> is_checksum_valid k \<and> x = norm_key k)"
    unfolding ks ran_def using stored_key_facts(1) [OF ok] by blast
  also have "\<dots> \<longleftrightarrow> key_map V crc st i = Some x \<and> is_checksum_valid x"
    using stored_key_facts(5) [OF ok] by auto
  finally show "import_map (map to_backup_key ks) i = Some x \<longleftrightarrow> key_map V crc st i = Some x \<and> is_checksum_valid x" .
qed

text \<open>C11: export and import are inverse: importing an exported blob into any sound store is
  refused by no gate when the exported records include an enabled administrator, and when it
  reports success, and no close of the target failed, the target reads, for every identifier,
  exactly as the source did, less the records whose checksum was broken. Both volumes are
  mounted, and their reads, listings and removes do not fail (\<open>store_ok\<close>).\<close>

theorem export_import_roundtrip:
  assumes "store_ok L V crc st" and "backup_export L crc n st = (Some blob, st1)"
    and "fst (storage_key_get L crc j st) = Some a"
    and "is_checksum_valid a" "is_enabled a" "is_admin a"
    and "store_ok L2 V2 crc st2" and "backup_import L2 crc blob st2 = (r, st3)"
  shows "(r = Inr () \<or> (\<exists>i. r = Inl (write_failed i)))
    \<and> (r = Inr () \<longrightarrow> lfs_commits L2 \<longrightarrow> (\<forall>i. fst (storage_key_get L2 crc i st3) =
          (case fst (storage_key_get L crc i st) of
             Some k \<Rightarrow> if is_checksum_valid k then Some k else None
           | None \<Rightarrow> None)))"
proof -
  have get: "fst (storage_key_get L crc i st) = key_map V crc st i" for i
    using keys.fst_get [OF assms(1)] .
  obtain ks where ks: "import_gates crc blob = Inr (map to_backup_key ks)" "distinct (map key_id ks)"
    "set ks = {k \<in> ran (key_map V crc st). is_checksum_valid k}"
    by (rule gates_of_export [OF assms(1,2) assms(3) [unfolded get] assms(4-6)])
  have "fst (storage_key_get L2 crc i st3) = import_map (map to_backup_key ks) i" if "r = Inr ()" "lfs_commits L2" for i
    using import_outcome [OF assms(7,8)] ks(1) that by simp
  then show ?thesis
    using accepted_import_result [OF ks(1) assms(8)] by (simp add: get import_map_exported [OF assms(1) ks(2,3)])
qed

definition dup_backup :: "backup_key_t list" where
  "dup_backup = [to_backup_key (norm_key (door_key 1 True)), to_backup_key (norm_key (door_key 1 False))]"

lemma dup_gates: "import_gates crc (blob_of crc dup_backup) = Inr dup_backup"
proof (rule gates_blob_of)
  have t: "terminated ((''door'' @ replicate 12 NUL)[15 := NUL])"
    unfolding terminated_def by (rule set_update_memI) simp
  show "\<forall>b \<in> set dup_backup. terminated (b_name b) \<and> b_id b \<le> KEY_ID_MAX"
    using t by (simp add: dup_backup_def to_backup_key_def norm_key_def door_key_def KEY_NAME_MAX_def KEY_ID_MAX_def)
qed (simp_all add: dup_backup_def bkey_ok_def to_backup_key_def norm_key_def door_key_def
    KEY_NAME_MAX_def KEY_SECRET_LEN_def KEY_MAX_COUNT_def bool_byte_def)

lemma ram_write_keys:
  "mounted st \<Longrightarrow> \<forall>b \<in> set bs. b_id b \<le> KEY_ID_MAX \<Longrightarrow> fst (write_keys ram_api crc bs st) = Inr ()"
proof (induction bs arbitrary: st)
  case Nil
  then show ?case by simp
next
  case (Cons b bs)
  obtain ok st1 where s: "storage_key_save ram_api crc (to_key_record b) st = (ok, st1)"
    by fastforce
  have "ok"
    using ram_save [OF Cons.prems(1), of "to_key_record b" crc] Cons.prems(2) s by simp
  moreover have "mounted st1"
    using write_file_spec [OF ram_laws, of "key_path (b_id b)" _ st ok st1] s Cons.prems
    by (simp add: storage_key_save_def split: if_splits)
  ultimately show ?case
    using Cons.IH [of st1] Cons.prems(2) s by simp
qed

lemma ram_import:
  assumes "store_ok ram_api ram_view crc st" and g: "import_gates crc buf = Inr ks"
  shows "fst (backup_import ram_api crc buf st) = Inr ()"
proof -
  obtain l st1 where l: "storage_key_list ram_api crc (int KEY_MAX_COUNT) st = (l, st1)"
    by fastforce
  obtain es where "l = Some es" "mounted (delete_existing ram_api es st1)"
    using keys.list_delete_all [OF assms(1) l] by (auto simp: delete_existing_eq store_ok_def)
  moreover have "\<forall>b \<in> set ks. b_id b \<le> KEY_ID_MAX"
    using g by (auto simp: gates_Inr Let_def)
  ultimately show ?thesis
    using ram_write_keys by (simp add: backup_import_def g BACKUP_MAX_KEYS_def l)
qed

text \<open>C38: the gates do not check that identifiers are distinct: a backup in which a later
  record repeats the identifier of the only administrator is accepted and imported with
  success, and leaves a device without any enabled administrator.\<close>

theorem import_duplicate_lockout:
  "fst (backup_import ram_api crc (blob_of crc dup_backup) ram_store) = Inr ()
   \<and> (\<forall>i. fst (storage_key_get ram_api crc i
        (snd (backup_import ram_api crc (blob_of crc dup_backup) ram_store)))
      = (if i = 1 then Some (norm_key (door_key 1 False)) else None))
   \<and> \<not> is_admin (norm_key (door_key 1 False))"
proof (intro conjI allI)
  fix i
  have r: "fst (backup_import ram_api crc (blob_of crc dup_backup) ram_store) = Inr ()"
    by (rule ram_import [OF ram_store_ok dup_gates])
  then have i: "backup_import ram_api crc (blob_of crc dup_backup) ram_store =
      (Inr (), snd (backup_import ram_api crc (blob_of crc dup_backup) ram_store))"
    by (simp add: prod_eq_iff)
  have m: "import_map dup_backup = [1 \<mapsto> norm_key (door_key 1 False)]"
    by (simp add: import_map_def dup_backup_def fun_eq_iff)
  note ac = import_accepted [OF ram_store_ok dup_gates i]
  show "fst (storage_key_get ram_api crc i
        (snd (backup_import ram_api crc (blob_of crc dup_backup) ram_store)))
      = (if i = 1 then Some (norm_key (door_key 1 False)) else None)"
    using ac m keys.fst_get [of ram_api ram_view crc] by (simp add: ram_commits)
qed (simp_all add: ram_import [OF ram_store_ok dup_gates])

section \<open>Witnesses\<close>

lemma door_export:
  obtains blob st1 where "backup_export ram_api crc 5648
      (snd (storage_key_save ram_api crc (door_key 5 True) ram_store)) = (Some blob, st1)"
proof -
  let ?st = "snd (storage_key_save ram_api crc (door_key 5 True) ram_store)"
  obtain res st1 where e: "backup_export ram_api crc 5648 ?st = (res, st1)"
    by fastforce
  have "SIZEOF_HEADER + KEY_MAX_COUNT * SIZEOF_BACKUP_KEY \<le> 5648 \<longrightarrow> res \<noteq> None"
    by (rule export_spec [OF door_saved(1) e]) assumption
  then obtain blob where "res = Some blob"
    by (auto simp: SIZEOF_HEADER_def KEY_MAX_COUNT_def SIZEOF_BACKUP_KEY_def)
  with e show thesis
    by (auto intro: that)
qed

theorem export_import_roundtrip_witness:
  "\<exists>blob st1 st3. backup_export ram_api sum_crc 5648
       (snd (storage_key_save ram_api sum_crc (door_key 5 True) ram_store)) = (Some blob, st1)
     \<and> backup_import ram_api sum_crc blob ram_store = (Inr (), st3)
     \<and> fst (storage_key_get ram_api sum_crc 5 st3) = Some (norm_key (door_key 5 True))"
proof -
  let ?st = "snd (storage_key_save ram_api sum_crc (door_key 5 True) ram_store)"
  obtain blob st1 where e: "backup_export ram_api sum_crc 5648 ?st = (Some blob, st1)"
    by (rule door_export)
  have a: "is_checksum_valid (norm_key (door_key 5 True))" "is_enabled (norm_key (door_key 5 True))"
    "is_admin (norm_key (door_key 5 True))"
    by (simp_all add: norm_key_def door_key_def)
  have "key_map ram_view sum_crc ?st 5 = Some (norm_key (door_key 5 True))"
    using door_saved keys.fst_get by metis
  then obtain ks where "import_gates sum_crc blob = Inr (map to_backup_key ks)"
    using gates_of_export [OF door_saved(1) e _ a] by blast
  then have i: "backup_import ram_api sum_crc blob ram_store
      = (Inr (), snd (backup_import ram_api sum_crc blob ram_store))"
    using ram_import [OF ram_store_ok] by (simp add: prod_eq_iff)
  have "fst (storage_key_get ram_api sum_crc 5 (snd (backup_import ram_api sum_crc blob ram_store)))
      = Some (norm_key (door_key 5 True))"
    using export_import_roundtrip [OF door_saved(1) e door_saved(2) a ram_store_ok i] door_saved(2) a(1)
    by (simp add: ram_commits)
  then show ?thesis
    using e i by blast
qed

definition one_backup :: "backup_key_t list" where
  "one_backup = [to_backup_key (norm_key (door_key 1 True))]"

lemma one_gates: "import_gates crc (blob_of crc one_backup) = Inr one_backup"
proof (rule gates_blob_of)
  have t: "terminated ((''door'' @ replicate 12 NUL)[15 := NUL])"
    unfolding terminated_def by (rule set_update_memI) simp
  show "\<forall>b \<in> set one_backup. terminated (b_name b) \<and> b_id b \<le> KEY_ID_MAX"
    using t by (simp add: one_backup_def to_backup_key_def norm_key_def door_key_def KEY_NAME_MAX_def KEY_ID_MAX_def)
qed (simp_all add: one_backup_def bkey_ok_def to_backup_key_def norm_key_def door_key_def
    KEY_NAME_MAX_def KEY_SECRET_LEN_def KEY_MAX_COUNT_def bool_byte_def)

lemma one_import:
  "backup_import ram_api crc (blob_of crc one_backup) ram_store =
     (Inr (), snd (backup_import ram_api crc (blob_of crc one_backup) ram_store))"
  using ram_import [OF ram_store_ok one_gates] by (simp add: prod_eq_iff)

theorem loaded_keys_typed_witness:
  "typed_key sum_crc 5 (norm_key (door_key 5 True)) \<and>
   (\<exists>rs. fst (storage_key_list ram_api sum_crc (int KEY_MAX_COUNT)
      (snd (storage_key_save ram_api sum_crc (door_key 5 True) ram_store))) = Some rs
    \<and> norm_key (door_key 5 True) \<in> set rs)"
proof -
  note t = loaded_keys_typed [OF door_saved(1) [of sum_crc] prod.collapse [symmetric]]
  note d = door_saved(2) [of sum_crc]
  have i: "key_id (norm_key (door_key 5 True)) = 5"
    by (simp add: norm_key_def door_key_def)
  from conjunct2 [OF t] obtain rs where "fst (storage_key_list ram_api sum_crc (int KEY_MAX_COUNT)
      (snd (storage_key_save ram_api sum_crc (door_key 5 True) ram_store))) = Some rs"
    "norm_key (door_key 5 True) \<in> set rs"
    using d i by auto
  then show ?thesis
    using conjunct1 [OF t] d by blast
qed

theorem import_all_or_gate_witness:
  "fst (storage_key_get ram_api sum_crc 1 (snd (backup_import ram_api sum_crc (blob_of sum_crc one_backup) ram_store)))
     = Some (norm_key (door_key 1 True))"
  using import_all_or_gate [OF ram_store_ok one_import, of sum_crc] one_gates [of sum_crc]
  by (simp add: import_map_def one_backup_def ram_commits)

theorem import_keeps_admin_witness:
  "\<exists>i r. fst (storage_key_get ram_api sum_crc i
      (snd (backup_import ram_api sum_crc (blob_of sum_crc one_backup) ram_store))) = Some r \<and> is_admin r"
  using import_keeps_admin [OF ram_store_ok ram_commits one_import one_gates, of sum_crc]
  by (auto simp: one_backup_def)

end
