(* ===== verification/Base64.thy ===== *)
theory Base64 imports Prelude
begin

text \<open>
  \<open>libs/base64/base64.c\<close>: the encoder, the symbol table lookup and the capacity-bounded,
  canonical-only decoder. A call's result is the bytes it wrote and its return value, so
  the bytes left in the buffer on a failure are visible. The lemmas give the round trip,
  canonicity (an accepted text is the encoding of its result) and the capacity bound.
\<close>

definition B64_CHARS :: string where
  "B64_CHARS = ''ABCDEFGHIJKLMNOPQRSTUVWXYZabcdefghijklmnopqrstuvwxyz0123456789+/''"

definition BASE64_ENCODED_LEN :: "nat \<Rightarrow> nat" where
  "BASE64_ENCODED_LEN n = (n + 2) div 3 * 4 + 1"

definition BASE64_DECODED_LEN :: "nat \<Rightarrow> nat" where
  "BASE64_DECODED_LEN n = n div 4 * 3"

definition b64_sym :: "u8 \<Rightarrow> char" where
  "b64_sym w = B64_CHARS ! unat w"

fun b64_text :: "u8 list \<Rightarrow> string" where
  "b64_text (x # y # z # rest) =
     b64_sym (drop_bit 2 x)
     # b64_sym (push_bit 4 (x AND 3) OR drop_bit 4 y)
     # b64_sym (push_bit 2 (y AND 15) OR drop_bit 6 z)
     # b64_sym (z AND 63)
     # b64_text rest"
| "b64_text [x, y] =
     [b64_sym (drop_bit 2 x), b64_sym (push_bit 4 (x AND 3) OR drop_bit 4 y),
      b64_sym (push_bit 2 (y AND 15)), CHR ''='']"
| "b64_text [x] = [b64_sym (drop_bit 2 x), b64_sym (push_bit 4 (x AND 3)), CHR ''='', CHR ''='']"
| "b64_text [] = []"

definition base64_encode :: "u8 list \<Rightarrow> string" where
  "base64_encode input = b64_text input @ [NUL]"

definition b64_val :: "char \<Rightarrow> int" where
  "b64_val c =
     (let n = of_char c :: int in
      if of_char (CHR ''A'') \<le> n \<and> n \<le> of_char (CHR ''Z'') then n - of_char (CHR ''A'')
      else if of_char (CHR ''a'') \<le> n \<and> n \<le> of_char (CHR ''z'') then n - of_char (CHR ''a'') + 26
      else if of_char (CHR ''0'') \<le> n \<and> n \<le> of_char (CHR ''9'') then n - of_char (CHR ''0'') + 52
      else if c = CHR ''+'' then 62
      else if c = CHR ''/'' then 63
      else if c = CHR ''='' then 0
      else - 1)"

fun b64_put :: "nat \<Rightarrow> int list \<Rightarrow> u8 list \<Rightarrow> u8 list \<times> bool" where
  \<comment> \<open>the guarded stores \<open>if (out_len >= out_cap) return -1; out[out_len++] = v\<close>, in order\<close>
  "b64_put cap [] out = (out, True)"
| "b64_put cap (v # vs) out =
     (if cap \<le> length out then (out, False) else b64_put cap vs (out @ [word_of_int v]))"

definition b64_quad :: "bool \<Rightarrow> char \<Rightarrow> char \<Rightarrow> char \<Rightarrow> char \<Rightarrow> int list option" where
  \<comment> \<open>the checks on one group of four symbols: \<open>None\<close> where the code returns \<open>-1\<close>, otherwise
      the values it stores\<close>
  "b64_quad is_final i0 i1 i2 i3 =
     (let pad2 = (i2 = CHR ''=''); pad3 = (i3 = CHR ''='') in
      if (pad2 \<or> pad3) \<and> \<not> is_final then None
      else if pad2 \<and> \<not> pad3 then None
      else if i0 = CHR ''='' \<or> i1 = CHR ''='' then None
      else
        (let a = b64_val i0; b = b64_val i1 in
         if a < 0 \<or> b < 0 then None
         else if pad2 then
           (if b AND 15 \<noteq> 0 then None else Some [push_bit 2 a OR drop_bit 4 b])
         else if pad3 then
           (let c = b64_val i2 in
            if c < 0 then None
            else if c AND 3 \<noteq> 0 then None
            else Some [push_bit 2 a OR drop_bit 4 b, push_bit 4 b OR drop_bit 2 c])
         else
           (let c = b64_val i2; d = b64_val i3 in
            if c < 0 \<or> d < 0 then None
            else Some [push_bit 2 a OR drop_bit 4 b, push_bit 4 b OR drop_bit 2 c,
                       push_bit 6 c OR d])))"

fun b64_loop :: "string \<Rightarrow> nat \<Rightarrow> u8 list \<Rightarrow> u8 list \<times> int" where
  "b64_loop (i0 # i1 # i2 # i3 # rest) cap out =
     (case b64_quad (rest = []) i0 i1 i2 i3 of
        None \<Rightarrow> (out, - 1)
      | Some vs \<Rightarrow>
          (case b64_put cap vs out of
             (out', True) \<Rightarrow> b64_loop rest cap out'
           | (out', False) \<Rightarrow> (out', - 1)))"
| "b64_loop _ cap out = (out, int (length out))"

definition base64_decode :: "string \<Rightarrow> nat \<Rightarrow> u8 list \<times> int" where
  "base64_decode input cap =
     (if length input mod 4 \<noteq> 0 then ([], - 1) else b64_loop input cap [])"

section \<open>Symbols\<close>

lemma length_B64_CHARS [layout]: "length B64_CHARS = 64"
  by (simp add: B64_CHARS_def)

lemma B64_CHARS_split:
  "B64_CHARS = map char_of ([65..<91] @ [97..<123] @ [48..<58] @ [43, 47 :: nat])"
  by (simp add: B64_CHARS_def upt_rec_numeral char_of_def bit_Suc_0_iff)

lemma b64_val_map: "map b64_val B64_CHARS = map int [0..<64]"
  by code_simp

lemma b64_pad_notin: "CHR ''='' \<notin> set B64_CHARS"
  by (simp add: B64_CHARS_def)

lemma b64_val_nth: "n < 64 \<Longrightarrow> b64_val (B64_CHARS ! n) = int n"
  using b64_val_map length_B64_CHARS
  by (metis (no_types, lifting) add_0 diff_zero length_upt nth_map nth_upt)

lemma b64_sym_not_pad: "n < 64 \<Longrightarrow> B64_CHARS ! n \<noteq> CHR ''=''"
  using b64_pad_notin length_B64_CHARS by (metis nth_mem)

lemma b64_nth_char:
  "k < 26 \<Longrightarrow> B64_CHARS ! k = char_of (65 + k)"
  "26 \<le> k \<Longrightarrow> k < 52 \<Longrightarrow> B64_CHARS ! k = char_of (71 + k)"
  "52 \<le> k \<Longrightarrow> k < 62 \<Longrightarrow> B64_CHARS ! k = char_of (k - 4)"
  by (auto simp: B64_CHARS_split nth_append simp del: upt_rec_numeral)

lemma b64_val_inv:
  assumes "0 \<le> b64_val c" and "c \<noteq> CHR ''=''"
  shows "b64_val c < 64 \<and> B64_CHARS ! nat (b64_val c) = c"
proof -
  define n :: nat where "n = of_char c"
  have i: "(of_char c :: int) = int n"
    unfolding n_def by (simp add: of_nat_of_char)
  have c: "char_of n = c"
    by (simp add: n_def)
  consider "65 \<le> n \<and> n \<le> 90" | "97 \<le> n \<and> n \<le> 122" | "48 \<le> n \<and> n \<le> 57"
    | "c = CHR ''+''" | "c = CHR ''/''"
    using assms i by (auto simp: b64_val_def Let_def split: if_splits)
  then show ?thesis
  proof cases
    case 1
    then show ?thesis
      using b64_nth_char(1) [of "n - 65"] i c by (auto simp: b64_val_def nat_diff_distrib)
  next
    case 2
    then have "b64_val c = int (n - 71)"
      using i by (simp add: b64_val_def of_nat_diff)
    with 2 show ?thesis
      using b64_nth_char(2) [of "n - 71"] c by (auto simp: nat_diff_distrib)
  next
    case 3
    then have "b64_val c = int (n + 4)"
      using i by (simp add: b64_val_def)
    with 3 show ?thesis
      using b64_nth_char(3) [of "n + 4"] c by (auto simp: nat_add_distrib)
  qed (auto simp: b64_val_def B64_CHARS_def)
qed

section \<open>Sextets\<close>

definition sextet :: "u8 \<Rightarrow> bool" where
  "sextet w \<longleftrightarrow> take_bit 6 w = w"

lemma and_low [simp]:
  "(w::u8) AND 3 = take_bit 2 w" "(w::u8) AND 15 = take_bit 4 w" "(w::u8) AND 63 = take_bit 6 w"
  by (simp_all add: take_bit_eq_mask mask_eq_exp_minus_1)

lemma sextet_bit: "sextet w \<Longrightarrow> bit w n \<Longrightarrow> n < 6"
  by (metis bit_take_bit_iff sextet_def)

lemma sextet_unat: "sextet w \<Longrightarrow> unat w < 64"
proof -
  assume "sextet w"
  then have "unat w = take_bit 6 (unat w)"
    by (metis sextet_def unsigned_take_bit_eq)
  also have "\<dots> < 2 ^ 6"
    by (rule take_bit_nat_less_exp)
  finally show ?thesis
    by simp
qed

lemma sextet_parts:
  "sextet (drop_bit 2 x)" "sextet (push_bit 4 (take_bit 2 x) OR drop_bit 4 y)"
  "sextet (push_bit 2 (take_bit 4 y) OR drop_bit 6 z)" "sextet (take_bit 6 z)"
  "sextet (push_bit 2 (take_bit 4 y))" "sextet (push_bit 4 (take_bit 2 x))"
  unfolding sextet_def
  by (rule u8_eqI; simp add: bit_simps u8_bit_top)+

lemma b64_val_sym: "sextet w \<Longrightarrow> b64_val (b64_sym w) = uint w"
  by (simp add: b64_sym_def b64_val_nth sextet_unat)

lemma b64_sym_pad: "sextet w \<Longrightarrow> b64_sym w \<noteq> CHR ''=''"
  by (simp add: b64_sym_def b64_sym_not_pad sextet_unat)

lemma b64_char_sextet:
  assumes "0 \<le> b64_val c" and "c \<noteq> CHR ''=''"
  obtains w where "sextet w" and "c = b64_sym w" and "b64_val c = uint w"
proof -
  let ?w = "word_of_int (b64_val c) :: u8"
  have r: "b64_val c < 64" "B64_CHARS ! nat (b64_val c) = c"
    using b64_val_inv [OF assms] by auto
  have u: "uint ?w = b64_val c"
    using r(1) assms(1) by (simp add: unsigned_of_int take_bit_int_eq_self)
  then have n: "unat ?w = nat (b64_val c)"
    by (metis nat_uint_eq)
  have "take_bit 6 ?w = ?w"
    using u r(1) assms(1) by (simp add: word_uint_eq_iff unsigned_take_bit_eq take_bit_int_eq_self)
  then show thesis
    using that [of ?w] u n r(2) by (simp add: sextet_def b64_sym_def)
qed

text \<open>The three assembled bytes, read back as words.\<close>

lemma b64_join:
  "word_of_int (push_bit 2 (uint a) OR drop_bit 4 (uint b)) = (push_bit 2 a OR drop_bit 4 b :: u8)"
  "word_of_int (push_bit 4 (uint b) OR drop_bit 2 (uint c)) = (push_bit 4 b OR drop_bit 2 c :: u8)"
  "word_of_int (push_bit 6 (uint c) OR uint d) = (push_bit 6 c OR d :: u8)"
  by (auto simp: bit_simps intro!: bit_word_eqI)

lemma b64_join_split:
  "push_bit 2 (drop_bit 2 x) OR drop_bit 4 (push_bit 4 (take_bit 2 x) OR drop_bit 4 y) = (x :: u8)"
  "push_bit 4 (push_bit 4 (take_bit 2 x) OR drop_bit 4 y) OR
     drop_bit 2 (push_bit 2 (take_bit 4 y) OR drop_bit 6 z) = (y :: u8)"
  "push_bit 6 (push_bit 2 (take_bit 4 y) OR drop_bit 6 z) OR take_bit 6 z = (z :: u8)"
  "push_bit 2 (drop_bit 2 x) OR drop_bit 4 (push_bit 4 (take_bit 2 x)) = (x :: u8)"
  "push_bit 4 (push_bit 4 (take_bit 2 x) OR drop_bit 4 y) OR
     drop_bit 2 (push_bit 2 (take_bit 4 y)) = (y :: u8)"
  "push_bit 4 (drop_bit 4 y) OR drop_bit 2 (push_bit 2 (take_bit 4 y)) = (y :: u8)"
  "push_bit 6 (drop_bit 6 z) OR take_bit 6 z = (z :: u8)"
  by (rule u8_eqI; simp add: bit_simps u8_bit_top)+

lemma b64_split_join:
  fixes a b c d :: u8
  assumes "sextet a" and "sextet b" and "sextet c" and "sextet d"
  shows "drop_bit 2 (push_bit 2 a OR drop_bit 4 b) = a"
    and "push_bit 4 (take_bit 2 (push_bit 2 a OR drop_bit 4 b)) OR
           drop_bit 4 (push_bit 4 b OR drop_bit 2 c) = b"
    and "push_bit 2 (take_bit 4 (push_bit 4 b OR drop_bit 2 c)) OR
           drop_bit 6 (push_bit 6 c OR d) = c"
    and "take_bit 6 (push_bit 6 c OR d) = d"
    and "take_bit 4 b = 0 \<Longrightarrow> push_bit 4 (take_bit 2 (push_bit 2 a OR drop_bit 4 b)) = b"
    and "take_bit 2 c = 0 \<Longrightarrow> push_bit 2 (take_bit 4 (push_bit 4 b OR drop_bit 2 c)) = c"
proof -
  have top: "\<And>w n. sextet w \<Longrightarrow> 6 \<le> n \<Longrightarrow> \<not> bit w n"
    using sextet_bit by force
  note hi = top [OF assms(1)] top [OF assms(2)] top [OF assms(3)] top [OF assms(4)]
  show "drop_bit 2 (push_bit 2 a OR drop_bit 4 b) = a"
    and "push_bit 4 (take_bit 2 (push_bit 2 a OR drop_bit 4 b)) OR
           drop_bit 4 (push_bit 4 b OR drop_bit 2 c) = b"
    and "push_bit 2 (take_bit 4 (push_bit 4 b OR drop_bit 2 c)) OR
           drop_bit 6 (push_bit 6 c OR d) = c"
    and "take_bit 6 (push_bit 6 c OR d) = d"
    by (rule u8_eqI; simp add: bit_simps hi)+
  show "push_bit 4 (take_bit 2 (push_bit 2 a OR drop_bit 4 b)) = b" if "take_bit 4 b = 0"
  proof -
    have low: "\<not> bit b n" if "n < 4" for n
      using \<open>take_bit 4 b = 0\<close> that by (metis bit_0_eq bit_take_bit_iff bot_apply bot_bool_def)
    show ?thesis
      by (rule u8_eqI; simp add: bit_simps hi low)
  qed
  show "push_bit 2 (take_bit 4 (push_bit 4 b OR drop_bit 2 c)) = c" if "take_bit 2 c = 0"
  proof -
    have low: "\<not> bit c n" if "n < 2" for n
      using \<open>take_bit 2 c = 0\<close> that by (metis bit_0_eq bit_take_bit_iff bot_apply bot_bool_def)
    show ?thesis
      by (rule u8_eqI; simp add: bit_simps hi low)
  qed
qed

section \<open>Encoding then decoding, and back\<close>

lemmas b64_sextets =
  sextet_parts b64_val_sym [OF sextet_parts(1)] b64_val_sym [OF sextet_parts(2)]
  b64_val_sym [OF sextet_parts(3)] b64_val_sym [OF sextet_parts(4)]
  b64_val_sym [OF sextet_parts(5)] b64_val_sym [OF sextet_parts(6)]
  b64_sym_pad [OF sextet_parts(1)] b64_sym_pad [OF sextet_parts(2)]
  b64_sym_pad [OF sextet_parts(3)] b64_sym_pad [OF sextet_parts(4)]
  b64_sym_pad [OF sextet_parts(5)] b64_sym_pad [OF sextet_parts(6)]

lemma uint_low_zero:
  "uint (push_bit 4 (take_bit 2 x) :: u8) AND 15 = 0"
  "uint (push_bit 2 (take_bit 4 x) :: u8) AND 3 = 0"
proof -
  have "(push_bit 4 (take_bit 2 x) :: u8) AND 15 = 0"
    unfolding and_low by (rule u8_eqI; simp add: bit_simps)
  then show "uint (push_bit 4 (take_bit 2 x) :: u8) AND 15 = 0"
    using uint_and [of "push_bit 4 (take_bit 2 x) :: u8" 15] by simp
  have "(push_bit 2 (take_bit 4 x) :: u8) AND 3 = 0"
    unfolding and_low by (rule u8_eqI; simp add: bit_simps)
  then show "uint (push_bit 2 (take_bit 4 x) :: u8) AND 3 = 0"
    using uint_and [of "push_bit 2 (take_bit 4 x) :: u8" 3] by simp
qed

lemma b64_text_length: "length (b64_text bs) = (length bs + 2) div 3 * 4"
proof (induction bs rule: b64_text.induct)
  case (1 x y z rest)
  have "length (x # y # z # rest) + 2 = (length rest + 2) + 3"
    by simp
  then have "(length (x # y # z # rest) + 2) div 3 = (length rest + 2) div 3 + 1"
    by (metis div_add_self2 zero_neq_numeral)
  with 1 show ?case
    by simp
qed simp_all

lemma b64_text_Nil_iff: "b64_text bs = [] \<longleftrightarrow> bs = []"
  by (cases bs rule: b64_text.cases) auto

lemma b64_put_fits:
  "length out + length vs \<le> cap \<Longrightarrow> b64_put cap vs out = (out @ map word_of_int vs, True)"
  by (induction cap vs out rule: b64_put.induct) auto

lemma b64_loop_text:
  "length out + length bs \<le> cap \<Longrightarrow>
   b64_loop (b64_text bs) cap out = (out @ bs, int (length out + length bs))"
proof (induction bs arbitrary: out rule: b64_text.induct)
  case (1 x y z rest)
  then show ?case
    by (simp add: b64_quad_def Let_def b64_sextets b64_put_fits b64_join b64_join_split
        del: b64_put.simps)
next
  case (2 x y)
  then show ?case
    by (simp add: b64_quad_def Let_def b64_sextets b64_put_fits b64_join b64_join_split uint_low_zero
        del: b64_put.simps)
next
  case (3 x)
  then show ?case
    by (simp add: b64_quad_def Let_def b64_sextets b64_put_fits b64_join b64_join_split uint_low_zero
        del: b64_put.simps)
next
  case 4
  then show ?case by simp
qed

lemma b64_put_bound: "length out \<le> cap \<Longrightarrow> length (fst (b64_put cap vs out)) \<le> cap"
  by (induction cap vs out rule: b64_put.induct) auto

lemma b64_loop_bound: "length out \<le> cap \<Longrightarrow> length (fst (b64_loop s cap out)) \<le> cap"
proof (induction s cap out rule: b64_loop.induct)
  case (1 i0 i1 i2 i3 rest cap out)
  show ?case
  proof (cases "b64_quad (rest = []) i0 i1 i2 i3")
    case None
    with "1.prems" show ?thesis by simp
  next
    case (Some vs)
    obtain out' ok where put: "b64_put cap vs out = (out', ok)"
      by fastforce
    with b64_put_bound [OF "1.prems", of vs] have "length out' \<le> cap"
      by simp
    with Some put "1.IH" show ?thesis
      by (cases ok) auto
  qed
qed auto

lemma b64_put_ok: "b64_put cap vs out = (out', True) \<Longrightarrow> out' = out @ map word_of_int vs"
  by (induction cap vs out rule: b64_put.induct) (auto split: if_splits)

text \<open>What an accepted group of four symbols must look like.\<close>

lemma b64_quad_canonical:
  assumes "b64_quad f i0 i1 i2 i3 = Some vs"
  obtains (three) x y z where "map word_of_int vs = [x, y, z]"
      and "b64_text [x, y, z] = [i0, i1, i2, i3]"
    | (two) x y where "f" and "map word_of_int vs = [x, y]" and "b64_text [x, y] = [i0, i1, i2, i3]"
    | (one) x where "f" and "map word_of_int vs = [x]" and "b64_text [x] = [i0, i1, i2, i3]"
proof -
  have "i0 \<noteq> CHR ''=''" "i1 \<noteq> CHR ''=''" "0 \<le> b64_val i0" "0 \<le> b64_val i1"
    using assms by (auto simp: b64_quad_def Let_def split: if_splits)
  then obtain a b where a: "sextet a" "i0 = b64_sym a" "b64_val i0 = uint a"
    and b: "sextet b" "i1 = b64_sym b" "b64_val i1 = uint b"
    by (meson b64_char_sextet)
  have b0: "take_bit 4 b = 0" if "uint b AND 15 = 0"
    unfolding and_low [symmetric] word_uint_eq_iff uint_and using that by simp
  consider (p2) "i2 = CHR ''=''" | (p3) "i2 \<noteq> CHR ''=''" "i3 = CHR ''=''"
    | (p0) "i2 \<noteq> CHR ''=''" "i3 \<noteq> CHR ''=''"
    by blast
  then show thesis
  proof cases
    case p2
    with assms a b have "vs = [push_bit 2 (uint a) OR drop_bit 4 (uint b)]" "f"
      "uint b AND 15 = 0" "i3 = CHR ''=''"
      by (simp_all add: b64_quad_def Let_def split: if_splits)
    then show thesis
      using b64_split_join [OF a(1) b(1) b(1) b(1)] b0 a(2) b(2) p2
      by (intro one [of "push_bit 2 a OR drop_bit 4 b"]) (simp_all add: b64_join)
  next
    case p3
    with assms have "0 \<le> b64_val i2"
      by (auto simp: b64_quad_def Let_def split: if_splits)
    with p3 obtain c where c: "sextet c" "i2 = b64_sym c" "b64_val i2 = uint c"
      by (meson b64_char_sextet)
    have c0: "take_bit 2 c = 0" if "uint c AND 3 = 0"
      unfolding and_low [symmetric] word_uint_eq_iff uint_and using that by simp
    from assms a b c p3 have
      "vs = [push_bit 2 (uint a) OR drop_bit 4 (uint b), push_bit 4 (uint b) OR drop_bit 2 (uint c)]"
      "f" "uint c AND 3 = 0"
      by (simp_all add: b64_quad_def Let_def split: if_splits)
    then show thesis
      using b64_split_join [OF a(1) b(1) c(1) c(1)] c0 a(2) b(2) c(2) p3
      by (intro two [of "push_bit 2 a OR drop_bit 4 b" "push_bit 4 b OR drop_bit 2 c"])
        (simp_all add: b64_join)
  next
    case p0
    with assms have "0 \<le> b64_val i2" "0 \<le> b64_val i3"
      by (auto simp: b64_quad_def Let_def split: if_splits)
    with p0 obtain c d where c: "sextet c" "i2 = b64_sym c" "b64_val i2 = uint c"
      and d: "sextet d" "i3 = b64_sym d" "b64_val i3 = uint d"
      by (meson b64_char_sextet)
    from assms a b c d p0 have
      "vs = [push_bit 2 (uint a) OR drop_bit 4 (uint b), push_bit 4 (uint b) OR drop_bit 2 (uint c),
             push_bit 6 (uint c) OR uint d]"
      by (simp_all add: b64_quad_def Let_def split: if_splits)
    then show thesis
      using b64_split_join [OF a(1) b(1) c(1) d(1)] a(2) b(2) c(2) d(2)
      by (intro three [of "push_bit 2 a OR drop_bit 4 b" "push_bit 4 b OR drop_bit 2 c"
            "push_bit 6 c OR d"]) (simp_all add: b64_join)
  qed
qed

lemma b64_loop_canonical:
  assumes "b64_loop s cap out = (res, r)" and "0 \<le> r" and "length s mod 4 = 0"
  shows "\<exists>bs. res = out @ bs \<and> r = int (length res) \<and> s = b64_text bs"
  using assms
proof (induction s cap out arbitrary: res r rule: b64_loop.induct)
  case (1 i0 i1 i2 i3 rest cap out)
  from "1.prems" obtain vs where q: "b64_quad (rest = []) i0 i1 i2 i3 = Some vs"
    by (auto split: option.splits)
  with "1.prems" obtain out' where put: "b64_put cap vs out = (out', True)"
    and loop: "b64_loop rest cap out' = (res, r)"
    by (auto split: prod.splits bool.splits)
  have "length rest mod 4 = 0"
    using "1.prems"(3) by simp
  from "1.IH" [OF q put [symmetric] refl loop "1.prems"(2) this]
  obtain bs where bs: "res = out' @ bs" "r = int (length res)" "rest = b64_text bs"
    by blast
  have out': "out' = out @ map word_of_int vs"
    by (rule b64_put_ok [OF put])
  from q show ?case
  proof (cases rule: b64_quad_canonical)
    case (three x y z)
    with bs out' show ?thesis
      by (intro exI [of _ "[x, y, z] @ bs"]) auto
  next
    case (two x y)
    with bs have "bs = []"
      by (metis b64_text_Nil_iff)
    with two bs out' show ?thesis
      by (intro exI [of _ "[x, y]"]) auto
  next
    case (one x)
    with bs have "bs = []"
      by (metis b64_text_Nil_iff)
    with one bs out' show ?thesis
      by (intro exI [of _ "[x]"]) auto
  qed
qed auto

lemma b64_text_chars: "set (b64_text bs) \<subseteq> insert (CHR ''='') (set B64_CHARS)"
proof -
  have sym: "b64_sym w \<in> set B64_CHARS" if "sextet w" for w
    using sextet_unat [OF that] length_B64_CHARS by (simp add: b64_sym_def)
  show ?thesis
    by (induction bs rule: b64_text.induct)
      (auto simp: sym [OF sextet_parts(1)] sym [OF sextet_parts(2)] sym [OF sextet_parts(3)]
        sym [OF sextet_parts(4)] sym [OF sextet_parts(5)] sym [OF sextet_parts(6)])
qed

lemma b64_text_lacks: "c \<notin> set B64_CHARS \<Longrightarrow> c \<noteq> CHR ''='' \<Longrightarrow> c \<notin> set (b64_text bs)"
  using b64_text_chars [of bs] by blast

lemma b64_text_noNUL: "NUL \<notin> set (b64_text bs)"
  by (rule b64_text_lacks) (simp_all add: B64_CHARS_def)

lemma cstr_base64_encode [simp]: "cstr (base64_encode bs) = b64_text bs"
  by (simp add: base64_encode_def cstr_append_NUL b64_text_noNUL)

lemma b64_text_mod4: "length (b64_text bs) mod 4 = 0"
  by (simp add: b64_text_length)

lemma base64_decode_text:
  "length bs \<le> cap \<Longrightarrow> base64_decode (b64_text bs) cap = (bs, int (length bs))"
  by (simp add: base64_decode_def b64_text_mod4 b64_loop_text)

lemma base64_decode_canonical:
  "base64_decode s cap = (bs, r) \<Longrightarrow> 0 \<le> r \<Longrightarrow> s = b64_text bs \<and> r = int (length bs)"
  using b64_loop_canonical [of s cap "[]" bs r]
  by (auto simp: base64_decode_def split: if_splits)

section \<open>Properties\<close>

text \<open>
  C33: decoding the exported text gives back exactly the exported bytes, whenever the
  destination has room for them.
\<close>

theorem base64_roundtrip:
  assumes "length bs \<le> cap"
  shows "base64_decode (cstr (base64_encode bs)) cap = (bs, int (length bs))"
  using base64_decode_text [OF assms] by simp

theorem base64_roundtrip_witness:
  "base64_decode (cstr (base64_encode [72, 83, 76, 76])) 4 = ([72, 83, 76, 76], 4)"
  using base64_roundtrip [of "[72, 83, 76, 76]" 4] by simp

text \<open>
  The decoder accepts canonical text only: whatever it accepts is the encoder's text
  of the bytes it wrote, so no two texts decode to the same bytes.
\<close>

theorem base64_canonical:
  assumes "base64_decode s cap = (bs, r)" and "0 \<le> r"
  shows "s = cstr (base64_encode bs) \<and> r = int (length bs)"
  using base64_decode_canonical [OF assms] by simp

theorem base64_canonical_witness:
  "base64_decode ''SFNM'' 3 = ([72, 83, 76], 3) \<and> ''SFNM'' = cstr (base64_encode [72, 83, 76])"
proof -
  have d: "base64_decode ''SFNM'' 3 = ([72, 83, 76], 3)"
    by (simp add: base64_decode_def b64_quad_def b64_val_def)
  show ?thesis
    using d base64_canonical [OF d] by simp
qed

text \<open>
  No call writes past the capacity it is given, whatever the input, and a
  non-negative return value is the number of bytes written.
\<close>

theorem base64_decode_bounded:
  "length (fst (base64_decode s cap)) \<le> cap \<and>
   (snd (base64_decode s cap) = - 1 \<or>
    snd (base64_decode s cap) = int (length (fst (base64_decode s cap))))"
proof -
  have "snd (b64_loop s cap out) = - 1 \<or> snd (b64_loop s cap out) = int (length (fst (b64_loop s cap out)))"
    for out
    by (induction s cap out rule: b64_loop.induct) (auto split: option.splits prod.splits bool.splits)
  then show ?thesis
    using b64_loop_bound [of "[]" cap s] by (auto simp: base64_decode_def)
qed

end
