(* ===== verification/Base32.thy ===== *)
theory Base32 imports Prelude
begin

text \<open>
  \<open>libs/base32/base32.c\<close>: the streaming encoder with its 32-bit accumulator, shown equal to
  the RFC 4648 grouping of the input bits into fives, and injective on secrets of one
  length.
\<close>

definition B32_CHARS :: string where
  "B32_CHARS = ''ABCDEFGHIJKLMNOPQRSTUVWXYZ234567''"

definition BASE32_ENCODED_LEN :: "nat \<Rightarrow> nat" where
  "BASE32_ENCODED_LEN n = (n * 8 + 4) div 5 + 1"

definition b32_sym :: "u32 \<Rightarrow> char" where
  "b32_sym w = B32_CHARS ! unat (w AND 31)"

fun b32_drain :: "u32 \<Rightarrow> nat \<Rightarrow> string \<times> nat" where
  \<comment> \<open>the inner \<open>while (bits_left >= 5)\<close>: the symbols it stores and the bits it leaves\<close>
  "b32_drain buffer bits_left =
     (if 5 \<le> bits_left then
        (let bits_left = bits_left - 5;
             (syms, r) = b32_drain buffer bits_left
         in (b32_sym (drop_bit bits_left buffer) # syms, r))
      else ([], bits_left))"

declare b32_drain.simps [simp del]

fun b32_loop :: "u8 list \<Rightarrow> u32 \<Rightarrow> nat \<Rightarrow> string" where
  "b32_loop (b # rest) buffer bits_left =
     (let buffer = push_bit 8 buffer OR ucast b;
          (syms, bits_left) = b32_drain buffer (bits_left + 8)
      in syms @ b32_loop rest buffer bits_left)"
| "b32_loop [] buffer bits_left =
     (if 0 < bits_left then [b32_sym (push_bit (5 - bits_left) buffer)] else [])"

definition base32_encode :: "u8 list \<Rightarrow> string" where
  "base32_encode input = b32_loop input 0 0 @ [NUL]"

section \<open>The grouping of RFC 4648\<close>

definition low_bits :: "'a::semiring_bits \<Rightarrow> nat \<Rightarrow> bool list" where
  \<comment> \<open>the \<open>n\<close> low bits, most significant first\<close>
  "low_bits w n = map (bit w) (rev [0..<n])"

fun groups5 :: "bool list \<Rightarrow> bool list list" where
  "groups5 (a # b # c # d # e # rest) = [a, b, c, d, e] # groups5 rest"
| "groups5 [] = []"
| "groups5 short = [short @ replicate (5 - length short) False]"

definition bits_val :: "bool list \<Rightarrow> nat" where
  "bits_val bs = horner_sum of_bool 2 (rev bs)"

definition b32_spec :: "u8 list \<Rightarrow> string" where
  "b32_spec input =
     map (\<lambda>g. B32_CHARS ! bits_val g) (groups5 (concat (map (\<lambda>b. low_bits b 8) input)))"

lemma length_low_bits [simp]: "length (low_bits w n) = n"
  by (simp add: low_bits_def)

lemma low_bits_add: "low_bits w (m + n) = low_bits (drop_bit n w) m @ low_bits (w :: u32) n"
proof -
  have "[0..<n + m] = [0..<n] @ map (\<lambda>i. i + n) [0..<m]"
    using upt_add_eq_append [of 0 n m] by (simp add: map_add_upt add.commute)
  then show ?thesis
    by (simp add: low_bits_def rev_map bit_drop_bit_eq comp_def add.commute)
qed

lemma bits_val_low: "bits_val (low_bits w n) = take_bit n (unat (w :: u32))"
proof -
  have "rev (low_bits w n) = map (bit (unat w)) [0..<n]"
    by (simp add: low_bits_def rev_map bit_unsigned_iff comp_def bit_imp_le_length fun_eq_iff
        cong: map_cong)
  then show ?thesis
    by (simp add: bits_val_def horner_sum_bit_eq_take_bit)
qed

lemma b32_sym_val: "b32_sym w = B32_CHARS ! bits_val (low_bits w 5)"
proof -
  have "w AND 31 = take_bit 5 w"
    by (simp add: take_bit_eq_mask mask_eq_exp_minus_1)
  then show ?thesis
    by (simp add: b32_sym_def bits_val_low unsigned_take_bit_eq)
qed

section \<open>The encoder computes the grouping\<close>

lemma low_bits_five:
  "low_bits (w :: u32) 5 = [bit w 4, bit w 3, bit w 2, bit w 1, bit w 0]"
  by (simp add: low_bits_def upt_rec_numeral upt_rec numeral_eq_Suc)

lemma groups5_take: "groups5 (low_bits (w :: u32) 5 @ rest) = low_bits w 5 # groups5 rest"
  by (simp add: low_bits_five)

lemma b32_drain_groups:
  "b32_drain buffer n = (syms, r) \<Longrightarrow>
   r = n mod 5 \<and>
   map (\<lambda>g. B32_CHARS ! bits_val g) (groups5 (low_bits buffer n @ rest)) =
     syms @ map (\<lambda>g. B32_CHARS ! bits_val g) (groups5 (low_bits buffer r @ rest))"
proof (induction buffer n arbitrary: syms r rule: b32_drain.induct)
  case (1 buffer n)
  show ?case
  proof (cases "5 \<le> n")
    case True
    then obtain syms' where d: "b32_drain buffer (n - 5) = (syms', r)"
      and syms: "syms = b32_sym (drop_bit (n - 5) buffer) # syms'"
      using "1.prems" by (auto simp: b32_drain.simps [of buffer n] Let_def split: prod.splits)
    have split: "low_bits buffer n = low_bits (drop_bit (n - 5) buffer) 5 @ low_bits buffer (n - 5)"
      using low_bits_add [of buffer 5 "n - 5"] True by simp
    have "n mod 5 = (n - 5) mod 5"
      using True by (simp add: le_mod_geq)
    then show ?thesis
      using "1.IH" [OF True refl d] by (simp add: split syms groups5_take b32_sym_val)
  next
    case False
    then show ?thesis
      using "1.prems" by (simp add: b32_drain.simps [of buffer n])
  qed
qed

lemma low_bits_shift:
  assumes "n \<le> 4"
  shows "low_bits (push_bit 8 buffer OR ucast b :: u32) (n + 8) = low_bits buffer n @ low_bits (b :: u8) 8"
proof -
  have "bit (drop_bit 8 (push_bit 8 buffer OR ucast b :: u32)) i = bit buffer i" if "i < n" for i
    using that assms by (simp add: bit_simps u8_bit_top)
  then have "low_bits (drop_bit 8 (push_bit 8 buffer OR ucast b :: u32)) n = low_bits buffer n"
    by (simp add: low_bits_def)
  moreover have "low_bits (push_bit 8 buffer OR ucast b :: u32) 8 = low_bits b 8"
    by (simp add: low_bits_def bit_simps)
  ultimately show ?thesis
    by (simp add: low_bits_add)
qed

lemma low_bits_pad:
  assumes "0 < n" and "n < 5"
  shows "low_bits (push_bit (5 - n) buffer :: u32) 5 = low_bits buffer n @ replicate (5 - n) False"
proof -
  let ?w = "push_bit (5 - n) buffer :: u32"
  have "low_bits ?w 5 = low_bits (drop_bit (5 - n) ?w) n @ low_bits ?w (5 - n)"
    using low_bits_add [of ?w n "5 - n"] assms by simp
  also have "low_bits (drop_bit (5 - n) ?w) n = low_bits buffer n"
    using assms by (auto simp: low_bits_def bit_simps)
  also have "low_bits ?w (5 - n) = replicate (5 - n) False"
    by (auto simp: low_bits_def bit_simps intro!: replicate_eqI)
  finally show ?thesis .
qed

lemma groups5_short:
  assumes "0 < n" and "n < 5"
  shows "groups5 (low_bits (w :: u32) n) = [low_bits w n @ replicate (5 - n) False]"
proof -
  consider "n = 1" | "n = 2" | "n = 3" | "n = 4"
    using assms by linarith
  then show ?thesis
    by cases (simp_all add: low_bits_def upt_rec_numeral upt_rec numeral_eq_Suc)
qed

lemma b32_loop_groups:
  "n < 5 \<Longrightarrow> b32_loop input buffer n =
     map (\<lambda>g. B32_CHARS ! bits_val g)
       (groups5 (low_bits buffer n @ concat (map (\<lambda>b. low_bits b 8) input)))"
proof (induction input arbitrary: buffer n)
  case Nil
  then show ?case
    by (auto simp: b32_sym_val low_bits_pad groups5_short) (simp add: low_bits_def)
next
  case (Cons b input)
  let ?buffer = "push_bit 8 buffer OR ucast b :: u32"
  obtain syms r where d: "b32_drain ?buffer (n + 8) = (syms, r)"
    by fastforce
  note g = b32_drain_groups [OF d, of "concat (map (\<lambda>b. low_bits b 8) input)"]
  then have "r < 5"
    by simp
  with Cons d g show ?case
    by (simp add: Let_def low_bits_shift)
qed

lemma base32_encode_spec: "base32_encode input = b32_spec input @ [NUL]"
  using b32_loop_groups [of 0 input 0] by (simp add: base32_encode_def b32_spec_def low_bits_def)

section \<open>Distinct secrets have distinct texts\<close>

lemma groups5_width: "g \<in> set (groups5 bs) \<Longrightarrow> length g = 5"
  by (induction bs rule: groups5.induct) auto

lemma concat_groups5: "\<exists>pad. concat (groups5 bs) = bs @ pad"
  by (induction bs rule: groups5.induct) auto

lemma length_groups5: "length (groups5 bs) = (length bs + 4) div 5"
proof (induction bs rule: groups5.induct)
  case (1 a b c d e rest)
  have "length (a # b # c # d # e # rest) + 4 = (length rest + 4) + 5"
    by simp
  then have "(length (a # b # c # d # e # rest) + 4) div 5 = (length rest + 4) div 5 + 1"
    by (metis div_add_self2 zero_neq_numeral)
  with 1 show ?case by simp
qed simp_all

lemma bits_val_less: "length g = 5 \<Longrightarrow> bits_val g < 32"
  using horner_sum_of_bool_2_less [of "rev g"] by (simp add: bits_val_def)

lemma bits_val_inj:
  assumes "length g = length h" and "bits_val g = bits_val h"
  shows "g = h"
proof -
  have "rev g ! i = rev h ! i" if "i < length g" for i
    using that assms bit_horner_sum_bit_iff [where ?'a = nat, of "rev g" i]
      bit_horner_sum_bit_iff [where ?'a = nat, of "rev h" i]
    by (simp add: bits_val_def)
  then have "rev g = rev h"
    using assms(1) by (intro nth_equalityI) auto
  then show ?thesis by simp
qed

lemma B32_CHARS_inj: "i < 32 \<Longrightarrow> j < 32 \<Longrightarrow> B32_CHARS ! i = B32_CHARS ! j \<Longrightarrow> i = j"
proof -
  have "distinct B32_CHARS" and "length B32_CHARS = 32"
    by (simp_all add: B32_CHARS_def)
  then show "i < 32 \<Longrightarrow> j < 32 \<Longrightarrow> B32_CHARS ! i = B32_CHARS ! j \<Longrightarrow> i = j"
    by (simp add: nth_eq_iff_index_eq)
qed

lemma map_sym_inj:
  assumes "\<forall>g \<in> set gs. length g = 5" and "\<forall>h \<in> set hs. length h = 5"
    and "map (\<lambda>g. B32_CHARS ! bits_val g) gs = map (\<lambda>g. B32_CHARS ! bits_val g) hs"
  shows "gs = hs"
  using assms
proof (induction gs arbitrary: hs)
  case Nil
  then show ?case by simp
next
  case (Cons g gs)
  then obtain h hs' where hs: "hs = h # hs'"
    by (cases hs) auto
  with Cons.prems have w: "length g = 5" "length h = 5"
    and sym: "B32_CHARS ! bits_val g = B32_CHARS ! bits_val h"
    by simp_all
  have "bits_val g = bits_val h"
    by (rule B32_CHARS_inj [OF bits_val_less [OF w(1)] bits_val_less [OF w(2)] sym])
  then have "g = h"
    using w by (simp add: bits_val_inj)
  moreover have "gs = hs'"
    using Cons.prems hs by (intro Cons.IH) simp_all
  ultimately show ?case
    by (simp add: hs)
qed

lemma byte_bits_inj: "concat (map (\<lambda>b. low_bits b 8) xs) = concat (map (\<lambda>b. low_bits b 8) ys) \<Longrightarrow>
  length xs = length ys \<Longrightarrow> xs = (ys :: u8 list)"
proof (induction xs arbitrary: ys)
  case Nil
  then show ?case by simp
next
  case (Cons x xs)
  then obtain y ys' where ys: "ys = y # ys'"
    by (cases ys) auto
  with Cons.prems have l: "low_bits x 8 = low_bits y 8"
    and r: "concat (map (\<lambda>b. low_bits b 8) xs) = concat (map (\<lambda>b. low_bits b 8) ys')"
    by auto
  from l have "x = y"
    by (intro bit_word_eqI) (auto simp: low_bits_def)
  with r Cons ys show ?case by simp
qed

lemma length_byte_bits: "length (concat (map (\<lambda>b. low_bits b 8) (xs :: u8 list))) = 8 * length xs"
  by (induction xs) auto

lemma b32_spec_inj:
  assumes "length xs = length ys" and "b32_spec xs = b32_spec ys"
  shows "xs = ys"
proof -
  let ?b = "\<lambda>xs :: u8 list. concat (map (\<lambda>b. low_bits b 8) xs)"
  have "groups5 (?b xs) = groups5 (?b ys)"
    using assms(2) map_sym_inj groups5_width unfolding b32_spec_def by blast
  then have "take (8 * length xs) (concat (groups5 (?b xs))) =
      take (8 * length xs) (concat (groups5 (?b ys)))"
    by simp
  moreover have "take (8 * length zs) (concat (groups5 (?b zs))) = ?b zs" for zs
    using concat_groups5 [of "?b zs"] length_byte_bits [of zs] by auto
  ultimately have "?b xs = ?b ys"
    using assms(1) by metis
  then show ?thesis
    using assms(1) by (rule byte_bits_inj)
qed

lemma length_base32_encode: "length (base32_encode input) = BASE32_ENCODED_LEN (length input)"
  using length_byte_bits [of input]
  by (simp add: base32_encode_spec b32_spec_def length_groups5 BASE32_ENCODED_LEN_def mult.commute)

section \<open>Properties\<close>

text \<open>
  C34: the accumulator encoder computes the RFC 4648 text of its input (the input's bits,
  grouped into fives from the left, the last group filled with zero bits), NUL-terminated
  and of exactly the length the header's macro reserves; two secrets of one length never
  share a text.
\<close>

theorem base32_encode_correct:
  "base32_encode input = b32_spec input @ [NUL] \<and>
   length (base32_encode input) = BASE32_ENCODED_LEN (length input) \<and>
   inj_on base32_encode {s. length s = n}"
  using b32_spec_inj
  by (auto simp: base32_encode_spec inj_on_def length_base32_encode simp flip: length_base32_encode)

end
