(* ===== verification/Device.thy ===== *)
theory Device imports Text Secret Wifi Door Backup Base64 Base32
begin

text \<open>
  Core 0 as the console commands see it: the state \<open>device\<close> (storage, the admin session of
  \<open>serial/commands.c\<close>, NTP and WiFi state, the door mailbox, the static buffers of the command
  handlers, the log of outputs), what is fixed about a board (\<open>platform\<close>) and what one command
  meets from outside while it runs (\<open>io\<close>): the clock and timer readings it takes, in the order
  it takes them, the characters the console delivers, the requests core 1 posts, the
  answers of the radio.
\<close>

section \<open>Platform and surroundings\<close>

record ('fs, 'f, 'c) platform =
  flash_fs :: "('fs, 'f) lfs_api"
  lfs_crc :: crc32
  hmac_sha1 :: mac
  drbg :: "'c drbg_api"
  qr_modules :: "string \<Rightarrow> bool list list option"  \<comment> \<open>\<open>qrcodegen_encodeText\<close>: the rows of the code\<close>
  board_id :: "u8 list"
  build_time :: u32
  git_hash :: string
  build_date :: string
  git_dirty :: bool

record poll =
  posted :: "(u32 \<times> u16 \<times> u32) option"  \<comment> \<open>a request of core 1 since the last iteration\<close>
  door_clock :: "datetime_t option"  \<comment> \<open>the RTC, should the door be serviced\<close>
  got :: "char option"  \<comment> \<open>\<open>getchar_timeout_us\<close>; \<open>None\<close> is \<open>PICO_ERROR_TIMEOUT\<close>\<close>

record 'a io =
  t_gate :: u64  \<comment> \<open>\<open>time_us_64\<close> when the dispatcher checks the session\<close>
  t_check :: u64  \<comment> \<open>its first reading in a handler\<close>
  t_again :: u64  \<comment> \<open>its second reading in a handler\<close>
  t_grant :: u64  \<comment> \<open>in \<open>commands_admin_grant\<close> called by a handler\<close>
  t_refresh :: u64  \<comment> \<open>in \<open>commands_admin_grant\<close> called by the dispatcher\<close>
  rtc_first :: "datetime_t option"  \<comment> \<open>the first RTC reading of a handler\<close>
  rtc_second :: "datetime_t option"
  rng :: "nat \<Rightarrow> u64"
  confirm_polls :: "poll list"  \<comment> \<open>the iterations of a wait for CONFIRM before its deadline\<close>
  paste_polls :: "poll list"
  radio :: cyw43
  sync :: "'a sync_env"

record ('fs, 'a) device =
  disk :: "'fs store"
  admin_mode :: bool
  admin_deadline_us :: u64
  net :: "'a ntp"
  wlan :: wifi_state
  mbox :: mailbox
  last_handled_seq :: u32
  status_keys :: "key_record_t list"  \<comment> \<open>the \<open>static key_record_t keys[]\<close> of \<open>cmd_status\<close>\<close>
  login_keys :: "key_record_t list"
  list_keys :: "key_record_t list"
  export_buf :: "u8 list"
  export_b64 :: string
  import_b64 :: string
  import_buf :: "u8 list"
  qr_buf :: "bool list list"  \<comment> \<open>\<open>static uint8_t qr[]\<close> of \<open>cmd_get_key_secret\<close>: the code it holds\<close>
  log :: "effect list"
  halted :: bool  \<comment> \<open>in one of the loops that wait for a reset\<close>

section \<open>Output\<close>

definition say :: "string \<Rightarrow> ('fs, 'a) device \<Rightarrow> ('fs, 'a) device" where
  "say s d = d\<lparr>log := log d @ [Out s]\<rparr>"

definition line :: "string \<Rightarrow> ('fs, 'a) device \<Rightarrow> ('fs, 'a) device" where
  "line s d = say (s @ CRLF) d"

definition play :: "effect list \<Rightarrow> ('fs, 'a) device \<Rightarrow> ('fs, 'a) device" where
  "play es d = d\<lparr>log := log d @ es\<rparr>"

fun lines_out :: "string list \<Rightarrow> ('fs, 'a) device \<Rightarrow> ('fs, 'a) device" where
  "lines_out [] d = d"
| "lines_out (s # ss) d = lines_out ss (line s d)"

section \<open>Static buffers\<close>

definition zero_key :: key_record_t where
  \<comment> \<open>a \<open>key_record_t\<close> of zero bytes\<close>
  "zero_key = \<lparr>key_id = 0, key_name = replicate KEY_NAME_MAX NUL, secret = replicate KEY_SECRET_LEN 0,
     is_enabled = False, is_admin = False, created_at = 0, is_checksum_valid = False\<rparr>"

definition wiped_keys :: "key_record_t list" where
  "wiped_keys = replicate BACKUP_MAX_KEYS zero_key"

definition BACKUP_BUF_LEN :: nat where
  "BACKUP_BUF_LEN = SIZEOF_HEADER + BACKUP_MAX_KEYS * SIZEOF_BACKUP_KEY"

definition wiped_bytes :: "u8 list" where
  "wiped_bytes = replicate BACKUP_BUF_LEN 0"

definition wiped_text :: string where
  "wiped_text = replicate (BASE64_ENCODED_LEN BACKUP_BUF_LEN) NUL"

definition filled :: "key_record_t list option \<Rightarrow> key_record_t list \<Rightarrow> key_record_t list" where
  \<comment> \<open>the array after \<open>storage_key_list\<close>\<close>
  "filled r buf = (case r of None \<Rightarrow> buf | Some rs \<Rightarrow> overwrite rs buf)"

definition count_of :: "key_record_t list option \<Rightarrow> int" where
  "count_of r = (case r of None \<Rightarrow> -1 | Some rs \<Rightarrow> int (length rs))"

section \<open>The admin session\<close>

definition ADMIN_IDLE_TIMEOUT_US :: u64 where
  "ADMIN_IDLE_TIMEOUT_US = 5 * 60 * 1000000"

definition commands_is_admin :: "('fs, 'a) device \<Rightarrow> bool" where
  "commands_is_admin d = admin_mode d"

definition commands_admin_grant :: "u64 \<Rightarrow> ('fs, 'a) device \<Rightarrow> ('fs, 'a) device" where
  "commands_admin_grant now d = d\<lparr>admin_mode := True, admin_deadline_us := now + ADMIN_IDLE_TIMEOUT_US\<rparr>"

definition admin_session_expired :: "u64 \<Rightarrow> ('fs, 'a) device \<Rightarrow> bool \<times> ('fs, 'a) device" where
  "admin_session_expired now d =
     (if admin_mode d \<and> admin_deadline_us d \<noteq> 0 \<and> admin_deadline_us d \<le> now
      then (True, d\<lparr>admin_mode := False, admin_deadline_us := 0\<rparr>)
      else (False, d))"

definition commands_on_disconnect :: "('fs, 'a) device \<Rightarrow> ('fs, 'a) device" where
  "commands_on_disconnect d =
     (if admin_mode d
      then line ''[console] USB disconnected - admin session ended''
             (d\<lparr>admin_mode := False, admin_deadline_us := 0\<rparr>)
      else d)"

section \<open>Servicing the door while waiting\<close>

definition serve_door ::
  "('fs, 'f, 'c) platform \<Rightarrow> datetime_t option \<Rightarrow> ('fs, 'a) device \<Rightarrow> ('fs, 'a) device" where
  \<comment> \<open>\<open>core0_handle_door_verify\<close> on the device, with the line it prints for a request\<close>
  "serve_door P clock d =
     (let (n, m, st) = core0_handle_door_verify
            (\<lambda>i c st. door_verdict (flash_fs P) (lfs_crc P) (hmac_sha1 P) i c (st, clock))
            (last_handled_seq d) (mbox d) (disk d);
          d' = d\<lparr>last_handled_seq := n, mbox := m, disk := st\<rparr>
      in if request_seq (mbox d) = last_handled_seq d then d'
         else line (door_report (flash_fs P) (lfs_crc P) (hmac_sha1 P) (request_id (mbox d))
                (request_code (mbox d)) (disk d, clock)) d')"

definition arrive :: "poll \<Rightarrow> ('fs, 'a) device \<Rightarrow> ('fs, 'a) device" where
  "arrive p d = (case posted p of
     None \<Rightarrow> d
   | Some (n, i, c) \<Rightarrow> d\<lparr>mbox := (mbox d)\<lparr>request_id := i, request_code := c, request_seq := n\<rparr>\<rparr>)"

fun read_confirm ::
  "('fs, 'f, 'c) platform \<Rightarrow> bool \<Rightarrow> poll list \<Rightarrow> string \<Rightarrow> ('fs, 'a) device \<Rightarrow> string \<times> ('fs, 'a) device" where
  \<comment> \<open>the wait for CONFIRM: of \<open>cmd_format_storage\<close>, which services the door in it, and of
      \<open>cmd_import_keys\<close>, which does not\<close>
  "read_confirm P serve [] confirm d = (confirm, d)"
| "read_confirm P serve (p # ps) confirm d =
     (if 7 \<le> length confirm then (confirm, d)
      else let d = arrive p d;
               d = (if serve then serve_door P (door_clock p) d else d)
      in case got p of
           None \<Rightarrow> read_confirm P serve ps confirm (play [SleepMs 10] d)
         | Some c \<Rightarrow>
             if c = CHR 0x0D \<or> c = CHR 0x0A then (confirm, say CRLF d)
             else read_confirm P serve ps (confirm @ [c]) (say [c] d))"

definition confirmed :: "string \<Rightarrow> bool" where
  \<comment> \<open>\<open>strncmp(confirm, "CONFIRM", 7) == 0\<close> on the zero-initialised array of ten\<close>
  "confirmed confirm = (take 7 (confirm @ replicate (10 - length confirm) NUL) = ''CONFIRM'')"

definition arg_id :: "string list \<Rightarrow> u16" where
  \<comment> \<open>\<open>(uint16_t)strtoul(argv[1], NULL, 10)\<close>\<close>
  "arg_id argv = ucast (strtoul10 (argv ! 1))"

definition device_boot :: "'a ntp \<Rightarrow> 'fs store \<Rightarrow> ('fs, 'a) device" where
  \<comment> \<open>the static initialisers\<close>
  "device_boot n st = \<lparr>disk = st, admin_mode = False, admin_deadline_us = 0, net = n,
     wlan = wifi_boot, mbox = mailbox_boot, last_handled_seq = 0, status_keys = wiped_keys,
     login_keys = wiped_keys, list_keys = wiped_keys, export_buf = wiped_bytes,
     export_b64 = wiped_text, import_b64 = wiped_text, import_buf = wiped_bytes, qr_buf = [], log = [],
     halted = False\<rparr>"

section \<open>What output leaves alone\<close>

lemma say_frame [simp]:
  "disk (say s d) = disk d" "admin_mode (say s d) = admin_mode d" "admin_deadline_us (say s d) =
  admin_deadline_us d" "net (say s d) = net d" "wlan (say s d) = wlan d" "mbox (say s d) = mbox d"
  "last_handled_seq (say s d) = last_handled_seq d" "status_keys (say s d) = status_keys d" "login_keys (say s
  d) = login_keys d" "list_keys (say s d) = list_keys d" "export_buf (say s d) = export_buf d" "export_b64
  (say s d) = export_b64 d" "import_b64 (say s d) = import_b64 d" "import_buf (say s d) = import_buf d"
  "halted (say s d) = halted d"
  by (simp_all add: say_def)

lemma play_frame [simp]:
  "disk (play es d) = disk d" "admin_mode (play es d) = admin_mode d" "admin_deadline_us (play es d) =
  admin_deadline_us d" "net (play es d) = net d" "wlan (play es d) = wlan d" "mbox (play es d) = mbox d"
  "last_handled_seq (play es d) = last_handled_seq d" "status_keys (play es d) = status_keys d" "login_keys
  (play es d) = login_keys d" "list_keys (play es d) = list_keys d" "export_buf (play es d) = export_buf d"
  "export_b64 (play es d) = export_b64 d" "import_b64 (play es d) = import_b64 d" "import_buf (play es d) =
  import_buf d" "halted (play es d) = halted d"
  by (simp_all add: play_def)

lemma line_frame [simp]:
  "disk (line s d) = disk d" "admin_mode (line s d) = admin_mode d" "admin_deadline_us (line s d) =
  admin_deadline_us d" "net (line s d) = net d" "wlan (line s d) = wlan d" "mbox (line s d) = mbox d"
  "last_handled_seq (line s d) = last_handled_seq d" "status_keys (line s d) = status_keys d" "login_keys
  (line s d) = login_keys d" "list_keys (line s d) = list_keys d" "export_buf (line s d) = export_buf d"
  "export_b64 (line s d) = export_b64 d" "import_b64 (line s d) = import_b64 d" "import_buf (line s d) =
  import_buf d" "halted (line s d) = halted d"
  by (simp_all add: line_def)

lemma lines_out_frame [simp]:
  "disk (lines_out ss d) = disk d" "admin_mode (lines_out ss d) = admin_mode d" "admin_deadline_us (lines_out
  ss d) = admin_deadline_us d" "net (lines_out ss d) = net d" "wlan (lines_out ss d) = wlan d" "mbox
  (lines_out ss d) = mbox d" "last_handled_seq (lines_out ss d) = last_handled_seq d" "status_keys (lines_out
  ss d) = status_keys d" "login_keys (lines_out ss d) = login_keys d" "list_keys (lines_out ss d) = list_keys
  d" "export_buf (lines_out ss d) = export_buf d" "export_b64 (lines_out ss d) = export_b64 d" "import_b64
  (lines_out ss d) = import_b64 d" "import_buf (lines_out ss d) = import_buf d" "halted (lines_out ss d) =
  halted d"
  by (induction ss arbitrary: d) simp_all

section \<open>What is stored\<close>

definition same_disk :: "('fs, 'f) lfs_view \<Rightarrow> 'fs store \<Rightarrow> 'fs store \<Rightarrow> bool" where
  "same_disk V st st' \<longleftrightarrow> same_volume V (lfs st) (lfs st') \<and> mounted st' = mounted st"

lemma same_disk_refl [simp]: "same_disk V st st"
  by (simp add: same_disk_def same_volume_def)

lemma same_disk_trans [trans]: "same_disk V st st' \<Longrightarrow> same_disk V st' st'' \<Longrightarrow> same_disk V st st''"
  by (simp add: same_disk_def same_volume_def)

lemma same_disk_key_map: "same_disk V st st' \<Longrightarrow> key_map V crc st' = key_map V crc st"
  by (simp add: same_disk_def key_map_same)

lemma same_disk_store_ok: "same_disk V st st' \<Longrightarrow> store_ok L V crc st \<Longrightarrow> store_ok L V crc st'"
  by (auto simp: same_disk_def intro: store_ok_same)

lemma get_same_disk: "lfs_laws L V \<Longrightarrow> storage_key_get L crc i st = (r, st') \<Longrightarrow> same_disk V st st'"
  by (simp add: same_disk_def get_spec(1,2))

lemma wifi_get_same_disk: "lfs_laws L V \<Longrightarrow> storage_wifi_get L st = (r, st') \<Longrightarrow> same_disk V st st'"
  by (simp add: same_disk_def wifi_get_spec(1,2))

lemma list_loop_same_disk:
  "lfs_laws L V \<Longrightarrow> list_loop L crc es n st = (rs, st') \<Longrightarrow> same_disk V st st'"
proof (induction L crc es n st arbitrary: rs st' rule: list_loop.induct)
  case (2 L crc e es n st)
  obtain r st1 where g: "storage_key_get L crc (ucast (strtoul10 (info_name e))) st = (r, st1)"
    by fastforce
  show ?case
  proof (cases "n = 0 \<or> info_type e \<noteq> LFS_TYPE_REG")
    case True
    then show ?thesis
      using 2 by (auto split: if_splits)
  next
    case False
    then show ?thesis
      using 2 get_same_disk [OF 2(4) g] g
      by (cases r) (auto intro: same_disk_trans split: prod.splits)
  qed
qed simp

lemma list_same_disk:
  "lfs_laws L V \<Longrightarrow> storage_key_list L crc n st = (r, st') \<Longrightarrow> same_disk V st st'"
  using list_loop_same_disk
  by (fastforce simp: storage_key_list_def Let_def split: if_splits option.splits prod.splits)

lemma door_verdict_same_disk:
  assumes "lfs_laws L V" and "door_verdict L crc hmac i c (st, clock) = (g, st')"
  shows "same_disk V st st'"
proof -
  obtain r st1 where k: "storage_key_get L crc i st = (r, st1)"
    by fastforce
  have "st' = st1"
    using assms(2) by (auto simp: door_verdict_def k split: option.splits if_splits)
  then show ?thesis
    using get_same_disk [OF assms(1) k] by simp
qed

section \<open>What a wait leaves alone\<close>

lemma arrive_disk [simp]: "disk (arrive p d) = disk d"
  by (simp add: arrive_def split: option.split)

lemma serve_door_disk:
  assumes "lfs_laws (flash_fs P) V"
  shows "same_disk V (disk d) (disk (serve_door P clock d))"
proof -
  obtain g st where v: "door_verdict (flash_fs P) (lfs_crc P) (hmac_sha1 P) (request_id (mbox d))
      (request_code (mbox d)) (disk d, clock) = (g, st)"
    by fastforce
  show ?thesis
    using door_verdict_same_disk [OF assms v]
    by (auto simp: serve_door_def core0_handle_door_verify_def v Let_def)
qed

text \<open>Waiting only moves the door mailbox and the log.\<close>

definition waited :: "('fs, 'f) lfs_view \<Rightarrow> ('fs, 'a) device \<Rightarrow> ('fs, 'a) device \<Rightarrow> bool" where
  "waited V d d' \<longleftrightarrow> same_disk V (disk d) (disk d') \<and>
     d' = d\<lparr>disk := disk d', mbox := mbox d', last_handled_seq := last_handled_seq d', log := log d'\<rparr>"

lemma waited_refl [simp]: "waited V d d"
  by (simp add: waited_def)

lemma waited_trans: "waited V d d' \<Longrightarrow> waited V d' d'' \<Longrightarrow> waited V d d''"
  unfolding waited_def by (cases d; cases d'; cases d'') (auto intro: same_disk_trans)

lemma waited_say [simp]: "waited V d (say s d)" "waited V d (play es d)" "waited V d (line s d)"
  by (simp_all add: waited_def say_def play_def line_def)

lemma waited_arrive: "waited V d (arrive p d)"
  by (simp add: waited_def) (simp add: arrive_def split: option.split)

lemma waited_serve: "lfs_laws (flash_fs P) V \<Longrightarrow> waited V d (serve_door P clock d)"
  using serve_door_disk [of P V d clock] by (simp add: waited_def serve_door_def line_def say_def Let_def split_def split: if_splits)

lemma waited_confirm:
  assumes L: "lfs_laws (flash_fs P) V" and "read_confirm P serve ps c d = (c', d')"
  shows "waited V d d'"
  using assms(2)
proof (induction ps arbitrary: c d)
  case (Cons p ps)
  define e where "e = (if serve then serve_door P (door_clock p) (arrive p d) else arrive p d)"
  have e: "waited V d e"
    by (simp add: e_def waited_arrive waited_trans [OF waited_arrive waited_serve [OF L]])
  have r: "read_confirm P serve (p # ps) c d =
     (if 7 \<le> length c then (c, d)
      else case got p of
           None \<Rightarrow> read_confirm P serve ps c (play [SleepMs 10] e)
         | Some k \<Rightarrow>
             if k = CHR 0x0D \<or> k = CHR 0x0A then (c, say CRLF e)
             else read_confirm P serve ps (c @ [k]) (say [k] e))"
    by (simp only: read_confirm.simps Let_def e_def)
  have step: "waited V d (play es e)" "waited V d (say s e)" for es s
    by (rule waited_trans [OF e], simp)+
  show ?case
    using Cons.prems step waited_trans [OF step(1) Cons.IH] waited_trans [OF step(2) Cons.IH]
    unfolding r by (auto split: if_splits option.splits)
qed simp

lemma waitedD:
  assumes "waited V d d'"
  shows "same_disk V (disk d) (disk d')" "admin_mode d' = admin_mode d" "admin_deadline_us d' = admin_deadline_us d"
    "net d' = net d" "wlan d' = wlan d" "status_keys d' = status_keys d" "login_keys d' = login_keys d"
    "list_keys d' = list_keys d" "export_buf d' = export_buf d" "export_b64 d' = export_b64 d"
    "import_b64 d' = import_b64 d" "import_buf d' = import_buf d" "halted d' = halted d"
  using assms unfolding waited_def by (cases d; cases d'; simp)+

section \<open>Commands that only read\<close>

definition clean :: "('fs, 'a) device \<Rightarrow> bool" where
  \<comment> \<open>no static buffer of a command handler holds anything\<close>
  "clean d \<longleftrightarrow> status_keys d = wiped_keys \<and> login_keys d = wiped_keys \<and> list_keys d = wiped_keys \<and>
     export_buf d = wiped_bytes \<and> export_b64 d = wiped_text \<and> import_b64 d = wiped_text \<and>
     import_buf d = wiped_bytes"

definition same_session :: "('fs, 'a) device \<Rightarrow> ('fs, 'a) device \<Rightarrow> bool" where
  "same_session d d' \<longleftrightarrow> admin_mode d' = admin_mode d \<and> admin_deadline_us d' = admin_deadline_us d \<and>
     net d' = net d \<and> wlan d' = wlan d \<and> halted d' = halted d \<and> import_b64 d' = import_b64 d \<and>
     (clean d \<longrightarrow> clean d')"

definition reads :: "('fs, 'f) lfs_view \<Rightarrow> ('fs, 'a) device \<Rightarrow> ('fs, 'a) device \<Rightarrow> bool" where
  "reads V d d' \<longleftrightarrow> same_disk V (disk d) (disk d') \<and> same_session d d'"

lemma same_session_refl [simp]: "same_session d d"
  by (simp add: same_session_def)

lemma same_session_trans [trans]: "same_session d d' \<Longrightarrow> same_session d' d'' \<Longrightarrow> same_session d d''"
  by (auto simp: same_session_def)

lemma clean_frame [simp]:
  "clean (say s d) = clean d" "clean (line s d) = clean d" "clean (play es d) = clean d"
  "clean (lines_out ss d) = clean d" "clean (d\<lparr>disk := st\<rparr>) = clean d" "clean (d\<lparr>admin_mode := b\<rparr>) = clean d"
  "clean (d\<lparr>admin_deadline_us := t\<rparr>) = clean d" "clean (d\<lparr>net := n\<rparr>) = clean d"
  "clean (d\<lparr>wlan := w\<rparr>) = clean d" "clean (d\<lparr>halted := b\<rparr>) = clean d" "clean (d\<lparr>qr_buf := q\<rparr>) = clean d"
  by (simp_all add: clean_def)

lemma same_session_frame [simp]:
  "same_session d (say s d') = same_session d d'" "same_session d (line s d') = same_session d d'"
  "same_session d (play es d') = same_session d d'" "same_session d (lines_out ss d') = same_session d d'"
  "same_session d (d'\<lparr>disk := st\<rparr>) = same_session d d'"
  "same_session d (d'\<lparr>qr_buf := q\<rparr>) = same_session d d'"
  by (simp_all add: same_session_def)

lemma reads_refl [simp]: "reads V d d"
  by (simp add: reads_def)

lemma reads_trans [trans]: "reads V d d' \<Longrightarrow> reads V d' d'' \<Longrightarrow> reads V d d''"
  by (auto simp: reads_def intro: same_disk_trans same_session_trans)

lemma reads_frame [simp]:
  "reads V d (say s d') = reads V d d'" "reads V d (line s d') = reads V d d'"
  "reads V d (play es d') = reads V d d'" "reads V d (lines_out ss d') = reads V d d'"
  by (simp_all add: reads_def)

lemma reads_frame_left [simp]:
  "reads V (say s d) d' = reads V d d'" "reads V (line s d) d' = reads V d d'"
  "reads V (play es d) d' = reads V d d'"
  by (simp_all add: reads_def same_session_def)

lemma waited_reads: "waited V d d' \<Longrightarrow> reads V d d'"
  using waitedD [of V d d'] by (simp add: reads_def same_session_def clean_def)

lemma admin_grant_fields [simp]:
  "disk (commands_admin_grant t d) = disk d" "admin_mode (commands_admin_grant t d)"
  "admin_deadline_us (commands_admin_grant t d) = t + ADMIN_IDLE_TIMEOUT_US"
  "net (commands_admin_grant t d) = net d" "wlan (commands_admin_grant t d) = wlan d"
  "halted (commands_admin_grant t d) = halted d" "import_b64 (commands_admin_grant t d) = import_b64 d" "clean (commands_admin_grant t d) = clean d"
  by (simp_all add: commands_admin_grant_def)

section \<open>A device to evaluate with\<close>

definition demo_platform :: "(ram, fview option, nat) platform" where
  "demo_platform = \<lparr>flash_fs = ram_api, lfs_crc = sum_crc, hmac_sha1 = echo_mac, drbg = len_drbg 0,
     qr_modules = (\<lambda>_. None), board_id = replicate 8 9, build_time = 1700000000, git_hash = ''abc'',
     build_date = ''today'', git_dirty = False\<rparr>"

definition demo_wifi :: wifi_config_t where
  "demo_wifi = \<lparr>ssid = ''lab'' @ replicate 61 NUL, password = ''secret12'' @ replicate 56 NUL\<rparr>"

definition demo_store :: "ram store" where
  \<comment> \<open>WiFi credentials and the administrator key 5\<close>
  "demo_store = \<lparr>lfs = \<lparr>ram_files = [(FILE_WIFI, wifi_image demo_wifi),
       (key_path 5, stored_image (to_stored sum_crc (door_key 5 True)))], ram_dirs = [DIR_KEYS]\<rparr>, mounted = True\<rparr>"

definition demo_device :: "(ram, nat) device" where
  "demo_device = device_boot (ntp_boot 0) demo_store"

definition demo_io :: "nat io" where
  \<comment> \<open>ten minutes after boot, the clock at one minute past the epoch\<close>
  "demo_io = \<lparr>t_gate = 600000000, t_check = 600000001, t_again = 600000002, t_grant = 600000003,
     t_refresh = 600000004, rtc_first = Some minute_one, rtc_second = Some minute_one, rng = of_nat,
     confirm_polls = [], paste_polls = [], radio = dead_radio,
     sync = \<lparr>pcb_new = False, dns = ERR_OTHER, polls = [], last_poll = []\<rparr>\<rparr>"

lemma demo_key_map: "key_map ram_view sum_crc demo_store = [5 \<mapsto> norm_key (door_key 5 True)]"
proof (rule ext)
  fix i
  show "key_map ram_view sum_crc demo_store i = [5 \<mapsto> norm_key (door_key 5 True)] i"
    using decode_saved [OF wf_door_key, of sum_crc 5 True]
    by (auto simp: key_map_def demo_store_def ram_view_def)
qed

lemma demo_store_ok: "store_ok ram_api ram_view sum_crc demo_store"
proof -
  have "key_path 5 \<noteq> FILE_WIFI" "\<not> key_file FILE_WIFI" "(5::u16) \<le> KEY_ID_MAX"
    by (simp_all add: KEY_ID_MAX_def)
  then have "names_ok ram_view demo_store"
    by (auto simp: names_ok_def demo_store_def ram_view_def split: if_splits)
      (auto simp: FILE_WIFI_def DIR_KEYS_def)
  moreover have "mounted demo_store"
    by (simp add: demo_store_def)
  ultimately show ?thesis
    by (simp add: store_ok_def ram_laws ram_reliable demo_key_map)
qed

lemma demo_fields [simp]:
  "flash_fs demo_platform = ram_api" "lfs_crc demo_platform = sum_crc" "hmac_sha1 demo_platform = echo_mac"
  "drbg demo_platform = len_drbg 0" "disk demo_device = demo_store" "\<not> admin_mode demo_device"
  "rtc_first demo_io = Some minute_one" "rtc_second demo_io = Some minute_one" "mounted demo_store"
  by (simp_all add: demo_platform_def demo_device_def device_boot_def demo_io_def demo_store_def)

end
