(* ===== verification/CmdSystem.thy ===== *)
theory CmdSystem imports Device
begin

text \<open>
  \<open>serial/commands_system.c\<close>: status, get-time, test, login, logout, reboot and format-storage,
  and what a login is granted for.
\<close>

definition BOOT_BYPASS_WINDOW_US :: u64 where
  "BOOT_BYPASS_WINDOW_US = 5 * 60 * 1000000"

section \<open>Status and time\<close>

definition uptime_line :: "u64 \<Rightarrow> string" where
  "uptime_line now =
     (let up_s = now div 1000000 in
      ''uptime:    '' @ udec (unat (up_s div 3600)) @ ''h '' @ udec (unat (up_s mod 3600 div 60)) @ ''m '' @
      udec (unat (up_s mod 60)) @ ''s'')"

definition key_counts_line :: "key_record_t list option \<Rightarrow> string" where
  \<comment> \<open>the loop over the listed records: corrupt ones are not counted as enabled\<close>
  "key_counts_line r =
     (let rs = (case r of None \<Rightarrow> [] | Some rs \<Rightarrow> rs);
          corrupt = length (filter (\<lambda>k. \<not> is_checksum_valid k) rs);
          enabled = length (filter (\<lambda>k. is_checksum_valid k \<and> is_enabled k) rs)
      in ''keys:      '' @ sdec (count_of r) @ '' total, '' @ udec enabled @ '' enabled, '' @ udec corrupt @ '' corrupt'')"

definition status_head :: "('fs, 'f, 'c) platform \<Rightarrow> 'a io \<Rightarrow> ('fs, 'a) device \<Rightarrow> string list" where
  \<comment> \<open>mode, build, uptime and, for an administrator, the board identifier\<close>
  "status_head P x d =
     [''mode:      '' @ (if admin_mode d then ''admin'' else ''user''),
      ''build:     '' @ git_hash P @ '' '' @ build_date P @ '' '' @ (if git_dirty P then '' [DIRTY]'' else []),
      uptime_line (t_check x)] @
     (if commands_is_admin d then [''board id:  '' @ concat (map hex2 (board_id P))] else [])"

definition status_wifi :: "('fs, 'f, 'c) platform \<Rightarrow> ('fs, 'a) device \<Rightarrow> ('fs, 'a) device" where
  "status_wifi P d =
     (let (wifi, st) = storage_wifi_get (flash_fs P) (disk d); d = d\<lparr>disk := st\<rparr> in
      case wifi of
        Some cfg \<Rightarrow> line (''wifi:      '' @ cstr (ssid cfg)) d
      | None \<Rightarrow> line ''wifi:      not configured'' d)"

definition status_ntp :: "('fs, 'a) device \<Rightarrow> ('fs, 'a) device" where
  "status_ntp d =
     (if ntp_is_synced (net d)
      then line (''ntp:       synced, last sync '' @ strftime_utc (ntp_last_sync_time (net d)) @ '' UTC'') d
      else line ''ntp:       not synced'' d)"

definition status_key_counts :: "('fs, 'f, 'c) platform \<Rightarrow> ('fs, 'a) device \<Rightarrow> ('fs, 'a) device" where
  "status_key_counts P d =
     (if commands_is_admin d
      then let (r, st) = storage_key_list (flash_fs P) (lfs_crc P) (int BACKUP_MAX_KEYS) (disk d);
               d = d\<lparr>disk := st, status_keys := filled r (status_keys d)\<rparr>;
               d = line (key_counts_line r) d
           in d\<lparr>status_keys := wiped_keys\<rparr>
      else d)"

definition cmd_status ::
  "('fs, 'f, 'c) platform \<Rightarrow> 'a io \<Rightarrow> string list \<Rightarrow> ('fs, 'a) device \<Rightarrow> ('fs, 'a) device" where
  "cmd_status P x argv d =
     (let d = lines_out (status_head P x d) d;
          d = status_wifi P d;
          d = status_ntp d;
          d = status_key_counts P d
      in play buzzer_play_command_ack d)"

definition cmd_get_time ::
  "('fs, 'f, 'c) platform \<Rightarrow> 'a io \<Rightarrow> string list \<Rightarrow> ('fs, 'a) device \<Rightarrow> ('fs, 'a) device" where
  "cmd_get_time P x argv d =
     (case clock_get_unix_time (rtc_first x) of
        None \<Rightarrow> play buzzer_play_command_ack (line ''time: not set'' d)
      | Some t \<Rightarrow>
          let d = line (''time: '' @ strftime_utc t @ '' UTC'') d;
              last_sync = ntp_last_sync_time (net d);
              d = (if 0 < last_sync
                   then line (''last sync: '' @ strftime_utc last_sync @ '' UTC'') d
                   else line ''last sync: never'' d)
          in play buzzer_play_command_ack d)"

definition cmd_test ::
  "('fs, 'f, 'c) platform \<Rightarrow> 'a io \<Rightarrow> string list \<Rightarrow> ('fs, 'a) device \<Rightarrow> ('fs, 'a) device" where
  "cmd_test P x argv d =
     play (light_on @ [SleepMs 1000] @ light_off @ led_on @ [SleepMs 1000] @ led_off @ latch_open @
           buzzer_play_command_ack) d"

section \<open>Login and logout\<close>

definition is_valid_admin :: "key_record_t \<Rightarrow> bool" where
  "is_valid_admin k \<longleftrightarrow> is_admin k \<and> is_enabled k \<and> is_checksum_valid k"

definition login_ok :: "u64 \<Rightarrow> string \<Rightarrow> ('fs, 'a) device \<Rightarrow> ('fs, 'a) device" where
  \<comment> \<open>the tail of every granting branch, after its warning\<close>
  "login_ok now warning d =
     (let d = (if warning = [] then d else line warning d);
          d = commands_admin_grant now d
      in play buzzer_play_command_ack (line ''login: admin mode enabled'' d))"

definition login_refused :: "string \<Rightarrow> ('fs, 'a) device \<Rightarrow> ('fs, 'a) device" where
  "login_refused message d = play buzzer_play_auth_error (line message d)"

definition cmd_login ::
  "('fs, 'f, 'c) platform \<Rightarrow> 'a io \<Rightarrow> string list \<Rightarrow> ('fs, 'a) device \<Rightarrow> ('fs, 'a) device" where
  "cmd_login P x argv d =
     (let i = arg_id argv; code = strtoul10 (argv ! 2);
          (r, st) = storage_key_list (flash_fs P) (lfs_crc P) (int BACKUP_MAX_KEYS) (disk d);
          d = d\<lparr>disk := st, login_keys := filled r (login_keys d)\<rparr>;
          any_admin = (case r of None \<Rightarrow> False | Some rs \<Rightarrow> list_ex is_valid_admin rs);
          d = d\<lparr>login_keys := wiped_keys\<rparr>
      in if \<not> storage_is_mounted (disk d) then login_refused ''error: storage unavailable'' d
      else let (wifi, st) = storage_wifi_get (flash_fs P) (disk d); d = d\<lparr>disk := st\<rparr> in
      if wifi = None then login_ok (t_grant x) ''warning: wifi not configured - open mode'' d
      else if clock_get_unix_time (rtc_first x) = None
      then (if BOOT_BYPASS_WINDOW_US \<le> t_check x
            then login_ok (t_grant x) ''warning: RTC not set - open mode'' d
            else let remaining_us = BOOT_BYPASS_WINDOW_US - t_again x;
                     remaining_s = (ucast (remaining_us div 1000000) :: u32)
                 in login_refused (''error: RTC not set, try again in '' @ udec (unat remaining_s) @ ''s'') d)
      else if \<not> any_admin
      then login_ok (t_grant x) ''warning: no admin keys configured - bootstrap mode'' d
      else let (k, st) = storage_key_get (flash_fs P) (lfs_crc P) i (disk d); d = d\<lparr>disk := st\<rparr> in
      case k of
        None \<Rightarrow> login_refused ''error: invalid credentials'' d
      | Some key \<Rightarrow>
          if \<not> is_enabled key \<or> \<not> is_admin key \<or> \<not> is_checksum_valid key
          then login_refused ''error: invalid credentials'' d
          else if \<not> totp_verify (hmac_sha1 P) (rtc_second x) (secret key) code
          then login_refused ''error: invalid credentials'' d
          else login_ok (t_grant x) [] d)"

definition cmd_logout ::
  "('fs, 'f, 'c) platform \<Rightarrow> 'a io \<Rightarrow> string list \<Rightarrow> ('fs, 'a) device \<Rightarrow> ('fs, 'a) device" where
  "cmd_logout P x argv d =
     play buzzer_play_command_ack (line ''logout: admin mode disabled'' (d\<lparr>admin_mode := False\<rparr>))"

section \<open>Reboot and format\<close>

definition cmd_reboot ::
  "('fs, 'f, 'c) platform \<Rightarrow> 'a io \<Rightarrow> string list \<Rightarrow> ('fs, 'a) device \<Rightarrow> ('fs, 'a) device" where
  "cmd_reboot P x argv d =
     (play (buzzer_play_command_ack @ [SleepMs 200, SystemReset]) (line ''rebooting...'' d))\<lparr>halted := True\<rparr>"

definition cmd_format_storage ::
  "('fs, 'f, 'c) platform \<Rightarrow> 'a io \<Rightarrow> string list \<Rightarrow> ('fs, 'a) device \<Rightarrow> ('fs, 'a) device" where
  "cmd_format_storage P x argv d =
     (if storage_is_mounted (disk d)
      then play buzzer_play_command_ack (lines_out
             [''error: storage is working fine - format refused'',
              ''use '' @ quoted ''export-keys'' @ '' + '' @ quoted ''reboot'' @ '' + '' @ quoted ''format-storage'' @
              '' if you really want this''] d)
      else let d = line ''*** WARNING: this will permanently delete ALL keys ***'' d;
               d = say ''type CONFIRM to proceed: '' d;
               (confirm, d) = read_confirm P True (confirm_polls x) [] d
      in if \<not> confirmed confirm then play buzzer_play_command_ack (line ''error: aborted'' d)
      else let d = line ''formatting...'' d;
               (ok, st) = storage_format (flash_fs P) (disk d);
               d = d\<lparr>disk := st\<rparr>
      in if ok then (play (buzzer_play_boot @ [WatchdogReboot 500]) (line ''done - rebooting'' d))\<lparr>halted := True\<rparr>
         else play buzzer_play_auth_error (line ''error: format failed - hardware may be dead'' d))"

section \<open>What they change\<close>

lemma status_wifi_reads: "lfs_laws (flash_fs P) V \<Longrightarrow> reads V d (status_wifi P d)"
  using wifi_get_same_disk [of "flash_fs P" V "disk d"]
  by (auto simp: status_wifi_def reads_def Let_def split: prod.split option.split)

lemma status_key_counts_reads: "lfs_laws (flash_fs P) V \<Longrightarrow> reads V d (status_key_counts P d)"
  using list_same_disk [of "flash_fs P" V "lfs_crc P" "int BACKUP_MAX_KEYS" "disk d"]
  by (auto simp: status_key_counts_def reads_def same_session_def clean_def Let_def split: prod.split)

lemma status_reads:
  assumes "lfs_laws (flash_fs P) V"
  shows "reads V d (cmd_status P x argv d)"
proof -
  let ?d = "lines_out (status_head P x d) d"
  have "reads V d ?d"
    by simp
  also have "reads V ?d (status_wifi P ?d)"
    by (rule status_wifi_reads [OF assms])
  also have "reads V (status_wifi P ?d) (status_ntp (status_wifi P ?d))"
    by (simp add: status_ntp_def)
  also have "reads V (status_ntp (status_wifi P ?d)) (status_key_counts P (status_ntp (status_wifi P ?d)))"
    by (rule status_key_counts_reads [OF assms])
  finally show ?thesis
    by (simp add: cmd_status_def Let_def)
qed

lemma get_time_reads: "reads V d (cmd_get_time P x argv d)"
  by (simp add: cmd_get_time_def Let_def split: option.split)

lemma test_reads: "reads V d (cmd_test P x argv d)"
  by (simp add: cmd_test_def)

lemma format_refused: "mounted (disk d) \<Longrightarrow> reads V d (cmd_format_storage P x argv d)"
  by (simp add: cmd_format_storage_def storage_is_mounted_def)

lemma logout_fields:
  "disk (cmd_logout P x argv d) = disk d" "\<not> admin_mode (cmd_logout P x argv d)"
  "import_b64 (cmd_logout P x argv d) = import_b64 d"
  "clean (cmd_logout P x argv d) = clean d" "halted (cmd_logout P x argv d) = halted d"
  by (simp_all add: cmd_logout_def)

lemma reboot_fields:
  "disk (cmd_reboot P x argv d) = disk d" "clean (cmd_reboot P x argv d) = clean d"
  "halted (cmd_reboot P x argv d)" "import_b64 (cmd_reboot P x argv d) = import_b64 d"
  by (simp_all add: cmd_reboot_def)

section \<open>What a login is granted for\<close>

definition wifi_configured :: "('fs, 'f) lfs_view \<Rightarrow> 'fs store \<Rightarrow> bool" where
  "wifi_configured V st \<longleftrightarrow> (\<exists>bs. files V (lfs st) FILE_WIFI = Some bs \<and> SIZEOF_WIFI \<le> length bs)"

lemma wifi_get_configured:
  assumes "lfs_laws L V" and "lfs_reliable L V" and "mounted st" and "storage_wifi_get L st = (c, st')"
  shows "c = None \<longleftrightarrow> \<not> wifi_configured V st"
proof -
  obtain r st1 where r: "read_file L FILE_WIFI SIZEOF_WIFI st = (r, st1)"
    by fastforce
  have "c = None \<longleftrightarrow> r = None"
    using assms(3,4) by (auto simp: storage_wifi_get_def r Let_def split: option.splits)
  then show ?thesis
    using read_file_spec [OF assms(1) r] assms(2)
    by (cases r) (auto simp: wifi_configured_def not_le)
qed

lemma wifi_configured_same: "same_disk V st st' \<Longrightarrow> wifi_configured V st' = wifi_configured V st"
  by (simp add: wifi_configured_def same_disk_def same_volume_def)

definition login_allowed ::
  "('fs, 'f, 'c) platform \<Rightarrow> ('fs, 'f) lfs_view \<Rightarrow> 'a io \<Rightarrow> string list \<Rightarrow> 'fs store \<Rightarrow> bool" where
  \<comment> \<open>the four ways in: nothing to authenticate against yet, five minutes without a clock, no
      administrator, or an administrator's code\<close>
  "login_allowed P V x argv st \<longleftrightarrow>
     (let km = key_map V (lfs_crc P) st in
      \<not> wifi_configured V st
      \<or> clock_get_unix_time (rtc_first x) = None \<and> BOOT_BYPASS_WINDOW_US \<le> t_check x
      \<or> clock_get_unix_time (rtc_first x) \<noteq> None \<and>
         ((\<forall>k \<in> ran km. \<not> is_valid_admin k)
          \<or> (\<exists>k. km (arg_id argv) = Some k \<and> is_valid_admin k \<and>
               totp_verify (hmac_sha1 P) (rtc_second x) (secret k) (strtoul10 (argv ! 2)))))"

lemma login_frame:
  assumes L: "lfs_laws (flash_fs P) V"
  shows "same_disk V (disk d) (disk (cmd_login P x argv d))" and "halted (cmd_login P x argv d) = halted d"
    and "clean d \<Longrightarrow> clean (cmd_login P x argv d)" and "net (cmd_login P x argv d) = net d"
    and "wlan (cmd_login P x argv d) = wlan d" and "import_b64 (cmd_login P x argv d) = import_b64 d"
    and "admin_mode (cmd_login P x argv d) = admin_mode d \<and>
           admin_deadline_us (cmd_login P x argv d) = admin_deadline_us d
         \<or> admin_mode (cmd_login P x argv d) \<and> mounted (disk d) \<and>
           admin_deadline_us (cmd_login P x argv d) = t_grant x + ADMIN_IDLE_TIMEOUT_US"
proof -
  obtain r st1 where r: "storage_key_list (flash_fs P) (lfs_crc P) (int BACKUP_MAX_KEYS) (disk d) = (r, st1)"
    by fastforce
  obtain w st2 where w: "storage_wifi_get (flash_fs P) st1 = (w, st2)"
    by fastforce
  obtain k st3 where k: "storage_key_get (flash_fs P) (lfs_crc P) (arg_id argv) st2 = (k, st3)"
    by fastforce
  have s: "same_disk V (disk d) st1" "same_disk V (disk d) st2" "same_disk V (disk d) st3"
    using list_same_disk [OF L r] wifi_get_same_disk [OF L w] get_same_disk [OF L k]
    by (auto intro: same_disk_trans)
  then have m: "mounted st1 = mounted (disk d)"
    by (simp add: same_disk_def)
  note defs = cmd_login_def r w k login_ok_def login_refused_def storage_is_mounted_def Let_def m
  show "same_disk V (disk d) (disk (cmd_login P x argv d))"
    using s by (simp add: defs split: option.split)
  show "halted (cmd_login P x argv d) = halted d" "net (cmd_login P x argv d) = net d"
    "wlan (cmd_login P x argv d) = wlan d" "import_b64 (cmd_login P x argv d) = import_b64 d"
    by (simp_all add: defs split: option.split)
  show "clean (cmd_login P x argv d)" if "clean d"
    using that by (simp add: defs split: option.split) (simp add: clean_def)
  show "admin_mode (cmd_login P x argv d) = admin_mode d \<and>
           admin_deadline_us (cmd_login P x argv d) = admin_deadline_us d
         \<or> admin_mode (cmd_login P x argv d) \<and> mounted (disk d) \<and>
           admin_deadline_us (cmd_login P x argv d) = t_grant x + ADMIN_IDLE_TIMEOUT_US"
    by (simp add: defs split: option.split)
qed

lemma login_outcome:
  assumes ok: "store_ok (flash_fs P) V (lfs_crc P) (disk d)"
  shows "admin_mode (cmd_login P x argv d) \<longleftrightarrow> admin_mode d \<or> login_allowed P V x argv (disk d)"
    and "admin_deadline_us (cmd_login P x argv d) =
      (if login_allowed P V x argv (disk d) then t_grant x + ADMIN_IDLE_TIMEOUT_US else admin_deadline_us d)"
proof -
  note LR = store_okD(1-3) [OF ok]
  let ?km = "key_map V (lfs_crc P) (disk d)"
  obtain r st1 where r: "storage_key_list (flash_fs P) (lfs_crc P) (int BACKUP_MAX_KEYS) (disk d) = (r, st1)"
    by fastforce
  obtain w st2 where w: "storage_wifi_get (flash_fs P) st1 = (w, st2)"
    by fastforce
  obtain k st3 where k: "storage_key_get (flash_fs P) (lfs_crc P) (arg_id argv) st2 = (k, st3)"
    by fastforce
  have s: "same_disk V (disk d) st1" "same_disk V (disk d) st2"
    using list_same_disk [OF LR(1) r] wifi_get_same_disk [OF LR(1) w] by (auto intro: same_disk_trans)
  then have m: "mounted st1"
    using LR(3) by (simp add: same_disk_def)
  obtain rs where rs: "r = Some rs" "set rs = ran ?km"
    using list_spec [OF ok] r by (auto simp: BACKUP_MAX_KEYS_def)
  have any: "list_ex is_valid_admin rs \<longleftrightarrow> \<not> (\<forall>k \<in> ran ?km. \<not> is_valid_admin k)"
    by (auto simp: list_ex_iff rs(2))
  have wc: "w = None \<longleftrightarrow> \<not> wifi_configured V (disk d)"
    using wifi_get_configured [OF LR(1,2) m w] wifi_configured_same [OF s(1)] by simp
  have kk: "k = ?km (arg_id argv)"
    using get_spec(4) [OF LR(1) k LR(2)] same_disk_key_map [OF s(2)] by simp
  note defs = cmd_login_def r w k login_ok_def login_refused_def storage_is_mounted_def Let_def m rs(1)
  let ?t = "clock_get_unix_time (rtc_first x)"
  let ?C = "if w = None \<or> ?t = None \<and> BOOT_BYPASS_WINDOW_US \<le> t_check x then True
    else if ?t = None then False
    else if \<not> list_ex is_valid_admin rs then True
    else case k of None \<Rightarrow> False
      | Some key \<Rightarrow> is_valid_admin key \<and> totp_verify (hmac_sha1 P) (rtc_second x) (secret key) (strtoul10 (argv ! 2))"
  have c: "?C \<longleftrightarrow> login_allowed P V x argv (disk d)"
    by (auto simp: login_allowed_def Let_def wc any kk split: option.splits)
  have a: "admin_mode (cmd_login P x argv d) = (admin_mode d \<or> ?C)"
    "admin_deadline_us (cmd_login P x argv d) =
      (if ?C then t_grant x + ADMIN_IDLE_TIMEOUT_US else admin_deadline_us d)"
    by (auto simp: defs is_valid_admin_def split: option.split)
  show "admin_mode (cmd_login P x argv d) \<longleftrightarrow> admin_mode d \<or> login_allowed P V x argv (disk d)"
    "admin_deadline_us (cmd_login P x argv d) =
      (if login_allowed P V x argv (disk d) then t_grant x + ADMIN_IDLE_TIMEOUT_US else admin_deadline_us d)"
    using a by (simp_all only: c)
qed

section \<open>Properties\<close>

text \<open>C6: on a mounted store whose files can be listed and read without fault a login succeeds in exactly four cases: no WiFi credentials are
  stored; the clock was never set and the device has been up five minutes; the clock is
  set and no enabled, sound administrator key exists; or the named key is such a key and
  its TOTP accepts the code. It then arms the idle deadline five minutes ahead. Whatever
  the outcome it changes nothing stored and leaves no key in its static buffer; without
  storage it never grants.\<close>

theorem login_granted_iff:
  assumes "store_ok (flash_fs P) V (lfs_crc P) (disk d)" and "clean d"
  shows "(admin_mode (cmd_login P x argv d) \<longleftrightarrow> admin_mode d \<or> login_allowed P V x argv (disk d))
    \<and> admin_deadline_us (cmd_login P x argv d) =
        (if login_allowed P V x argv (disk d) then t_grant x + 5 * 60 * 1000000 else admin_deadline_us d)
    \<and> same_disk V (disk d) (disk (cmd_login P x argv d)) \<and> clean (cmd_login P x argv d)
    \<and> admin_mode (cmd_login P x argv (d\<lparr>disk := (disk d)\<lparr>mounted := False\<rparr>\<rparr>)) = admin_mode d"
proof -
  note L = store_okD(1) [OF assms(1)]
  have "admin_mode (cmd_login P x argv (d\<lparr>disk := (disk d)\<lparr>mounted := False\<rparr>\<rparr>)) = admin_mode d"
    by (simp add: cmd_login_def storage_key_list_def storage_is_mounted_def login_refused_def Let_def)
  then show ?thesis
    using login_outcome [OF assms(1), of x argv] login_frame(1,3) [OF L, of d x argv] assms(2)
    by (simp add: ADMIN_IDLE_TIMEOUT_US_def)
qed

definition deaf_api :: "(ram, fview option) lfs_api" where
  \<comment> \<open>a volume on which the WiFi file cannot be opened for reading\<close>
  "deaf_api = ram_api\<lparr>lfs_file_open :=
     (\<lambda>s p m. if p = FILE_WIFI \<and> m = RDONLY then (-5, None, s) else ram_open s p m)\<rparr>"

lemma deaf_laws: "lfs_laws deaf_api ram_view"
proof -
  have "volume_laws deaf_api ram_view" "close_laws deaf_api ram_view" "read_laws deaf_api ram_view"
    "write_laws deaf_api ram_view" "sync_laws deaf_api ram_view" "dir_laws deaf_api ram_view"
    using lfs_lawsD [OF ram_laws]
    by (simp_all add: deaf_api_def volume_laws_def close_laws_def read_laws_def write_laws_def
        sync_laws_def dir_laws_def)
  moreover have "open_laws deaf_api ram_view"
    using lfs_lawsD(2) [OF ram_laws]
    by (simp add: open_laws_def deaf_api_def ram_api_def same_volume_def)
  ultimately show ?thesis
    by (simp add: lfs_laws_def)
qed

lemma demo_configured: "wifi_configured ram_view demo_store"
  by (simp add: wifi_configured_def demo_store_def ram_view_def SIZEOF_WIFI_def WIFI_SSID_MAX_def
      WIFI_PASSWORD_MAX_def wifi_image_def demo_wifi_def)

lemma minute_one_unix: "clock_get_unix_time (Some minute_one) = Some 60"
  by (simp add: clock_get_unix_time_def unix_of_datetime_def) code_simp

lemma demo_login:
  "login_allowed demo_platform ram_view demo_io [u, ''5'', ''686018''] demo_store"
  "\<not> login_allowed demo_platform ram_view demo_io [u, ''5'', ''1''] demo_store"
proof -
  have n: "strtoul10 ''5'' = 5" "strtoul10 ''686018'' = 686018" "strtoul10 ''1'' = 1"
    by (simp_all add: strtoul10_def is_space_def is_digit_def dec_val_def char_val_def)
  have i: "arg_id [u, ''5'', v] = 5" for u v
    by (simp add: arg_id_def n)
  have t: "totp_verify echo_mac (Some minute_one) s 686018" "\<not> totp_verify echo_mac (Some minute_one) s 1" for s
    unfolding totp_verify_def totp_at_def echo_mac_def by code_simp+
  have k: "ran (key_map ram_view sum_crc demo_store) = {norm_key (door_key 5 True)}"
    by (simp add: demo_key_map)
  have v: "is_valid_admin (norm_key (door_key 5 True))"
    by (simp add: is_valid_admin_def)
  show "login_allowed demo_platform ram_view demo_io [u, ''5'', ''686018''] demo_store"
    by (simp add: login_allowed_def i n t k v minute_one_unix demo_key_map)
  show "\<not> login_allowed demo_platform ram_view demo_io [u, ''5'', ''1''] demo_store"
    by (simp add: login_allowed_def i n t k v minute_one_unix demo_configured demo_key_map)
qed

text \<open>C35: the open mode for a device without WiFi credentials is also entered when the stored
  credentials cannot be read: on a volume whose WiFi file does not open, although
  credentials and an enabled administrator key are stored and the clock is set, a login
  with a wrong code becomes administrator.\<close>

theorem login_open_on_unreadable_wifi:
  "lfs_laws deaf_api ram_view \<and> wifi_configured ram_view (disk demo_device)
   \<and> (\<exists>k \<in> ran (key_map ram_view sum_crc (disk demo_device)). is_valid_admin k)
   \<and> \<not> admin_mode demo_device
   \<and> admin_mode (cmd_login (demo_platform\<lparr>flash_fs := deaf_api\<rparr>) demo_io [''login'', ''5'', ''1''] demo_device)
   \<and> \<not> admin_mode (cmd_login demo_platform demo_io [''login'', ''5'', ''1''] demo_device)"
proof -
  have "admin_mode (cmd_login (demo_platform\<lparr>flash_fs := deaf_api\<rparr>) demo_io argv demo_device)" for argv
  proof -
    obtain r st where r: "storage_key_list deaf_api sum_crc (int BACKUP_MAX_KEYS) demo_store = (r, st)"
      by fastforce
    have "mounted st"
      using list_same_disk [OF deaf_laws r] by (simp add: same_disk_def)
    moreover have "fst (storage_wifi_get deaf_api st) = None"
      by (simp add: storage_wifi_get_def read_file_def deaf_api_def)
    ultimately show ?thesis
      by (simp add: cmd_login_def r Let_def storage_is_mounted_def login_ok_def split_def)
  qed
  moreover have "\<exists>k \<in> ran (key_map ram_view sum_crc demo_store). is_valid_admin k"
    by (simp add: demo_key_map is_valid_admin_def)
  moreover have "\<not> admin_mode (cmd_login demo_platform demo_io [''login'', ''5'', ''1''] demo_device)"
    using login_outcome(1) [of demo_platform ram_view demo_device demo_io] demo_store_ok demo_login(2) by simp
  ultimately show ?thesis
    using deaf_laws demo_configured by simp
qed

theorem login_granted_iff_witness:
  "admin_mode (cmd_login demo_platform demo_io [''login'', ''5'', ''686018''] demo_device)
   \<and> \<not> admin_mode (cmd_login demo_platform demo_io [''login'', ''5'', ''1''] demo_device)"
proof -
  have "store_ok (flash_fs demo_platform) ram_view (lfs_crc demo_platform) (disk demo_device)"
    by (simp add: demo_store_ok)
  moreover have "clean demo_device"
    by (simp add: demo_device_def device_boot_def clean_def)
  ultimately show ?thesis
    using login_granted_iff [of demo_platform ram_view demo_device demo_io] demo_login [of "''login''"] by simp
qed

end
