(* ===== verification/CmdKeys.thy ===== *)
theory CmdKeys imports Device
begin

text \<open>
  \<open>serial/commands_keys.c\<close>: the key commands. The \<open>key_record_t\<close> on the stack of a handler, and
  the wipe of it before it returns, are not state of the model; the static array of
  \<open>cmd_list_keys\<close> and the static QR buffer are.
\<close>

abbreviation ack :: "('fs, 'a) device \<Rightarrow> ('fs, 'a) device" where
  "ack d \<equiv> play buzzer_play_command_ack d"

section \<open>Showing keys\<close>

definition created_text :: "u32 \<Rightarrow> string" where
  "created_text t = (if 0 < t then strftime_utc t else ''unknown'')"

definition key_row :: "key_record_t \<Rightarrow> string" where
  "key_row k =
     pad_right 6 (udec (unat (key_id k))) @ ''  '' @ pad_right 2 (if is_checksum_valid k then ''v'' else ''x'') @ ''  '' @
     pad_right 24 (cstr (key_name k)) @ ''  '' @ pad_right 7 (yes_no (is_enabled k)) @ ''  '' @
     pad_right 5 (yes_no (is_admin k)) @ ''  '' @ created_text (created_at k)"

definition cmd_list_keys ::
  "('fs, 'f, 'c) platform \<Rightarrow> 'a io \<Rightarrow> string list \<Rightarrow> ('fs, 'a) device \<Rightarrow> ('fs, 'a) device" where
  "cmd_list_keys P x argv d =
     (let (r, st) = storage_key_list (flash_fs P) (lfs_crc P) (int BACKUP_MAX_KEYS) (disk d);
          d = d\<lparr>disk := st, list_keys := filled r (list_keys d)\<rparr>
      in case r of
        None \<Rightarrow> ack (line ''error: failed to read keys'' d)
      | Some [] \<Rightarrow> ack (line ''no keys stored'' d)
      | Some ks \<Rightarrow>
          let d = lines_out
                ([pad_right 6 ''id'' @ ''  ok  '' @ pad_right 24 ''name'' @ ''  enabled  admin  created'',
                  ''------  --  ------------------------  -------  -----  -------------------''] @
                 map key_row ks) d;
              d = line (CRLF @ udec (length ks) @ '' key(s)'') d
          in ack (d\<lparr>list_keys := wiped_keys\<rparr>))"

definition in_range ::
  "string \<Rightarrow> string list \<Rightarrow> (('fs, 'a) device \<Rightarrow> ('fs, 'a) device) \<Rightarrow> ('fs, 'a) device \<Rightarrow> ('fs, 'a) device" where
  \<comment> \<open>the identifier check every handler starts with\<close>
  "in_range message argv f d = (if KEY_ID_MAX < arg_id argv then ack (line message d) else f d)"

definition find_key ::
  "('fs, 'f, 'c) platform \<Rightarrow> u16 \<Rightarrow> (key_record_t \<Rightarrow> ('fs, 'a) device \<Rightarrow> ('fs, 'a) device) \<Rightarrow>
     ('fs, 'a) device \<Rightarrow> ('fs, 'a) device" where
  \<comment> \<open>\<open>if (!storage_key_get(id, &key))\<close>\<close>
  "find_key P i f d =
     (let (k, st) = storage_key_get (flash_fs P) (lfs_crc P) i (disk d); d = d\<lparr>disk := st\<rparr> in
      case k of
        None \<Rightarrow> ack (line (''error: key '' @ udec (unat i) @ '' not found'') d)
      | Some key \<Rightarrow> f key d)"

abbreviation id_error :: string where
  "id_error \<equiv> ''error: id must be 0-255''"

definition cmd_get_key ::
  "('fs, 'f, 'c) platform \<Rightarrow> 'a io \<Rightarrow> string list \<Rightarrow> ('fs, 'a) device \<Rightarrow> ('fs, 'a) device" where
  "cmd_get_key P x argv = in_range id_error argv
     (find_key P (arg_id argv) (\<lambda>key d. ack (lines_out
        [''id:      '' @ udec (unat (key_id key)),
         ''ok:      '' @ (if is_checksum_valid key then ''v'' else ''x''),
         ''name:    '' @ cstr (key_name key),
         ''enabled: '' @ yes_no (is_enabled key),
         ''admin:   '' @ yes_no (is_admin key),
         ''created: '' @ created_text (created_at key)] d)))"

section \<open>The secret and its QR code\<close>

definition ISSUER_ENC :: string where
  "ISSUER_ENC = ''Hackerspejs%20%C5%81%C3%B3d%C5%BA''"

definition QR_BORDER :: nat where
  "QR_BORDER = 2"

definition key_uri :: "u16 \<Rightarrow> string \<Rightarrow> string" where
  \<comment> \<open>\<open>snprintf\<close> into \<open>char uri[200]\<close>\<close>
  "key_uri i secret_b32 = take 199
     (''otpauth://totp/'' @ ISSUER_ENC @ '':key%20'' @ udec (unat i) @ ''?secret='' @ secret_b32 @
      ''&issuer='' @ ISSUER_ENC @ ''&digits=6&period=30'')"

definition qr_rows :: "bool list list \<Rightarrow> string list" where
  \<comment> \<open>two full blocks (in UTF-8) for a dark module, two spaces for a light one or the border\<close>
  "qr_rows ms =
     (let n = length ms;
          block = map char_of [0xE2, 0x96, 0x88, 0xE2, 0x96, 0x88 :: nat];
          dark = (\<lambda>y x. QR_BORDER \<le> x \<and> QR_BORDER \<le> y \<and> x < n + QR_BORDER \<and> y < n + QR_BORDER \<and>
                     ms ! (y - QR_BORDER) ! (x - QR_BORDER))
      in map (\<lambda>y. concat (map (\<lambda>x. if dark y x then block else ''  '') [0..<n + 2 * QR_BORDER]))
           [0..<n + 2 * QR_BORDER])"

definition cmd_get_key_secret ::
  "('fs, 'f, 'c) platform \<Rightarrow> 'a io \<Rightarrow> string list \<Rightarrow> ('fs, 'a) device \<Rightarrow> ('fs, 'a) device" where
  "cmd_get_key_secret P x argv = in_range (''error: id must be 0-'' @ udec (unat KEY_ID_MAX)) argv
     (find_key P (arg_id argv) (\<lambda>key d.
        let i = arg_id argv in
        if \<not> is_checksum_valid key then ack (line (''error: key '' @ udec (unat i) @ '' is corrupt'') d)
        else let secret_b32 = cstr (base32_encode (secret key));
                 uri = key_uri i secret_b32;
                 d = line (''secret:  '' @ secret_b32) d;
                 d = line (''uri:     '' @ uri @ CRLF) d
             in case qr_modules P uri of
                  None \<Rightarrow> ack (line ''error: QR generation failed'' (d\<lparr>qr_buf := []\<rparr>))
                | Some ms \<Rightarrow> ack (line [] (lines_out (qr_rows ms) (d\<lparr>qr_buf := ms\<rparr>)))))"

section \<open>Changing keys\<close>

definition save_key ::
  "('fs, 'f, 'c) platform \<Rightarrow> u16 \<Rightarrow> key_record_t \<Rightarrow> string \<Rightarrow> ('fs, 'a) device \<Rightarrow> ('fs, 'a) device" where
  \<comment> \<open>\<open>if (storage_key_save(&key))\<close> and the end of every handler that saves\<close>
  "save_key P i key message d =
     (let (ok, st) = storage_key_save (flash_fs P) (lfs_crc P) key (disk d); d = d\<lparr>disk := st\<rparr> in
      ack (line (if ok then ''key '' @ udec (unat i) @ message
                 else ''error: failed to save key '' @ udec (unat i)) d))"

definition name_too_long :: "string list \<Rightarrow> bool" where
  "name_too_long argv = (KEY_NAME_MAX \<le> length (argv ! 2))"

definition name_error :: string where
  "name_error = ''error: name too long (max '' @ udec (KEY_NAME_MAX - 1) @ '' chars)''"

definition new_key ::
  "('fs, 'f, 'c) platform \<Rightarrow> 'a io \<Rightarrow> string list \<Rightarrow> key_record_t" where
  "new_key P x argv =
     \<lparr>key_id = arg_id argv, key_name = strncpy_c (replicate KEY_NAME_MAX NUL) (argv ! 2) (KEY_NAME_MAX - 1),
      secret = generate_secret (drbg P) (rng x) (board_id P) (replicate KEY_SECRET_LEN 0),
      is_enabled = True, is_admin = False,
      created_at = (case clock_get_unix_time (rtc_first x) of None \<Rightarrow> 0 | Some t \<Rightarrow> t),
      is_checksum_valid = True\<rparr>"

definition cmd_add_key ::
  "('fs, 'f, 'c) platform \<Rightarrow> 'a io \<Rightarrow> string list \<Rightarrow> ('fs, 'a) device \<Rightarrow> ('fs, 'a) device" where
  "cmd_add_key P x argv = in_range id_error argv (\<lambda>d.
     let i = arg_id argv in
     if storage_key_exists (flash_fs P) i (disk d)
     then ack (line (''error: key '' @ udec (unat i) @ '' already exists'') d)
     else if name_too_long argv then ack (line name_error d)
     else let key = new_key P x argv
          in save_key P i key ('' '' @ quoted (cstr (key_name key)) @ '' added'') d)"

definition cmd_rename_key ::
  "('fs, 'f, 'c) platform \<Rightarrow> 'a io \<Rightarrow> string list \<Rightarrow> ('fs, 'a) device \<Rightarrow> ('fs, 'a) device" where
  "cmd_rename_key P x argv = in_range id_error argv (\<lambda>d.
     if name_too_long argv then ack (line name_error d)
     else find_key P (arg_id argv) (\<lambda>key d.
       let key = key\<lparr>key_name := (strncpy_c (key_name key) (argv ! 2) (KEY_NAME_MAX - 1))[KEY_NAME_MAX - 1 := NUL]\<rparr>
       in save_key P (arg_id argv) key ('' renamed to '' @ quoted (cstr (key_name key))) d) d)"

definition cmd_enable_key ::
  "('fs, 'f, 'c) platform \<Rightarrow> 'a io \<Rightarrow> string list \<Rightarrow> ('fs, 'a) device \<Rightarrow> ('fs, 'a) device" where
  "cmd_enable_key P x argv = in_range id_error argv (find_key P (arg_id argv) (\<lambda>key d.
     let i = arg_id argv in
     if is_enabled key then ack (line (''key '' @ udec (unat i) @ '' is already enabled'') d)
     else save_key P i (key\<lparr>is_enabled := True\<rparr>) '' enabled'' d))"

definition cmd_disable_key ::
  "('fs, 'f, 'c) platform \<Rightarrow> 'a io \<Rightarrow> string list \<Rightarrow> ('fs, 'a) device \<Rightarrow> ('fs, 'a) device" where
  "cmd_disable_key P x argv = in_range id_error argv (find_key P (arg_id argv) (\<lambda>key d.
     let i = arg_id argv in
     if \<not> is_enabled key then ack (line (''key '' @ udec (unat i) @ '' is already disabled'') d)
     else save_key P i (key\<lparr>is_enabled := False\<rparr>) '' disabled'' d))"

definition cmd_delete_key ::
  "('fs, 'f, 'c) platform \<Rightarrow> 'a io \<Rightarrow> string list \<Rightarrow> ('fs, 'a) device \<Rightarrow> ('fs, 'a) device" where
  "cmd_delete_key P x argv = in_range id_error argv (\<lambda>d.
     let i = arg_id argv in
     if \<not> storage_key_exists (flash_fs P) i (disk d)
     then ack (line (''error: key '' @ udec (unat i) @ '' does not exist'') d)
     else let (ok, st) = storage_key_delete (flash_fs P) i (disk d); d = d\<lparr>disk := st\<rparr>
          in ack (line (if ok then ''key '' @ udec (unat i) @ '' deleted''
                        else ''error: failed to delete key '' @ udec (unat i)) d))"

definition cmd_set_key_admin ::
  "('fs, 'f, 'c) platform \<Rightarrow> 'a io \<Rightarrow> string list \<Rightarrow> ('fs, 'a) device \<Rightarrow> ('fs, 'a) device" where
  "cmd_set_key_admin P x argv = in_range id_error argv (find_key P (arg_id argv) (\<lambda>key d.
     let i = arg_id argv in
     if is_admin key then ack (line (''key '' @ udec (unat i) @ '' is already admin'') d)
     else save_key P i (key\<lparr>is_admin := True\<rparr>) '' set as admin'' d))"

definition cmd_unset_key_admin ::
  "('fs, 'f, 'c) platform \<Rightarrow> 'a io \<Rightarrow> string list \<Rightarrow> ('fs, 'a) device \<Rightarrow> ('fs, 'a) device" where
  "cmd_unset_key_admin P x argv = in_range id_error argv (find_key P (arg_id argv) (\<lambda>key d.
     let i = arg_id argv in
     if \<not> is_admin key then ack (line (''key '' @ udec (unat i) @ '' is not admin'') d)
     else save_key P i (key\<lparr>is_admin := False\<rparr>) '' unset as admin'' d))"

section \<open>What they change\<close>

lemma in_range_reads: "(KEY_ID_MAX < arg_id argv \<or> reads V d (f d)) \<Longrightarrow> reads V d (in_range m argv f d)"
  by (auto simp: in_range_def)

lemma find_key_reads:
  assumes L: "lfs_laws (flash_fs P) V" and f: "\<And>key d'. reads V d' (f key d')"
  shows "reads V d (find_key P i f d)"
proof -
  obtain k st where g: "storage_key_get (flash_fs P) (lfs_crc P) i (disk d) = (k, st)"
    by fastforce
  have r: "reads V d (d\<lparr>disk := st\<rparr>)"
    using get_same_disk [OF L g] by (simp add: reads_def)
  show ?thesis
    using r reads_trans [OF r f] by (auto simp: find_key_def g Let_def split: option.split)
qed

lemma list_keys_reads:
  assumes L: "lfs_laws (flash_fs P) V"
  shows "reads V d (cmd_list_keys P x argv d)"
proof -
  obtain r st where l: "storage_key_list (flash_fs P) (lfs_crc P) (int BACKUP_MAX_KEYS) (disk d) = (r, st)"
    by fastforce
  show ?thesis
    using list_same_disk [OF L l]
    by (auto simp: cmd_list_keys_def l Let_def reads_def same_session_def clean_def filled_def overwrite_def
        split: option.split list.split)
qed

lemma get_key_reads: "lfs_laws (flash_fs P) V \<Longrightarrow> reads V d (cmd_get_key P x argv d)"
  by (auto simp: cmd_get_key_def intro!: in_range_reads find_key_reads)

lemma reads_qr [simp]: "reads V d (d'\<lparr>qr_buf := q\<rparr>) = reads V d d'"
  by (simp add: reads_def)

lemma get_key_secret_reads: "lfs_laws (flash_fs P) V \<Longrightarrow> reads V d (cmd_get_key_secret P x argv d)"
  by (auto simp: cmd_get_key_secret_def Let_def intro!: in_range_reads find_key_reads split: option.split)

section \<open>The key store the commands implement\<close>

type_synonym key_table = "u16 \<rightharpoonup> key_record_t"

definition saves :: "('fs, 'f, 'c) platform \<Rightarrow> bool" where
  \<comment> \<open>the flash accepts every record, and no close fails, which would lose it\<close>
  "saves P \<longleftrightarrow> lfs_commits (flash_fs P) \<and> (\<forall>k st. mounted st \<longrightarrow> key_id k \<le> KEY_ID_MAX \<longrightarrow>
     fst (storage_key_save (flash_fs P) (lfs_crc P) k st))"

definition changes ::
  "('fs, 'f, 'c) platform \<Rightarrow> ('fs, 'f) lfs_view \<Rightarrow> key_table \<Rightarrow> ('fs, 'a) device \<Rightarrow> ('fs, 'a) device \<Rightarrow> bool" where
  \<comment> \<open>the device goes on with the table \<open>T\<close>, or with the old one when a write or the close
    that commits it failed\<close>
  "changes P V T d d' \<longleftrightarrow>
     store_ok (flash_fs P) V (lfs_crc P) (disk d') \<and> same_session d d' \<and>
     files V (lfs (disk d')) FILE_WIFI = files V (lfs (disk d)) FILE_WIFI \<and>
     (key_map V (lfs_crc P) (disk d') = key_map V (lfs_crc P) (disk d) \<or> key_map V (lfs_crc P) (disk d') = T) \<and>
     (saves P \<longrightarrow> key_map V (lfs_crc P) (disk d') = T)"

lemma changes_frame [simp]:
  "changes P V T d (line s d') = changes P V T d d'" "changes P V T d (play es d') = changes P V T d d'"
  "changes P V T d (lines_out ss d') = changes P V T d d'"
  by (simp_all add: changes_def)

lemma changes_reads:
  assumes "store_ok (flash_fs P) V (lfs_crc P) (disk d)" and "reads V d d'"
  shows "changes P V (key_map V (lfs_crc P) (disk d)) d d'"
  using assms same_disk_key_map [of V "disk d" "disk d'"] same_disk_store_ok [of V "disk d" "disk d'"]
  by (auto simp: changes_def reads_def) (simp add: same_disk_def same_volume_def)

lemma save_key_changes:
  assumes ok: "store_ok (flash_fs P) V (lfs_crc P) (disk d)" and w: "wf_key k" and i: "key_id k \<le> KEY_ID_MAX"
  shows "changes P V ((key_map V (lfs_crc P) (disk d))(key_id k \<mapsto> norm_key k)) d (save_key P j k m d)"
proof -
  note s = store_okD [OF ok]
  obtain b st where sv: "storage_key_save (flash_fs P) (lfs_crc P) k (disk d) = (b, st)"
    by fastforce
  note law = keys.save_law [OF ok w sv]
  have b: "saves P \<Longrightarrow> b \<and> save_commits (flash_fs P) (lfs_crc P) k (disk d)"
    using sv s(3) i by (auto simp: saves_def commits_save dest!: spec [of _ k] spec [of _ "disk d"])
  have "write_file (flash_fs P) (key_path (key_id k)) (stored_image (to_stored (lfs_crc P) k)) (disk d) = (b, st)"
    using sv s(3) i by (simp add: storage_key_save_def not_less [symmetric])
  then have "files V (lfs st) FILE_WIFI = files V (lfs (disk d)) FILE_WIFI"
    using write_file_spec [OF s(1)] key_path_wifi by metis
  then show ?thesis
    using law b by (auto simp: save_key_def sv changes_def Let_def)
qed

lemma find_key_changes:
  assumes ok: "store_ok (flash_fs P) V (lfs_crc P) (disk d)"
    and none: "key_map V (lfs_crc P) (disk d) i = None \<Longrightarrow> T = key_map V (lfs_crc P) (disk d)"
    and some: "\<And>key st. key_map V (lfs_crc P) (disk d) i = Some key \<Longrightarrow> wf_key key \<Longrightarrow> key_id key = i \<Longrightarrow>
      store_ok (flash_fs P) V (lfs_crc P) st \<Longrightarrow> key_map V (lfs_crc P) st = key_map V (lfs_crc P) (disk d) \<Longrightarrow>
      changes P V T (d\<lparr>disk := st\<rparr>) (f key (d\<lparr>disk := st\<rparr>))"
  shows "changes P V T d (find_key P i f d)"
proof -
  note s = store_okD [OF ok]
  obtain k st where g: "storage_key_get (flash_fs P) (lfs_crc P) i (disk d) = (k, st)"
    by fastforce
  note same = get_same_disk [OF s(1) g]
  note st = same_disk_store_ok [OF same ok] same_disk_key_map [OF same, of "lfs_crc P"]
  have k: "k = key_map V (lfs_crc P) (disk d) i"
    using get_spec(4) [OF s(1) g s(2)] .
  have wifi: "files V (lfs st) FILE_WIFI = files V (lfs (disk d)) FILE_WIFI"
    using same by (simp add: same_disk_def same_volume_def)
  show ?thesis
  proof (cases k)
    case None
    have "reads V d (d\<lparr>disk := st\<rparr>)"
      using same by (simp add: reads_def)
    then show ?thesis
      using changes_reads [OF ok] none k None by (auto simp: find_key_def g Let_def)
  next
    case (Some key)
    have "wf_key key" "key_id key = i"
      using k Some ok by (auto intro: key_map_wf simp: store_ok_def)
    then have c: "changes P V T (d\<lparr>disk := st\<rparr>) (f key (d\<lparr>disk := st\<rparr>))"
      using some [of key st] st k Some by simp
    have "same_session d (f key (d\<lparr>disk := st\<rparr>))"
      using c by (auto simp: changes_def same_session_def)
    then have "changes P V T d (f key (d\<lparr>disk := st\<rparr>))"
      using c wifi st(2) by (simp add: changes_def)
    then show ?thesis
      by (simp add: find_key_def g Some Let_def)
  qed
qed

definition edited :: "(key_record_t \<Rightarrow> bool) \<Rightarrow> (key_record_t \<Rightarrow> key_record_t) \<Rightarrow> u16 \<Rightarrow> key_table \<Rightarrow> key_table" where
  \<comment> \<open>the record of an identifier changed, where there is one and it satisfies the test\<close>
  "edited p f i T = (case T i of
     None \<Rightarrow> T
   | Some k \<Rightarrow> if p k then T(i \<mapsto> norm_key (f k)) else T)"

definition renamed :: "string \<Rightarrow> key_record_t \<Rightarrow> key_record_t" where
  "renamed name k = k\<lparr>key_name := (strncpy_c (key_name k) name (KEY_NAME_MAX - 1))[KEY_NAME_MAX - 1 := NUL]\<rparr>"

definition key_effect ::
  "('fs, 'f, 'c) platform \<Rightarrow> ('fs, 'f) lfs_view \<Rightarrow> 'a io \<Rightarrow> string list \<Rightarrow> 'fs store \<Rightarrow> key_table" where
  \<comment> \<open>what a key command does to the table of keys\<close>
  "key_effect P V x argv st =
     (let T = key_map V (lfs_crc P) st; i = arg_id argv; command = argv ! 0 in
      if KEY_ID_MAX < i then T
      else if command = ''add-key''
      then if files V (lfs st) (key_path i) = None \<and> \<not> name_too_long argv
           then T(i \<mapsto> norm_key (new_key P x argv)) else T
      else if command = ''rename-key''
      then if name_too_long argv then T else edited (\<lambda>_. True) (renamed (argv ! 2)) i T
      else if command = ''enable-key'' then edited (\<lambda>k. \<not> is_enabled k) (\<lambda>k. k\<lparr>is_enabled := True\<rparr>) i T
      else if command = ''disable-key'' then edited is_enabled (\<lambda>k. k\<lparr>is_enabled := False\<rparr>) i T
      else if command = ''delete-key'' then T(i := None)
      else if command = ''set-key-admin'' then edited (\<lambda>k. \<not> is_admin k) (\<lambda>k. k\<lparr>is_admin := True\<rparr>) i T
      else if command = ''unset-key-admin'' then edited is_admin (\<lambda>k. k\<lparr>is_admin := False\<rparr>) i T
      else T)"

lemma changes_self: "store_ok (flash_fs P) V (lfs_crc P) (disk d) \<Longrightarrow> changes P V (key_map V (lfs_crc P) (disk d)) d d"
  by (rule changes_reads) simp_all

lemma in_range_changes:
  assumes "store_ok (flash_fs P) V (lfs_crc P) (disk d)"
    and "KEY_ID_MAX < arg_id argv \<Longrightarrow> T = key_map V (lfs_crc P) (disk d)"
    and "arg_id argv \<le> KEY_ID_MAX \<Longrightarrow> changes P V T d (f d)"
  shows "changes P V T d (in_range m argv f d)"
  using assms changes_self [OF assms(1)] by (auto simp: in_range_def not_less)

lemma edit_changes:
  assumes ok: "store_ok (flash_fs P) V (lfs_crc P) (disk d)" and i: "i \<le> KEY_ID_MAX"
    and wf: "\<And>k. wf_key k \<Longrightarrow> wf_key (g k) \<and> key_id (g k) = key_id k"
    and yes: "\<And>k d'. p k \<Longrightarrow> f k d' = save_key P i (g k) (m k) d'"
    and no: "\<And>k d'. \<not> p k \<Longrightarrow> \<exists>s. f k d' = ack (line s d')"
  shows "changes P V (edited p g i (key_map V (lfs_crc P) (disk d))) d (find_key P i f d)"
proof (rule find_key_changes [OF ok])
  show "key_map V (lfs_crc P) (disk d) i = None \<Longrightarrow>
      edited p g i (key_map V (lfs_crc P) (disk d)) = key_map V (lfs_crc P) (disk d)"
    by (simp add: edited_def)
next
  fix k st
  let ?T = "key_map V (lfs_crc P) (disk d)" and ?d = "d\<lparr>disk := st\<rparr>"
  assume k: "?T i = Some k" "wf_key k" "key_id k = i" and st: "store_ok (flash_fs P) V (lfs_crc P) st"
    and T: "key_map V (lfs_crc P) st = ?T"
  show "changes P V (edited p g i ?T) ?d (f k ?d)"
  proof (cases "p k")
    case True
    have "changes P V ((key_map V (lfs_crc P) (disk ?d))(key_id (g k) \<mapsto> norm_key (g k))) ?d (save_key P i (g k) (m k) ?d)"
      using wf [OF k(2)] k(3) i st by (intro save_key_changes) simp_all
    then show ?thesis
      using True k wf [OF k(2)] T yes [OF True] by (simp add: edited_def)
  next
    case False
    then show ?thesis
      using no [OF False, of ?d] changes_self [of P V ?d] st k T by (auto simp: edited_def)
  qed
qed

lemma wf_renamed: "wf_key k \<Longrightarrow> wf_key (renamed name k) \<and> key_id (renamed name k) = key_id k"
  by (simp add: wf_key_def renamed_def length_strncpy_c)

lemma wf_new_key: "drbg_sound (drbg P) \<Longrightarrow> wf_key (new_key P x argv)"
  by (simp add: wf_key_def new_key_def length_strncpy_c length_generate_secret)

lemma enable_changes:
  assumes "store_ok (flash_fs P) V (lfs_crc P) (disk d)"
  shows "changes P V (key_effect P V x (''enable-key'' # as) (disk d)) d (cmd_enable_key P x (''enable-key'' # as) d)"
  unfolding cmd_enable_key_def
  by (rule in_range_changes [OF assms])
    (auto simp: key_effect_def wf_key_def not_less [symmetric] intro!: edit_changes [OF assms, where m = "\<lambda>_. '' enabled''"])

lemma disable_changes:
  assumes "store_ok (flash_fs P) V (lfs_crc P) (disk d)"
  shows "changes P V (key_effect P V x (''disable-key'' # as) (disk d)) d (cmd_disable_key P x (''disable-key'' # as) d)"
  unfolding cmd_disable_key_def
  by (rule in_range_changes [OF assms])
    (auto simp: key_effect_def wf_key_def not_less [symmetric] intro!: edit_changes [OF assms, where m = "\<lambda>_. '' disabled''"])

lemma set_admin_changes:
  assumes "store_ok (flash_fs P) V (lfs_crc P) (disk d)"
  shows "changes P V (key_effect P V x (''set-key-admin'' # as) (disk d)) d (cmd_set_key_admin P x (''set-key-admin'' # as) d)"
  unfolding cmd_set_key_admin_def
  by (rule in_range_changes [OF assms])
    (auto simp: key_effect_def wf_key_def not_less [symmetric] intro!: edit_changes [OF assms, where m = "\<lambda>_. '' set as admin''"])

lemma unset_admin_changes:
  assumes "store_ok (flash_fs P) V (lfs_crc P) (disk d)"
  shows "changes P V (key_effect P V x (''unset-key-admin'' # as) (disk d)) d (cmd_unset_key_admin P x (''unset-key-admin'' # as) d)"
  unfolding cmd_unset_key_admin_def
  by (rule in_range_changes [OF assms])
    (auto simp: key_effect_def wf_key_def not_less [symmetric] intro!: edit_changes [OF assms, where m = "\<lambda>_. '' unset as admin''"])

lemma rename_changes:
  assumes "store_ok (flash_fs P) V (lfs_crc P) (disk d)"
  shows "changes P V (key_effect P V x (''rename-key'' # as) (disk d)) d (cmd_rename_key P x (''rename-key'' # as) d)"
proof -
  let ?a = "''rename-key'' # as"
  let ?T = "key_map V (lfs_crc P) (disk d)"
  have "changes P V (edited (\<lambda>_. True) (renamed (?a ! 2)) (arg_id ?a) ?T) d
      (find_key P (arg_id ?a) (\<lambda>key d.
         let key = key\<lparr>key_name := (strncpy_c (key_name key) (?a ! 2) (KEY_NAME_MAX - 1))[KEY_NAME_MAX - 1 := NUL]\<rparr>
         in save_key P (arg_id ?a) key ('' renamed to '' @ quoted (cstr (key_name key))) d) d)"
    if "arg_id ?a \<le> KEY_ID_MAX"
    by (rule edit_changes [OF assms that wf_renamed,
          where m = "\<lambda>k. '' renamed to '' @ quoted (cstr (key_name (renamed (?a ! 2) k)))"])
      (simp_all add: renamed_def Let_def)
  then show ?thesis
    unfolding cmd_rename_key_def
    by (intro in_range_changes [OF assms])
      (auto simp: key_effect_def changes_self [OF assms] not_less [symmetric] simp del: nth_Cons_numeral)
qed

lemma exists_stored:
  assumes ok: "store_ok L V crc st"
  shows "storage_key_exists L i st \<longleftrightarrow> files V (lfs st) (key_path i) \<noteq> None"
proof -
  note s = store_okD [OF ok]
  have "0 \<le> lfs_stat L (lfs st) (key_path i) \<longleftrightarrow> key_path i \<in> dom (files V (lfs st))"
    using law_stat [OF s(1), of "lfs st" "key_path i"] reliable(1) [OF s(2)] names_ok_pathD [OF s(4)] by blast
  then show ?thesis
    using s(3) by (simp add: storage_key_exists_def domIff)
qed

lemma add_changes:
  assumes ok: "store_ok (flash_fs P) V (lfs_crc P) (disk d)" and g: "drbg_sound (drbg P)"
  shows "changes P V (key_effect P V x (''add-key'' # as) (disk d)) d (cmd_add_key P x (''add-key'' # as) d)"
proof -
  let ?a = "''add-key'' # as"
  have k: "key_id (new_key P x ?a) = arg_id ?a"
    by (simp add: new_key_def)
  have "changes P V ((key_map V (lfs_crc P) (disk d))(arg_id ?a \<mapsto> norm_key (new_key P x ?a))) d
      (save_key P (arg_id ?a) (new_key P x ?a) m d)" if "arg_id ?a \<le> KEY_ID_MAX" for m
    using save_key_changes [OF ok wf_new_key [OF g, of x ?a], of "arg_id ?a" m] that k by simp
  then show ?thesis
    unfolding cmd_add_key_def
    by (intro in_range_changes [OF ok])
      (auto simp: key_effect_def changes_self [OF ok] exists_stored [OF ok] Let_def not_less [symmetric])
qed

lemma delete_changes:
  assumes ok: "store_ok (flash_fs P) V (lfs_crc P) (disk d)"
  shows "changes P V (key_effect P V x (''delete-key'' # as) (disk d)) d (cmd_delete_key P x (''delete-key'' # as) d)"
proof -
  let ?i = "arg_id (''delete-key'' # as)"
  let ?T = "key_map V (lfs_crc P) (disk d)"
  note s = store_okD [OF ok]
  obtain b st where d: "storage_key_delete (flash_fs P) ?i (disk d) = (b, st)"
    by fastforce
  have "store_ok (flash_fs P) V (lfs_crc P) st" "key_map V (lfs_crc P) st = ?T(?i := None)"
    using keys.delete_law [OF ok d] by simp_all
  moreover have "files V (lfs st) FILE_WIFI = files V (lfs (disk d)) FILE_WIFI"
    using delete_effect(3) [OF s(1,3,4) d] key_path_wifi(2) [of ?i] by blast
  ultimately have "changes P V (?T(?i := None)) d (d\<lparr>disk := st\<rparr>)"
    by (simp add: changes_def)
  moreover have "?T(?i := None) = ?T" if "files V (lfs (disk d)) (key_path ?i) = None"
    using that by (auto simp: fun_eq_iff key_map_def)
  ultimately show ?thesis
    unfolding cmd_delete_key_def
    using changes_self [OF ok]
    by (intro in_range_changes [OF ok])
      (auto simp: key_effect_def exists_stored [OF ok] d Let_def not_less [symmetric])
qed

lemmas key_commands_change = add_changes rename_changes enable_changes disable_changes delete_changes
  set_admin_changes unset_admin_changes

end
