(* ===== verification/CmdNetwork.thy ===== *)
theory CmdNetwork imports CmdKeys
begin

text \<open>
  \<open>serial/commands_network.c\<close>: sync-ntp and set-wifi. The \<open>wifi_config_t\<close> on the stack and its
  wipe are not state of the model.
\<close>

definition cmd_sync_ntp ::
  "('fs, 'f, 'c) platform \<Rightarrow> 'a io \<Rightarrow> string list \<Rightarrow> ('fs, 'a) device \<Rightarrow> ('fs, 'a) device" where
  "cmd_sync_ntp P x argv d =
     (let d = line ''syncing...'' d;
          (ok, n) = ntp_sync (build_time P) (sync x) (net d);
          d = d\<lparr>net := n\<rparr>
      in play buzzer_beep_short (line (if ok then ''sync ok'' else ''error: sync failed'') d))"

definition wifi_args :: "string list \<Rightarrow> wifi_config_t" where
  "wifi_args argv =
     \<lparr>ssid = (strncpy_c (replicate WIFI_SSID_MAX NUL) (argv ! 1) (WIFI_SSID_MAX - 1))[WIFI_SSID_MAX - 1 := NUL],
      password = (strncpy_c (replicate WIFI_PASSWORD_MAX NUL) (argv ! 2) (WIFI_PASSWORD_MAX - 1))
        [WIFI_PASSWORD_MAX - 1 := NUL]\<rparr>"

definition reconnect ::
  "('fs, 'f, 'c) platform \<Rightarrow> 'a io \<Rightarrow> wifi_config_t \<Rightarrow> ('fs, 'a) device \<Rightarrow> ('fs, 'a) device" where
  "reconnect P x cfg d =
     (let d = line ''reconnecting wifi...'' d;
          (up, es, w) = wifi_connect (radio x) (ssid cfg) (password cfg) (wlan d);
          d = play es (d\<lparr>wlan := w\<rparr>)
      in if up
         then let d = line ''syncing ntp...'' d;
                  (ok, n) = ntp_sync (build_time P) (sync x) (net d)
              in line (if ok then ''ntp sync ok'' else ''ntp sync failed'') (d\<lparr>net := n\<rparr>)
         else line ''wifi connect failed'' d)"

definition cmd_set_wifi ::
  "('fs, 'f, 'c) platform \<Rightarrow> 'a io \<Rightarrow> string list \<Rightarrow> ('fs, 'a) device \<Rightarrow> ('fs, 'a) device" where
  "cmd_set_wifi P x argv d =
     (if WIFI_SSID_MAX \<le> length (argv ! 1)
      then ack (line (''error: ssid too long (max '' @ udec (WIFI_SSID_MAX - 1) @ '' chars)'') d)
      else if WIFI_PASSWORD_MAX \<le> length (argv ! 2)
      then ack (line (''error: password too long (max '' @ udec (WIFI_PASSWORD_MAX - 1) @ '' chars)'') d)
      else let cfg = wifi_args argv;
               (ok, st) = storage_wifi_set (flash_fs P) cfg (disk d);
               d = line (''storage_wifi_set: '' @ (if ok then ''ok'' else ''FAILED'')) (d\<lparr>disk := st\<rparr>)
           in if \<not> ok then ack d else ack (reconnect P x cfg d))"

section \<open>What they change\<close>

definition sound_after ::
  "('fs, 'f, 'c) platform \<Rightarrow> ('fs, 'f) lfs_view \<Rightarrow> ('fs, 'a) device \<Rightarrow> ('fs, 'a) device \<Rightarrow> bool" where
  \<comment> \<open>a sound store stays sound, the session is untouched, no static buffer fills up\<close>
  "sound_after P V d d' \<longleftrightarrow>
     (store_ok (flash_fs P) V (lfs_crc P) (disk d) \<longrightarrow> store_ok (flash_fs P) V (lfs_crc P) (disk d')) \<and>
     admin_mode d' = admin_mode d \<and> admin_deadline_us d' = admin_deadline_us d \<and> halted d' = halted d \<and>
     import_b64 d' = import_b64 d \<and> (clean d \<longrightarrow> clean d')"

lemma reads_sound: "reads V d d' \<Longrightarrow> sound_after P V d d'"
  by (auto simp: reads_def same_session_def sound_after_def intro: same_disk_store_ok)

lemma sync_ntp_frame:
  "disk (cmd_sync_ntp P x argv d) = disk d" "sound_after P V d (cmd_sync_ntp P x argv d)"
  by (simp_all add: cmd_sync_ntp_def sound_after_def split: prod.split)

lemma reconnect_frame:
  "disk (reconnect P x cfg d) = disk d" "admin_mode (reconnect P x cfg d) = admin_mode d"
  "admin_deadline_us (reconnect P x cfg d) = admin_deadline_us d" "halted (reconnect P x cfg d) = halted d"
  "clean (reconnect P x cfg d) = clean d" "import_b64 (reconnect P x cfg d) = import_b64 d"
  by (simp_all add: reconnect_def Let_def split: prod.split)

lemma wifi_write_ok:
  assumes ok: "store_ok L V crc st" and w: "write_file L FILE_WIFI bs st = (b, st')"
  shows "store_ok L V crc st'" and "key_map V crc st' = key_map V crc st"
proof -
  note s = store_okD [OF ok] and wr = write_file_spec [OF store_okD(1) [OF ok] w]
  have key: "files V (lfs st') p = files V (lfs st) p" if "key_file p" for p
    using wr that by (cases "p = FILE_WIFI") simp_all
  have "names_ok V st'"
    using s(4) wr key unfolding names_ok_def by (metis domIff)
  moreover show km: "key_map V crc st' = key_map V crc st"
    using wr key by (simp add: key_map_def fun_eq_iff)
  ultimately show "store_ok L V crc st'"
    using ok wr by (simp add: store_ok_def)
qed

lemma wf_wifi_args: "wf_wifi (wifi_args argv)"
  by (simp add: wf_wifi_def wifi_args_def length_strncpy_c)

lemma set_wifi_effect:
  assumes ok: "store_ok (flash_fs P) V (lfs_crc P) (disk d)"
  shows "sound_after P V d (cmd_set_wifi P x argv d)"
    and "key_map V (lfs_crc P) (disk (cmd_set_wifi P x argv d)) = key_map V (lfs_crc P) (disk d)"
proof -
  obtain b st where w: "storage_wifi_set (flash_fs P) (wifi_args argv) (disk d) = (b, st)"
    by fastforce
  have "write_file (flash_fs P) FILE_WIFI (wifi_image (wifi_args argv)) (disk d) = (b, st)"
    using w store_okD(3) [OF ok] by (simp add: storage_wifi_set_def)
  note wr = wifi_write_ok [OF ok this]
  have "disk (cmd_set_wifi P x argv d) = disk d \<or> disk (cmd_set_wifi P x argv d) = st"
    by (simp add: cmd_set_wifi_def w reconnect_frame Let_def)
  then show "key_map V (lfs_crc P) (disk (cmd_set_wifi P x argv d)) = key_map V (lfs_crc P) (disk d)"
    using wr(2) by auto
  show "sound_after P V d (cmd_set_wifi P x argv d)"
    using wr(1) by (simp add: sound_after_def cmd_set_wifi_def w reconnect_frame Let_def)
qed

end
