(* ===== verification/CmdBackup.thy ===== *)
theory CmdBackup imports CmdNetwork
begin

text \<open>
  \<open>serial/commands_backup.c\<close>: export-keys and import-keys. The four static buffers are state of
  the device, so that what a path leaves in them can be stated; the line buffer is on the
  stack. The paste loop is given the characters that arrive before its deadline.
\<close>

definition cmd_export_keys ::
  "('fs, 'f, 'c) platform \<Rightarrow> 'a io \<Rightarrow> string list \<Rightarrow> ('fs, 'a) device \<Rightarrow> ('fs, 'a) device" where
  "cmd_export_keys P x argv d =
     (let (r, st) = backup_export (flash_fs P) (lfs_crc P) BACKUP_BUF_LEN (disk d); d = d\<lparr>disk := st\<rparr> in
      case r of
        None \<Rightarrow> ack ((line ''error: export failed'' d)\<lparr>export_buf := wiped_bytes\<rparr>)
      | Some blob \<Rightarrow>
          let d = d\<lparr>export_buf := overwrite blob (export_buf d),
                    export_b64 := overwrite (base64_encode blob) (export_b64 d)\<rparr>;
              d = lines_out [''--- BEGIN HSLOCK BACKUP ---'', cstr (export_b64 d),
                             ''--- END HSLOCK BACKUP ---''] d
          in ack (d\<lparr>export_buf := wiped_bytes, export_b64 := wiped_text\<rparr>))"

definition LINE_MAX :: nat where
  "LINE_MAX = 256"

definition B64_BUF_LEN :: nat where
  "B64_BUF_LEN = BASE64_ENCODED_LEN BACKUP_BUF_LEN"

lemma B64_BUF_LEN_value: "B64_BUF_LEN = 7533" and BACKUP_BUF_LEN_value: "BACKUP_BUF_LEN = 5648"
  by (simp_all add: B64_BUF_LEN_def BASE64_ENCODED_LEN_def BACKUP_BUF_LEN_def SIZEOF_HEADER_def
      SIZEOF_BACKUP_KEY_def BACKUP_MAX_KEYS_def KEY_MAX_COUNT_def)

fun paste_loop ::
  "('fs, 'f, 'c) platform \<Rightarrow> poll list \<Rightarrow> nat \<Rightarrow> bool \<Rightarrow> string \<Rightarrow> ('fs, 'a) device \<Rightarrow>
     nat \<times> bool \<times> string \<times> ('fs, 'a) device" where
  \<comment> \<open>\<open>b64_len\<close>, \<open>overflow\<close> and the characters of \<open>line\<close>\<close>
  "paste_loop P [] n overflow ln d = (n, overflow, ln, d)"
| "paste_loop P (p # ps) n overflow ln d =
     (let d = serve_door P (door_clock p) (arrive p d) in
      case got p of
        None \<Rightarrow> paste_loop P ps n overflow ln d
      | Some c \<Rightarrow>
          if c = CHR 0x0D then paste_loop P ps n overflow ln d
          else if c = CHR 0x0A
          then if ln = [] then (n, overflow, ln, d)
               else if n + length ln < B64_BUF_LEN
               then paste_loop P ps (n + length ln) overflow []
                      (d\<lparr>import_b64 := take n (import_b64 d) @ ln @ drop (n + length ln) (import_b64 d)\<rparr>)
               else paste_loop P ps n True [] d
          else if length ln < LINE_MAX - 1 then paste_loop P ps n overflow (ln @ [c]) d
          else paste_loop P ps n overflow ln d)"

definition wipe_import :: "('fs, 'a) device \<Rightarrow> ('fs, 'a) device" where
  "wipe_import d = d\<lparr>import_b64 := wiped_text, import_buf := wiped_bytes\<rparr>"

definition import_text ::
  "('fs, 'f, 'c) platform \<Rightarrow> 'a io \<Rightarrow> string \<Rightarrow> ('fs, 'a) device \<Rightarrow> ('fs, 'a) device" where
  \<comment> \<open>from the length check on, with the collected text\<close>
  "import_text P x b64 d =
     (if BACKUP_BUF_LEN < BASE64_DECODED_LEN (length b64) then ack (line ''error: import data too large'' d)
      else let (bs, n) = base64_decode b64 BACKUP_BUF_LEN; d = d\<lparr>import_buf := overwrite bs (import_buf d)\<rparr> in
      if n < 0 then ack (wipe_import (line ''error: invalid base64'' d))
      else let d = line ''backing up current keys...'' d;
               d = cmd_export_keys P x [] d;
               d = line ''importing...'' d;
               (r, st) = backup_import (flash_fs P) (lfs_crc P) (take (nat n) (import_buf d)) (disk d);
               d = line (case r of Inr _ \<Rightarrow> ''import ok'' | Inl _ \<Rightarrow> ''error: import failed'') (d\<lparr>disk := st\<rparr>)
           in ack (wipe_import d))"

definition cmd_import_keys ::
  "('fs, 'f, 'c) platform \<Rightarrow> 'a io \<Rightarrow> string list \<Rightarrow> ('fs, 'a) device \<Rightarrow> ('fs, 'a) device" where
  "cmd_import_keys P x argv d =
     (let d = line ''*** WARNING: import overwrites ALL current keys ***'' d;
          d = say ''type CONFIRM to proceed: '' d;
          (confirm, d) = read_confirm P False (confirm_polls x) [] d
      in if \<not> confirmed confirm then ack (line ''error: aborted'' d)
      else let d = line ''backing up current keys...'' d;
               d = cmd_export_keys P x [] d;
               d = line ''paste import data, then send empty line:'' d;
               (n, overflow, ln, d) = paste_loop P (paste_polls x) 0 False [] d
      in if overflow then ack (line ''error: import data too large'' d)
      else if n = 0
      then ack ((line ''error: no data received'' d)\<lparr>import_b64 := wiped_text\<rparr>)
      else import_text P x (take n (import_b64 d)) d)"

section \<open>What is typed and pasted\<close>

fun typed_confirm :: "poll list \<Rightarrow> string \<Rightarrow> string" where
  \<comment> \<open>the characters a wait for CONFIRM collects\<close>
  "typed_confirm [] s = s"
| "typed_confirm (p # ps) s =
     (if 7 \<le> length s then s
      else case got p of
        None \<Rightarrow> typed_confirm ps s
      | Some c \<Rightarrow> if c = CHR 0x0D \<or> c = CHR 0x0A then s else typed_confirm ps (s @ [c]))"

lemma fst_read_confirm: "fst (read_confirm P serve ps s d) = typed_confirm ps s"
proof (induction ps arbitrary: s d)
  case (Cons p ps)
  then show ?case
    by (cases serve) (simp_all add: Let_def split: option.split)
qed simp

definition confirm_typed :: "'a io \<Rightarrow> bool" where
  \<comment> \<open>CONFIRM is typed before the deadline\<close>
  "confirm_typed x \<longleftrightarrow> confirmed (typed_confirm (confirm_polls x) [])"

fun pasted :: "poll list \<Rightarrow> string \<Rightarrow> bool \<Rightarrow> string \<Rightarrow> string \<times> bool" where
  \<comment> \<open>the text the paste loop collects, and whether a line did not fit\<close>
  "pasted [] t overflow ln = (t, overflow)"
| "pasted (p # ps) t overflow ln =
     (case got p of
        None \<Rightarrow> pasted ps t overflow ln
      | Some c \<Rightarrow>
          if c = CHR 0x0D then pasted ps t overflow ln
          else if c = CHR 0x0A
          then if ln = [] then (t, overflow)
               else if length t + length ln < B64_BUF_LEN then pasted ps (t @ ln) overflow []
               else pasted ps t True []
          else if length ln < LINE_MAX - 1 then pasted ps t overflow (ln @ [c])
          else pasted ps t overflow ln)"

definition received :: "('fs, 'f) lfs_view \<Rightarrow> ('fs, 'a) device \<Rightarrow> ('fs, 'a) device \<Rightarrow> bool" where
  \<comment> \<open>as \<open>waited\<close>, with text arriving in the paste buffer\<close>
  "received V d d' \<longleftrightarrow>
     same_disk V (disk d) (disk d') \<and> admin_mode d' = admin_mode d \<and>
     admin_deadline_us d' = admin_deadline_us d \<and> net d' = net d \<and> wlan d' = wlan d \<and>
     status_keys d' = status_keys d \<and> login_keys d' = login_keys d \<and> list_keys d' = list_keys d \<and>
     export_buf d' = export_buf d \<and> export_b64 d' = export_b64 d \<and> import_buf d' = import_buf d \<and>
     halted d' = halted d"

lemma waited_received: "waited V d d' \<Longrightarrow> received V d d'"
  using waitedD [of V d d'] by (simp add: received_def)

lemma received_trans:
  "received V d e \<Longrightarrow> received V e d' \<Longrightarrow> received V d d'"
  unfolding received_def by (metis same_disk_trans)

lemma received_b64: "received V d e \<Longrightarrow> received V d (e\<lparr>import_b64 := t\<rparr>)"
  by (simp add: received_def)

lemma paste_step:
  fixes P :: "('fs, 'f, 'c) platform" and d :: "('fs, 'a) device" and t :: string
  assumes "n = length t"
  defines "e p \<equiv> serve_door P (door_clock p) (arrive p d)"
  obtains (stop) "paste_loop P (p # ps) n ov ln d = (n, ov, ln, e p)" and "pasted (p # ps) t ov ln = (t, ov)"
  | (append) "paste_loop P (p # ps) n ov ln d = paste_loop P ps (n + length ln) ov []
        ((e p)\<lparr>import_b64 := take n (import_b64 (e p)) @ ln @ drop (n + length ln) (import_b64 (e p))\<rparr>)"
      and "pasted (p # ps) t ov ln = pasted ps (t @ ln) ov []" and "n + length ln < B64_BUF_LEN"
  | (keep) ov' ln' where "paste_loop P (p # ps) n ov ln d = paste_loop P ps n ov' ln' (e p)"
      and "pasted (p # ps) t ov ln = pasted ps t ov' ln'"
proof (cases "got p")
  case None
  then show thesis
    by (intro keep [of ov ln]) (simp_all add: e_def)
next
  case (Some c)
  consider "c = CHR 0x0D" | "c = CHR 0x0A" "ln = []" | "c = CHR 0x0A" "ln \<noteq> []" "n + length ln < B64_BUF_LEN"
    | "c = CHR 0x0A" "ln \<noteq> []" "\<not> n + length ln < B64_BUF_LEN" | "c \<noteq> CHR 0x0D" "c \<noteq> CHR 0x0A"
    by blast
  then show thesis
  proof cases
    case 1
    then show thesis
      by (intro keep [of ov ln]) (simp_all add: e_def Some)
  next
    case 2
    then show thesis
      by (intro stop) (simp_all add: e_def Some)
  next
    case 3
    then show thesis
      using assms(1) by (intro append) (simp_all add: e_def Some Let_def)
  next
    case 4
    then show thesis
      using assms(1) by (intro keep [of True "[]"]) (simp_all add: e_def Some)
  next
    case 5
    then show thesis
      by (intro keep [of ov "if length ln < LINE_MAX - 1 then ln @ [c] else ln"]) (simp_all add: e_def Some)
  qed
qed

lemma paste_loop_spec:
  assumes L: "lfs_laws (flash_fs P) V"
    and "paste_loop P ps n ov ln d = (n', ov', ln', d')"
    and "n = length t" and "take n (import_b64 d) = t" and "length (import_b64 d) = B64_BUF_LEN"
  shows "received V d d' \<and> length (import_b64 d') = B64_BUF_LEN \<and>
    take n' (import_b64 d') = fst (pasted ps t ov ln) \<and> ov' = snd (pasted ps t ov ln) \<and> n' = length (fst (pasted ps t ov ln))"
  using assms(2-)
proof (induction ps arbitrary: n ov ln d t)
  case Nil
  then show ?case
    by (auto intro: waited_received)
next
  case (Cons p ps)
  let ?e = "serve_door P (door_clock p) (arrive p d)"
  have w: "waited V d ?e"
    by (rule waited_trans [OF waited_arrive waited_serve [OF L]])
  have b: "import_b64 ?e = import_b64 d" "received V d ?e"
    using waitedD(11) [OF w] waited_received [OF w] by simp_all
  note run = Cons.prems(1)
  from Cons.prems(2) show ?case
  proof (cases rule: paste_step [of n t P p ps ov ln d])
    case stop
    have "n' = n" "ov' = ov" "d' = ?e"
      using run [unfolded stop(1)] by simp_all
    then show ?thesis
      unfolding stop(2) using Cons.prems(2-4) b by simp
  next
    case append
    let ?f = "?e\<lparr>import_b64 := take n (import_b64 ?e) @ ln @ drop (n + length ln) (import_b64 ?e)\<rparr>"
    have "take (n + length ln) (import_b64 ?f) = t @ ln" "length (import_b64 ?f) = B64_BUF_LEN"
      using append(3) Cons.prems(2-4) b by simp_all
    from Cons.IH [OF run [unfolded append(1)] _ this] Cons.prems(2) show ?thesis
      unfolding append(2) using received_trans [OF received_b64 [OF b(2)]] by (simp only: length_append) blast
  next
    case (keep ov2 ln2)
    have "take n (import_b64 ?e) = t" "length (import_b64 ?e) = B64_BUF_LEN"
      using Cons.prems(3,4) b(1) by simp_all
    from Cons.IH [OF run [unfolded keep(1)] Cons.prems(2) this] show ?thesis
      unfolding keep(2) using received_trans [OF b(2)] by blast
  qed
qed

section \<open>What they change\<close>

lemma export_same_disk:
  assumes "lfs_laws L V" and "backup_export L crc n st = (r, st')"
  shows "same_disk V st st'"
proof -
  obtain rs st1 where l: "storage_key_list L crc (int BACKUP_MAX_KEYS) st = (rs, st1)"
    by fastforce
  have "st' = st1"
  proof (cases rs)
    case (Some ks)
    then show ?thesis
      using arg_cong [OF assms(2), of snd] by (simp add: backup_export_def l Let_def split: if_splits)
  qed (use assms(2) in \<open>simp add: backup_export_def l\<close>)
  then show ?thesis
    using list_same_disk [OF assms(1) l] by simp
qed

lemma export_reads:
  assumes L: "lfs_laws (flash_fs P) V"
  shows "reads V d (cmd_export_keys P x argv d)"
proof -
  obtain r st where e: "backup_export (flash_fs P) (lfs_crc P) BACKUP_BUF_LEN (disk d) = (r, st)"
    by fastforce
  have s: "same_disk V (disk d) st"
    by (rule export_same_disk [OF L e])
  show ?thesis
  proof (cases r)
    case None
    then have "cmd_export_keys P x argv d = ack ((line ''error: export failed'' (d\<lparr>disk := st\<rparr>))\<lparr>export_buf := wiped_bytes\<rparr>)"
      by (simp add: cmd_export_keys_def e)
    then show ?thesis
      using s by (simp add: reads_def same_session_def clean_def)
  next
    case (Some blob)
    let ?d = "d\<lparr>disk := st, export_buf := overwrite blob (export_buf d),
      export_b64 := overwrite (base64_encode blob) (export_b64 d)\<rparr>"
    have "cmd_export_keys P x argv d = ack ((lines_out [''--- BEGIN HSLOCK BACKUP ---'',
        cstr (export_b64 ?d), ''--- END HSLOCK BACKUP ---''] ?d)\<lparr>export_buf := wiped_bytes, export_b64 := wiped_text\<rparr>)"
      using Some by (simp add: cmd_export_keys_def e)
    then show ?thesis
      using s by (simp add: reads_def same_session_def clean_def)
  qed
qed

lemma save_mounted: "storage_key_save L crc k st = (b, st') \<Longrightarrow> mounted st' = mounted st"
  by (auto simp: storage_key_save_def write_file_def split: if_splits prod.splits)

lemma delete_mounted: "storage_key_delete L i st = (b, st') \<Longrightarrow> mounted st' = mounted st"
  by (auto simp: storage_key_delete_def split: if_splits prod.splits)

lemma delete_existing_mounted: "mounted (delete_existing L ks st) = mounted st"
  by (induction ks arbitrary: st) (auto dest: delete_mounted split: prod.split)

lemma write_keys_saved:
  assumes "saves P"
  shows "mounted st \<Longrightarrow> \<forall>k \<in> set ks. b_id k \<le> KEY_ID_MAX \<Longrightarrow>
     fst (write_keys (flash_fs P) (lfs_crc P) ks st) = Inr ()"
proof (induction ks arbitrary: st)
  case (Cons k ks)
  obtain b st1 where s: "storage_key_save (flash_fs P) (lfs_crc P) (to_key_record k) st = (b, st1)"
    by fastforce
  have "key_id (to_key_record k) \<le> KEY_ID_MAX"
    using Cons.prems by (simp add: to_key_record_def)
  then have b
    using assms Cons.prems(1) s unfolding saves_def by (metis fst_conv)
  then show ?case
    using Cons save_mounted [OF s] by (simp add: s)
qed simp

lemma import_saved:
  assumes "saves P" and "mounted st" and "lfs_laws (flash_fs P) V" and g: "import_gates (lfs_crc P) buf = Inr ks"
  shows "fst (backup_import (flash_fs P) (lfs_crc P) buf st) = Inr ()"
proof -
  obtain l st1 where l: "storage_key_list (flash_fs P) (lfs_crc P) (int BACKUP_MAX_KEYS) st = (l, st1)"
    by fastforce
  have "mounted st1"
    using list_same_disk [OF assms(3) l] assms(2) by (simp add: same_disk_def)
  then have "mounted (delete_existing (flash_fs P) (case l of None \<Rightarrow> [] | Some ks \<Rightarrow> ks) st1)"
    by (simp add: delete_existing_mounted)
  moreover have "\<forall>k \<in> set ks. b_id k \<le> KEY_ID_MAX"
    using g by (simp add: gates_Inr Let_def)
  ultimately show ?thesis
    using write_keys_saved [OF assms(1)] by (simp add: backup_import_def g l)
qed

definition decoded_backup :: "crc32 \<Rightarrow> string \<Rightarrow> (u8 list \<times> backup_key_t list) option" where
  \<comment> \<open>the bytes and the records of a text that fits, is base64 and passes every gate\<close>
  "decoded_backup crc t =
     (if BACKUP_BUF_LEN < BASE64_DECODED_LEN (length t) then None
      else let (bs, n) = base64_decode t BACKUP_BUF_LEN in
      if n < 0 then None
      else case import_gates crc bs of Inl _ \<Rightarrow> None | Inr ks \<Rightarrow> Some (bs, ks))"

lemma export_keeps [simp]:
  "import_b64 (cmd_export_keys P x argv d) = import_b64 d" "import_buf (cmd_export_keys P x argv d) = import_buf d"
  by (simp_all add: cmd_export_keys_def Let_def split: prod.split option.split)

definition cleaned :: "('fs, 'a) device \<Rightarrow> bool" where
  \<comment> \<open>clean but for the two import buffers\<close>
  "cleaned d \<longleftrightarrow> clean (wipe_import d)"

lemma cleaned_frame [simp]:
  "cleaned (say s d) = cleaned d" "cleaned (line s d) = cleaned d" "cleaned (play es d) = cleaned d"
  "cleaned (d\<lparr>import_buf := b\<rparr>) = cleaned d" "cleaned (d\<lparr>import_b64 := t\<rparr>) = cleaned d"
  "cleaned (d\<lparr>disk := st\<rparr>) = cleaned d" "clean (wipe_import d) = cleaned d"
  by (simp_all add: cleaned_def clean_def wipe_import_def)

lemma export_cleaned: "cleaned d \<Longrightarrow> cleaned (cmd_export_keys P x argv d)"
  by (simp add: cmd_export_keys_def Let_def cleaned_def clean_def wipe_import_def split: prod.split option.split)

lemma wipe_import_fields [simp]:
  "disk (wipe_import d) = disk d" "admin_mode (wipe_import d) = admin_mode d"
  "admin_deadline_us (wipe_import d) = admin_deadline_us d" "halted (wipe_import d) = halted d"
  "import_b64 (wipe_import d) = wiped_text"
  by (simp_all add: wipe_import_def)

lemma import_text_run:
  fixes P :: "('fs, 'f, 'c) platform" and x :: "'a io" and d :: "('fs, 'a) device" and t :: string
  assumes L: "lfs_laws (flash_fs P) V" and dec: "base64_decode t BACKUP_BUF_LEN = (bs, n)"
  obtains e r st where "backup_import (flash_fs P) (lfs_crc P) (take (nat n) (import_buf e)) (disk e) = (r, st)"
    and "import_text P x t d =
      (if BACKUP_BUF_LEN < BASE64_DECODED_LEN (length t) then ack (line ''error: import data too large'' d)
      else if n < 0 then ack (wipe_import (line ''error: invalid base64'' (d\<lparr>import_buf := overwrite bs (import_buf d)\<rparr>)))
      else ack (wipe_import (line (case r of Inr _ \<Rightarrow> ''import ok'' | Inl _ \<Rightarrow> ''error: import failed'')
        ((line ''importing...'' e)\<lparr>disk := st\<rparr>))))"
    and "same_disk V (disk d) (disk e)"
    and "admin_mode e = admin_mode d \<and> admin_deadline_us e = admin_deadline_us d \<and> halted e = halted d"
    and "cleaned d \<longrightarrow> cleaned e"
    and "\<not> n < 0 \<longrightarrow> take (nat n) (import_buf e) = bs \<and> n = int (length bs)"
proof -
  let ?d = "line ''backing up current keys...'' (d\<lparr>import_buf := overwrite bs (import_buf d)\<rparr>)"
  define e where "e = cmd_export_keys P x [] ?d"
  have "reads V ?d e"
    unfolding e_def by (rule export_reads [OF L])
  then have "same_disk V (disk d) (disk e)"
    "admin_mode e = admin_mode d \<and> admin_deadline_us e = admin_deadline_us d \<and> halted e = halted d"
    by (simp_all add: reads_def same_session_def)
  moreover obtain r st where imp: "backup_import (flash_fs P) (lfs_crc P) (take (nat n) (import_buf e)) (disk e) = (r, st)"
    by fastforce
  moreover have "import_buf e = overwrite bs (import_buf d)" "cleaned d \<longrightarrow> cleaned e"
    by (simp_all add: e_def export_cleaned)
  moreover from this(1) have "\<not> n < 0 \<longrightarrow> take (nat n) (import_buf e) = bs \<and> n = int (length bs)"
    using base64_decode_canonical [OF dec] by (cases "n < 0") simp_all
  moreover have "import_text P x t d =
      (if BACKUP_BUF_LEN < BASE64_DECODED_LEN (length t) then ack (line ''error: import data too large'' d)
      else if n < 0 then ack (wipe_import (line ''error: invalid base64'' (d\<lparr>import_buf := overwrite bs (import_buf d)\<rparr>)))
      else ack (wipe_import (line (case r of Inr _ \<Rightarrow> ''import ok'' | Inl _ \<Rightarrow> ''error: import failed'')
        ((line ''importing...'' e)\<lparr>disk := st\<rparr>))))"
    unfolding import_text_def dec Let_def prod.case e_def [symmetric] by (simp add: imp)
  ultimately show thesis
    by (intro that [OF imp])
qed

lemma import_text_effect:
  fixes P :: "('fs, 'f, 'c) platform" and x :: "'a io" and d :: "('fs, 'a) device" and t :: string
  assumes ok: "store_ok (flash_fs P) V (lfs_crc P) (disk d)"
  defines "d' \<equiv> import_text P x t d"
  shows "store_ok (flash_fs P) V (lfs_crc P) (disk d')"
    and "case decoded_backup (lfs_crc P) t of
        None \<Rightarrow> same_disk V (disk d) (disk d')
      | Some (bs, ks) \<Rightarrow> \<exists>st r. same_disk V (disk d) st \<and> backup_import (flash_fs P) (lfs_crc P) bs st = (r, disk d')"
    and "admin_mode d' = admin_mode d" and "admin_deadline_us d' = admin_deadline_us d" and "halted d' = halted d"
    and "if BACKUP_BUF_LEN < BASE64_DECODED_LEN (length t) then import_b64 d' = import_b64 d
      else import_b64 d' = wiped_text \<and> (cleaned d \<longrightarrow> clean d')"
proof -
  note L = store_okD(1) [OF ok]
  let ?L = "flash_fs P" and ?crc = "lfs_crc P"
  obtain bs n where dec: "base64_decode t BACKUP_BUF_LEN = (bs, n)"
    by fastforce
  from import_text_run [OF L dec, where d = d and x = x, folded d'_def] obtain e r st where
    imp: "backup_import ?L ?crc (take (nat n) (import_buf e)) (disk e) = (r, st)" and
    d': "d' = (if BACKUP_BUF_LEN < BASE64_DECODED_LEN (length t) then ack (line ''error: import data too large'' d)
      else if n < 0 then ack (wipe_import (line ''error: invalid base64'' (d\<lparr>import_buf := overwrite bs (import_buf d)\<rparr>)))
      else ack (wipe_import (line (case r of Inr _ \<Rightarrow> ''import ok'' | Inl _ \<Rightarrow> ''error: import failed'')
        ((line ''importing...'' e)\<lparr>disk := st\<rparr>))))" and
    e: "same_disk V (disk d) (disk e)"
    "admin_mode e = admin_mode d \<and> admin_deadline_us e = admin_deadline_us d \<and> halted e = halted d"
    "cleaned d \<longrightarrow> cleaned e" and
    bsn: "\<not> n < 0 \<longrightarrow> take (nat n) (import_buf e) = bs \<and> n = int (length bs)"
    by blast
  note eok = same_disk_store_ok [OF e(1) ok] same_disk_key_map [OF e(1), of ?crc]
  note out = import_outcome [OF eok(1) imp]
  show "admin_mode d' = admin_mode d" "admin_deadline_us d' = admin_deadline_us d" "halted d' = halted d"
    using e(2) by (simp_all add: d')
  show "if BACKUP_BUF_LEN < BASE64_DECODED_LEN (length t) then import_b64 d' = import_b64 d
      else import_b64 d' = wiped_text \<and> (cleaned d \<longrightarrow> clean d')"
    using e(3) by (simp add: d')
  show "store_ok ?L V ?crc (disk d')"
    using ok out eok(1) by (auto simp: d' split: sum.splits)
  show "case decoded_backup ?crc t of
        None \<Rightarrow> same_disk V (disk d) (disk d')
      | Some (bs, ks) \<Rightarrow> \<exists>st r. same_disk V (disk d) st \<and> backup_import ?L ?crc bs st = (r, disk d')"
  proof (cases "n < 0 \<or> BACKUP_BUF_LEN < BASE64_DECODED_LEN (length t)")
    case True
    then show ?thesis
      by (auto simp: decoded_backup_def dec d')
  next
    case False
    then have "disk d' = st" "backup_import ?L ?crc bs (disk e) = (r, st)"
      using imp bsn by (simp_all add: d')
    then show ?thesis
      using False e(1) out bsn by (auto simp: decoded_backup_def dec split: sum.split)
  qed
qed

definition pasted_text :: "'a io \<Rightarrow> string" where
  "pasted_text x = fst (pasted (paste_polls x) [] False [])"

definition paste_overflows :: "'a io \<Rightarrow> bool" where
  "paste_overflows x \<longleftrightarrow> snd (pasted (paste_polls x) [] False [])"

definition import_too_large :: "'a io \<Rightarrow> bool" where
  "import_too_large x \<longleftrightarrow> paste_overflows x \<or>
     BACKUP_BUF_LEN < BASE64_DECODED_LEN (length (pasted_text x))"

definition requested_import :: "crc32 \<Rightarrow> 'a io \<Rightarrow> (u8 list \<times> backup_key_t list) option" where
  \<comment> \<open>what the operator asks to be imported: nothing, unless confirmed, and pasted in lines that
    fit, and accepted by every check\<close>
  "requested_import crc x =
     (if confirm_typed x \<and> \<not> paste_overflows x then decoded_backup crc (pasted_text x) else None)"

lemma received_cleaned: "received V d e \<Longrightarrow> cleaned d \<Longrightarrow> cleaned e"
  by (simp add: received_def cleaned_def clean_def wipe_import_def)

lemma clean_cleaned: "clean d \<Longrightarrow> cleaned d"
  by (simp add: cleaned_def clean_def wipe_import_def)

lemma clean_from_cleaned: "cleaned d \<Longrightarrow> import_buf d = wiped_bytes \<Longrightarrow> clean (d\<lparr>import_b64 := wiped_text\<rparr>)"
  by (simp add: cleaned_def clean_def wipe_import_def)

lemma clean_line_b64 [simp]: "clean ((line s d)\<lparr>import_b64 := t\<rparr>) = clean (d\<lparr>import_b64 := t\<rparr>)"
  by (simp add: clean_def)

lemma clean_import_buf: "clean d \<Longrightarrow> import_buf d = wiped_bytes \<and> length (import_b64 d) = B64_BUF_LEN"
  by (simp add: clean_def wiped_text_def B64_BUF_LEN_def)

lemma import_keys_run:
  fixes P :: "('fs, 'f, 'c) platform" and x :: "'a io" and d :: "('fs, 'a) device" and argv :: "string list"
  assumes ok: "store_ok (flash_fs P) V (lfs_crc P) (disk d)" and size: "length (import_b64 d) = B64_BUF_LEN"
  obtains d1 f where "cmd_import_keys P x argv d =
      (if \<not> confirm_typed x then ack (line ''error: aborted'' d1)
      else if paste_overflows x then ack (line ''error: import data too large'' f)
      else if pasted_text x = [] then ack ((line ''error: no data received'' f)\<lparr>import_b64 := wiped_text\<rparr>)
      else import_text P x (pasted_text x) f)"
    and "reads V d d1" and "import_b64 d1 = import_b64 d"
    and "same_disk V (disk d) (disk f)" and "admin_mode f = admin_mode d \<and> admin_deadline_us f = admin_deadline_us d \<and> halted f = halted d"
    and "clean d \<longrightarrow> import_buf f = wiped_bytes \<and> cleaned f"
    and "take (length (pasted_text x)) (import_b64 f) = pasted_text x" and "length (import_b64 f) = B64_BUF_LEN"
proof -
  note L = store_okD(1) [OF ok]
  let ?d0 = "say ''type CONFIRM to proceed: '' (line ''*** WARNING: import overwrites ALL current keys ***'' d)"
  obtain cf d1 where r: "read_confirm P False (confirm_polls x) [] ?d0 = (cf, d1)"
    by fastforce
  have cf: "confirmed cf \<longleftrightarrow> confirm_typed x"
    using fst_read_confirm [of P False "confirm_polls x" "[]" ?d0] r by (simp add: confirm_typed_def)
  have w: "reads V d d1" "import_b64 d1 = import_b64 d" "import_buf d1 = import_buf d"
    using waited_reads [OF waited_confirm [OF L r]] waitedD(11,12) [OF waited_confirm [OF L r]] by simp_all
  define e where "e = line ''paste import data, then send empty line:''
    (cmd_export_keys P x [] (line ''backing up current keys...'' d1))"
  have "reads V (line ''backing up current keys...'' d1) (cmd_export_keys P x [] (line ''backing up current keys...'' d1))"
    by (rule export_reads [OF L])
  then have "reads V d1 e"
    by (simp add: e_def reads_def same_session_def)
  note re = reads_trans [OF w(1) this]
  have e: "clean d \<Longrightarrow> clean e" "length (import_b64 e) = B64_BUF_LEN"
    using re size by (simp_all add: reads_def same_session_def)
  obtain n ov ln f where p: "paste_loop P (paste_polls x) 0 False [] e = (n, ov, ln, f)"
    by (metis prod_cases4)
  have rf: "received V e f" and f: "take n (import_b64 f) = pasted_text x" "ov = paste_overflows x"
    "n = length (pasted_text x)" "length (import_b64 f) = B64_BUF_LEN"
    using paste_loop_spec [OF L p, of "[]"] e(2)
    by (auto simp: pasted_text_def paste_overflows_def)
  have df: "same_disk V (disk d) (disk f)" "admin_mode f = admin_mode d"
    "admin_deadline_us f = admin_deadline_us d" "halted f = halted d"
    "clean d \<Longrightarrow> import_buf f = wiped_bytes" "clean d \<Longrightarrow> cleaned f"
    using re rf received_cleaned [OF rf clean_cleaned [OF e(1)]] clean_import_buf [OF e(1)]
    by (auto simp: reads_def received_def same_session_def intro: same_disk_trans)
  have eq: "cmd_import_keys P x argv d = (if \<not> confirm_typed x then ack (line ''error: aborted'' d1)
      else if paste_overflows x then ack (line ''error: import data too large'' f)
      else if pasted_text x = [] then ack ((line ''error: no data received'' f)\<lparr>import_b64 := wiped_text\<rparr>)
      else import_text P x (pasted_text x) f)"
    unfolding cmd_import_keys_def Let_def r prod.case cf e_def [symmetric] p f(1) f(2) by (simp add: f(3))
  show thesis
    using df f(3) by (intro that [OF eq w(1,2) df(1) _ _ _ f(4)]) (simp_all flip: f(1))
qed

lemma import_keys_effect:
  fixes P :: "('fs, 'f, 'c) platform" and x :: "'a io" and d :: "('fs, 'a) device" and argv :: "string list"
  assumes ok: "store_ok (flash_fs P) V (lfs_crc P) (disk d)" and size: "length (import_b64 d) = B64_BUF_LEN"
  defines "d' \<equiv> cmd_import_keys P x argv d"
  shows "store_ok (flash_fs P) V (lfs_crc P) (disk d') \<and> admin_mode d' = admin_mode d \<and>
      admin_deadline_us d' = admin_deadline_us d \<and> halted d' = halted d \<and> length (import_b64 d') = B64_BUF_LEN"
    and "case requested_import (lfs_crc P) x of
        None \<Rightarrow> same_disk V (disk d) (disk d')
      | Some (bs, ks) \<Rightarrow> \<exists>st r. same_disk V (disk d) st \<and> backup_import (flash_fs P) (lfs_crc P) bs st = (r, disk d')"
    and "if confirm_typed x \<and> import_too_large x
         then take (length (pasted_text x)) (import_b64 d') = pasted_text x else clean d \<longrightarrow> clean d'"
proof -
  note L = store_okD(1) [OF ok]
  from import_keys_run [OF ok size, where x = x and argv = argv, folded d'_def] obtain d1 f where
    eq: "d' = (if \<not> confirm_typed x then ack (line ''error: aborted'' d1)
      else if paste_overflows x then ack (line ''error: import data too large'' f)
      else if pasted_text x = [] then ack ((line ''error: no data received'' f)\<lparr>import_b64 := wiped_text\<rparr>)
      else import_text P x (pasted_text x) f)" and
    w: "reads V d d1" "import_b64 d1 = import_b64 d" and
    df: "same_disk V (disk d) (disk f)"
    "admin_mode f = admin_mode d \<and> admin_deadline_us f = admin_deadline_us d \<and> halted f = halted d"
    "clean d \<longrightarrow> import_buf f = wiped_bytes \<and> cleaned f" and
    f: "take (length (pasted_text x)) (import_b64 f) = pasted_text x" "length (import_b64 f) = B64_BUF_LEN"
    by blast
  note fok = same_disk_store_ok [OF df(1) ok] same_disk_key_map [OF df(1), of "lfs_crc P"]
  have d1s: "same_disk V (disk d) (disk d1)" "admin_mode d1 = admin_mode d"
    "admin_deadline_us d1 = admin_deadline_us d" "halted d1 = halted d" "clean d \<Longrightarrow> clean d1"
    using w(1) by (simp_all add: reads_def same_session_def)
  note d1 = same_disk_store_ok [OF d1s(1) ok] same_disk_key_map [OF d1s(1), of "lfs_crc P"]
  note t = import_text_effect [where x = x and t = "pasted_text x", OF fok(1)]
  show "store_ok (flash_fs P) V (lfs_crc P) (disk d') \<and> admin_mode d' = admin_mode d \<and>
      admin_deadline_us d' = admin_deadline_us d \<and> halted d' = halted d \<and> length (import_b64 d') = B64_BUF_LEN"
    using d1(1) d1s(1-4) fok(1) df(1,2) t(1,3-6) f(2) w(2) size
    by (auto simp: eq B64_BUF_LEN_def wiped_text_def split: if_splits)
  have "decoded_backup crc [] = None" for crc
    by (simp add: decoded_backup_def base64_decode_def BASE64_DECODED_LEN_def import_gates_def SIZEOF_HEADER_def)
  then show "case requested_import (lfs_crc P) x of
        None \<Rightarrow> same_disk V (disk d) (disk d')
      | Some (bs, ks) \<Rightarrow> \<exists>st r. same_disk V (disk d) st \<and> backup_import (flash_fs P) (lfs_crc P) bs st = (r, disk d')"
    using d1s(1) df(1) t(2) same_disk_trans [OF df(1)]
    by (auto simp: eq requested_import_def split: option.splits)
  show "if confirm_typed x \<and> import_too_large x
         then take (length (pasted_text x)) (import_b64 d') = pasted_text x else clean d \<longrightarrow> clean d'"
    using t(6) d1s(5) clean_from_cleaned [of f] df(3) f(1)
    by (auto simp: eq import_too_large_def BASE64_DECODED_LEN_def split: if_splits)
qed

section \<open>Properties\<close>

text \<open>C13: on a mounted volume whose reads, listings and removes do not fail, and whatever is left in
  the paste buffer (an array of \<open>B64_BUF_LEN\<close> characters), import-keys changes
  the disk only when CONFIRM was typed and the pasted text, which is the whole lines received up
  to an empty line or up to the 60 s deadline, whichever comes first, fits, is canonical base64
  and passes every gate; in every other case the files are as before. When it does, the disk is
  what \<open>backup_import\<close> of the decoded bytes makes of the same files: if that reports success
  and no close fails, the keys are exactly those of the backup; if a write is refused, what
  \<open>backup_import\<close> left then; and on a flash that accepts every record it does succeed.\<close>

theorem import_keys_as_confirmed:
  assumes "store_ok (flash_fs P) V (lfs_crc P) (disk d)" and "length (import_b64 d) = B64_BUF_LEN"
  shows "store_ok (flash_fs P) V (lfs_crc P) (disk (cmd_import_keys P x argv d))
    \<and> (case requested_import (lfs_crc P) x of
        None \<Rightarrow> same_disk V (disk d) (disk (cmd_import_keys P x argv d))
      | Some (bs, ks) \<Rightarrow> \<exists>st r. same_disk V (disk d) st
          \<and> backup_import (flash_fs P) (lfs_crc P) bs st = (r, disk (cmd_import_keys P x argv d))
          \<and> (saves P \<longrightarrow> r = Inr ())
          \<and> (r = Inr () \<longrightarrow> lfs_commits (flash_fs P) \<longrightarrow>
              key_map V (lfs_crc P) (disk (cmd_import_keys P x argv d)) = import_map ks))"
proof -
  note L = store_okD(1) [OF assms(1)]
  note eff = import_keys_effect(1,2) [OF assms(1), of x argv]
  note b = assms(2)
  show ?thesis
  proof (cases "requested_import (lfs_crc P) x")
    case None
    then show ?thesis
      using eff [OF b] by simp
  next
    case (Some a)
    obtain bs ks where a: "a = (bs, ks)"
      by fastforce
    obtain st r where st: "same_disk V (disk d) st"
      "backup_import (flash_fs P) (lfs_crc P) bs st = (r, disk (cmd_import_keys P x argv d))"
      using eff(2) [OF b] Some a by auto
    have g: "import_gates (lfs_crc P) bs = Inr ks"
      using Some a by (auto simp: requested_import_def decoded_backup_def split: if_splits prod.splits sum.splits)
    have ok: "store_ok (flash_fs P) V (lfs_crc P) st"
      by (rule same_disk_store_ok [OF st(1) assms(1)])
    show ?thesis
      using eff(1) [OF b] Some a st import_saved [OF _ store_okD(3) [OF ok] L g] import_accepted [OF ok g st(2)]
      by auto
  qed
qed

text \<open>Every other path wipes the paste buffer, but the two that refuse a paste as too large
  leave in it all the text collected, seeds included.\<close>

theorem import_too_large_leaves_text:
  assumes "store_ok (flash_fs P) V (lfs_crc P) (disk d)" and "clean d"
  shows "if confirm_typed x \<and> import_too_large x
    then take (length (pasted_text x)) (import_b64 (cmd_import_keys P x argv d)) = pasted_text x
    else clean (cmd_import_keys P x argv d)"
  using import_keys_effect(3) [OF assms(1), of x argv] clean_import_buf [OF assms(2)] assms(2)
  by (simp split: if_splits)

section \<open>Backups of more than three keys\<close>

definition key_in :: "char \<Rightarrow> poll" where
  "key_in c = \<lparr>posted = None, door_clock = None, got = Some c\<rparr>"

lemma pasted_chars:
  assumes "\<forall>c \<in> set s. c \<noteq> CHR 0x0D \<and> c \<noteq> CHR 0x0A" and "length ln \<le> 255"
  shows "pasted (map key_in s @ ps) t ov ln = pasted ps t ov (take 255 (ln @ s))"
  using assms
proof (induction s arbitrary: ln)
  case (Cons c s)
  show ?case
  proof (cases "length ln < 255")
    case True
    then have "255 - length ln = Suc (254 - length ln)"
      by simp
    then have "take (255 - length ln) (c # s) = c # take (254 - length ln) s"
      by (simp only: take_Suc_Cons)
    then show ?thesis
      using True Cons by (simp add: key_in_def LINE_MAX_def)
  next
    case False
    then have "length ln = 255"
      using Cons.prems(2) by simp
    then show ?thesis
      using Cons.IH [of ln] Cons.prems by (simp add: key_in_def LINE_MAX_def)
  qed
qed simp

lemma b64_text_no_newline: "\<forall>c \<in> set (b64_text bs). c \<noteq> CHR 0x0D \<and> c \<noteq> CHR 0x0A"
  using b64_text_lacks [of "CHR 0x0D" bs] b64_text_lacks [of "CHR 0x0A" bs] by (auto simp: B64_CHARS_def)

lemma cut_backup:
  assumes "189 < length blob"
    and "paste_polls x = map key_in (cstr (base64_encode blob)) @ [key_in (CHR 0x0D), key_in (CHR 0x0A), key_in (CHR 0x0A)]"
  shows "pasted_text x = take 255 (cstr (base64_encode blob)) \<and> \<not> paste_overflows x
    \<and> decoded_backup crc (pasted_text x) = None"
proof -
  have t: "cstr (base64_encode blob) = b64_text blob"
    by simp
  have "192 div 3 \<le> (length blob + 2) div 3"
    using assms(1) by (intro div_le_mono) simp
  then have len: "255 < length (b64_text blob)"
    by (simp add: b64_text_length)
  then have "pasted (paste_polls x) [] False [] = (take 255 (b64_text blob), False)"
    unfolding assms(2) t
    by (subst pasted_chars [OF b64_text_no_newline]) (auto simp: key_in_def B64_BUF_LEN_value)
  then have p: "pasted_text x = take 255 (b64_text blob)" "\<not> paste_overflows x"
    by (simp_all add: pasted_text_def paste_overflows_def)
  have "length (pasted_text x) mod 4 = 3"
    using p(1) len by simp
  then have "decoded_backup crc (pasted_text x) = None"
    by (simp add: decoded_backup_def base64_decode_def)
  then show ?thesis
    using p t by simp
qed

text \<open>C37: on a mounted volume whose files can be listed and read without fault, an exported
  backup of more than 189 bytes, which is one of four keys, is printed as one line longer than
  the 255 characters the paste loop keeps of a line: pasted back as it was printed it is cut,
  refused as invalid base64, and nothing is imported.\<close>

theorem long_backup_not_reimportable:
  assumes "store_ok (flash_fs P) V (lfs_crc P) (disk d)" and "length (import_b64 d) = B64_BUF_LEN" and "189 < length blob"
    and "paste_polls x = map key_in (cstr (base64_encode blob)) @ [key_in (CHR 0x0D), key_in (CHR 0x0A), key_in (CHR 0x0A)]"
  shows "pasted_text x = take 255 (cstr (base64_encode blob))
    \<and> key_map V (lfs_crc P) (disk (cmd_import_keys P x argv d)) = key_map V (lfs_crc P) (disk d)"
  using cut_backup [OF assms(3,4), where crc = "lfs_crc P"] import_keys_effect(2) [OF assms(1,2), of x argv]
  by (auto simp: requested_import_def same_disk_key_map split: if_splits)

section \<open>Witnesses\<close>

lemma demo_saves: "saves demo_platform"
  by (simp add: saves_def ram_save ram_commits)

lemma demo_clean: "clean demo_device"
  by (simp add: demo_device_def device_boot_def clean_def)

lemma demo_sized: "length (import_b64 demo_device) = B64_BUF_LEN"
  using clean_import_buf [OF demo_clean] by simp

definition import_io :: "poll list \<Rightarrow> nat io" where
  "import_io ps = demo_io\<lparr>confirm_polls := map key_in ''CONFIRM'', paste_polls := ps\<rparr>"

lemma import_io_confirmed: "confirm_typed (import_io ps)"
  by (simp add: confirm_typed_def import_io_def key_in_def confirmed_def)

abbreviation end_of_paste :: "poll list" where
  "end_of_paste \<equiv> [key_in (CHR 0x0A), key_in (CHR 0x0A)]"

theorem import_keys_as_confirmed_witness:
  "key_map ram_view sum_crc (disk (cmd_import_keys demo_platform
      (import_io (map key_in (b64_text (blob_of sum_crc one_backup)) @ end_of_paste)) [''import-keys''] demo_device))
   = import_map one_backup"
proof -
  let ?t = "b64_text (blob_of sum_crc one_backup)"
  let ?x = "import_io (map key_in ?t @ end_of_paste)"
  have n: "length (blob_of sum_crc one_backup) = 60"
    by (subst length_blob_of)
      (simp_all add: one_backup_def SIZEOF_HEADER_def SIZEOF_BACKUP_KEY_def bkey_ok_def to_backup_key_def
        norm_key_def door_key_def KEY_NAME_MAX_def KEY_SECRET_LEN_def)
  then have len: "length ?t = 80"
    by (simp add: b64_text_length)
  have "pasted (paste_polls ?x) [] False [] = (?t, False)"
    using len by (simp add: import_io_def pasted_chars [OF b64_text_no_newline])
      (simp add: key_in_def B64_BUF_LEN_value)
  then have p: "pasted_text ?x = ?t" "\<not> paste_overflows ?x"
    by (simp_all add: pasted_text_def paste_overflows_def)
  have "decoded_backup sum_crc ?t = Some (blob_of sum_crc one_backup, one_backup)"
    using n len by (simp add: decoded_backup_def base64_decode_text BACKUP_BUF_LEN_value BASE64_DECODED_LEN_def one_gates)
  then show ?thesis
    using import_keys_as_confirmed [of demo_platform ram_view demo_device ?x "[''import-keys'']"]
    by (auto simp: demo_store_ok demo_sized demo_saves import_io_confirmed p requested_import_def ram_commits)
qed

definition line_of_A :: "poll list" where
  "line_of_A = map key_in (replicate 251 (CHR ''A'')) @ [key_in (CHR 0x0A)]"

lemma pasted_line:
  assumes "\<forall>c \<in> set s. c \<noteq> CHR 0x0D \<and> c \<noteq> CHR 0x0A" and "s \<noteq> []" and "length s \<le> 255"
    and "length t + length s < 7533"
  shows "pasted (map key_in s @ key_in (CHR 0x0A) # ps) t ov [] = pasted ps (t @ s) ov []"
  using assms by (subst pasted_chars) (simp_all add: key_in_def B64_BUF_LEN_value)

lemma pasted_lines:
  "length t + 251 * k < 7533 \<Longrightarrow>
     pasted (concat (replicate k line_of_A) @ ps) t ov [] = pasted ps (t @ replicate (251 * k) (CHR ''A'')) ov []"
proof (induction k arbitrary: t)
  case (Suc k)
  have "concat (replicate (Suc k) line_of_A) @ ps =
      map key_in (replicate 251 (CHR ''A'')) @ key_in (CHR 0x0A) # concat (replicate k line_of_A) @ ps"
    by (simp add: line_of_A_def)
  then have "pasted (concat (replicate (Suc k) line_of_A) @ ps) t ov [] =
      pasted (concat (replicate k line_of_A) @ ps) (t @ replicate 251 (CHR ''A'')) ov []"
    using Suc.prems by (simp only:) (rule pasted_line, simp_all)
  also have "\<dots> = pasted ps ((t @ replicate 251 (CHR ''A'')) @ replicate (251 * k) (CHR ''A'')) ov []"
    using Suc.prems by (intro Suc.IH) simp
  finally show ?case
    by (simp add: replicate_add)
qed simp

definition oversize_io :: "nat io" where
  \<comment> \<open>thirty lines of 251 characters and one of two: 7532 characters\<close>
  "oversize_io = import_io (concat (replicate 30 line_of_A) @ map key_in ''AA'' @ end_of_paste)"

lemma oversize_text: "pasted_text oversize_io = replicate 7532 (CHR ''A'')"
proof -
  have "pasted (paste_polls oversize_io) [] False [] =
      pasted (map key_in ''AA'' @ end_of_paste) (replicate 7530 (CHR ''A'')) False []"
    using pasted_lines [of "[]" 30 "map key_in ''AA'' @ end_of_paste" False]
    by (simp add: oversize_io_def import_io_def)
  also have "\<dots> = (replicate 7530 (CHR ''A'') @ ''AA'', False)"
    by (subst pasted_line) (simp_all add: key_in_def)
  finally show ?thesis
    using replicate_add [of 7530 2 "CHR ''A''"] by (simp add: pasted_text_def numeral_2_eq_2)
qed

theorem import_too_large_leaves_text_witness:
  "take 7532 (import_b64 (cmd_import_keys demo_platform oversize_io [''import-keys''] demo_device)) =
     replicate 7532 (CHR ''A'')"
proof -
  have "import_too_large oversize_io"
    by (simp add: import_too_large_def oversize_text BACKUP_BUF_LEN_value BASE64_DECODED_LEN_def)
  moreover have "confirm_typed oversize_io"
    by (simp only: oversize_io_def import_io_confirmed)
  ultimately show ?thesis
    using import_too_large_leaves_text [of demo_platform ram_view demo_device oversize_io "[''import-keys'']"]
    by (simp add: demo_store_ok demo_clean oversize_text)
qed

definition four_keys_io :: "nat io" where
  \<comment> \<open>192 bytes, as a backup of four keys has, pasted as they are printed\<close>
  "four_keys_io = import_io (map key_in (cstr (base64_encode (replicate 192 7))) @
     [key_in (CHR 0x0D), key_in (CHR 0x0A), key_in (CHR 0x0A)])"

theorem long_backup_not_reimportable_witness:
  "length (replicate 192 (7::u8)) = SIZEOF_HEADER + 4 * SIZEOF_BACKUP_KEY
   \<and> length (pasted_text four_keys_io) = 255
   \<and> key_map ram_view sum_crc (disk (cmd_import_keys demo_platform four_keys_io [''import-keys''] demo_device))
     = [5 \<mapsto> norm_key (door_key 5 True)]"
proof -
  have n: "189 < length (replicate 192 (7::u8))"
    and p: "paste_polls four_keys_io = map key_in (cstr (base64_encode (replicate 192 7))) @
      [key_in (CHR 0x0D), key_in (CHR 0x0A), key_in (CHR 0x0A)]"
    by (simp_all only: four_keys_io_def import_io_def length_replicate io.simps) simp
  have ok: "store_ok (flash_fs demo_platform) ram_view (lfs_crc demo_platform) (disk demo_device)"
    by (simp add: demo_store_ok)
  note l = long_backup_not_reimportable [OF ok demo_sized n p, of "[''import-keys'']"]
  have "length (cstr (base64_encode (replicate 192 (7::u8)))) = 256"
    by (simp add: b64_text_length)
  then have "length (pasted_text four_keys_io) = 255"
    using l by (simp del: cstr_base64_encode)
  then show ?thesis
    using l by (auto simp: SIZEOF_HEADER_def SIZEOF_BACKUP_KEY_def demo_key_map)
qed

end
