(* ===== verification/Commands.thy ===== *)
theory Commands imports CmdSystem CmdBackup
begin

text \<open>
  \<open>serial/commands.c\<close>: the command table, help and the dispatcher. The handlers are in the
  theories \<open>CmdSystem\<close>, \<open>CmdKeys\<close>, \<open>CmdNetwork\<close> and \<open>CmdBackup\<close>. A handler that ends in a
  loop waiting for a reset sets \<open>halted\<close>, and the dispatcher does nothing after it.
\<close>

record command_t =
  command_name :: string
  requires_admin :: bool
  min_args :: int
  max_args :: int
  usage :: string
  description :: string

definition command :: "string \<Rightarrow> bool \<Rightarrow> int \<Rightarrow> int \<Rightarrow> string \<Rightarrow> string \<Rightarrow> command_t" where
  "command n a lo hi u s =
     \<lparr>command_name = n, requires_admin = a, min_args = lo, max_args = hi, usage = u, description = s\<rparr>"

definition COMMANDS :: "command_t list" where
  "COMMANDS =
    [command ''help'' False 0 0 ''help'' ''Print available commands'',
     command ''?'' False 0 0 ''?'' ''Alias for help'',
     command ''status'' False 0 0 ''status'' ''Show system status'',
     command ''test'' False 0 0 ''test'' ''Test LED, buzzer and latch'',
     command ''login'' False 2 2 ''login <key_id> <totp_code>'' ''Enable admin mode via TOTP'',
     command ''logout'' True 0 0 ''logout'' ''End admin session'',
     command ''reboot'' True 0 0 ''reboot'' ''Reboot device'',
     command ''get-time'' False 0 0 ''get-time'' ''Show current RTC time and last NTP sync'',
     command ''sync-ntp'' True 0 0 ''sync-ntp'' ''Force immediate NTP resync'',
     command ''set-wifi'' True 2 2 ''set-wifi <ssid> <password>'' ''Save WiFi credentials'',
     command ''list-keys'' True 0 0 ''list-keys'' ''List all keys (no secrets)'',
     command ''get-key'' True 1 1 ''get-key <id>'' ''Show key details (no secret)'',
     command ''get-key-secret'' True 1 1 ''get-key-secret <id>'' ''Show secret + QR code for key'',
     command ''add-key'' True 2 2 ''add-key <id> <name>'' ''Generate and save new key'',
     command ''rename-key'' True 2 2 ''rename-key <id> <name>'' ''Rename a key'',
     command ''enable-key'' True 1 1 ''enable-key <id>'' ''Enable a disabled key'',
     command ''disable-key'' True 1 1 ''disable-key <id>'' ''Disable a key without deleting'',
     command ''delete-key'' True 1 1 ''delete-key <id>'' ''Permanently delete a key'',
     command ''set-key-admin'' True 1 1 ''set-key-admin <id>'' ''Grant admin flag to key'',
     command ''unset-key-admin'' True 1 1 ''unset-key-admin <id>'' ''Remove admin flag from key'',
     command ''export-keys'' True 0 0 ''export-keys'' ''Dump all keys as base64'',
     command ''import-keys'' True 0 0 ''import-keys'' ''Export backup then overwrite with provided data'',
     command ''format-storage'' False 0 0 ''format-storage'' ''Erase and reinitialise storage (recovery only)'']"

definition help_row :: "string \<Rightarrow> string \<Rightarrow> string" where
  "help_row u s = ''  '' @ pad_right 32 u @ ''  '' @ s"

definition cmd_help ::
  "('fs, 'f, 'c) platform \<Rightarrow> 'a io \<Rightarrow> string list \<Rightarrow> ('fs, 'a) device \<Rightarrow> ('fs, 'a) device" where
  "cmd_help P x argv d =
     (let shown = filter (\<lambda>c. \<not> (requires_admin c \<and> \<not> admin_mode d) \<and> command_name c \<noteq> ''?'') COMMANDS
      in ack (lines_out
           ([CRLF @ ''available commands:'' @ CRLF, help_row ''usage'' ''description'',
             help_row (replicate 32 (CHR ''-'')) (replicate 35 (CHR ''-''))] @
            map (\<lambda>c. help_row (usage c) (description c)) shown @ [[]]) d))"

type_synonym ('fs, 'a) handler = "string list \<Rightarrow> ('fs, 'a) device \<Rightarrow> ('fs, 'a) device"

definition HANDLERS :: "('fs, 'f, 'c) platform \<Rightarrow> 'a io \<Rightarrow> ('fs, 'a) handler list" where
  "HANDLERS P x =
    [cmd_help P x, cmd_help P x, cmd_status P x, cmd_test P x, cmd_login P x,
     cmd_logout P x, cmd_reboot P x, cmd_get_time P x, cmd_sync_ntp P x, cmd_set_wifi P x,
     cmd_list_keys P x, cmd_get_key P x, cmd_get_key_secret P x, cmd_add_key P x, cmd_rename_key P x,
     cmd_enable_key P x, cmd_disable_key P x, cmd_delete_key P x, cmd_set_key_admin P x, cmd_unset_key_admin P x,
     cmd_export_keys P x, cmd_import_keys P x, cmd_format_storage P x]"

section \<open>Dispatch\<close>

definition run_command ::
  "'a io \<Rightarrow> command_t \<Rightarrow> ('fs, 'a) handler \<Rightarrow> string list \<Rightarrow> ('fs, 'a) device \<Rightarrow> ('fs, 'a) device" where
  \<comment> \<open>the body of the loop for the entry that matches\<close>
  "run_command x cmd handler argv d =
     (let (expired, d) = (if requires_admin cmd then admin_session_expired (t_gate x) d else (False, d)) in
      if expired then ack (line ''error: admin session expired - use login <otp>'' d)
      else if requires_admin cmd \<and> \<not> admin_mode d
      then ack (line (''error: '' @ quoted (command_name cmd) @ '' requires admin mode - use login <otp>'') d)
      else let user_args = int (length argv) - 1 in
      if user_args < min_args cmd \<or> max_args cmd < user_args
      then ack (line (''error: usage: '' @ usage cmd) d)
      else let d = handler argv d in
      if halted d then d
      else if requires_admin cmd \<and> admin_mode d then commands_admin_grant (t_refresh x) d
      else d)"

fun dispatch_loop ::
  "'a io \<Rightarrow> (command_t \<times> ('fs, 'a) handler) list \<Rightarrow> string list \<Rightarrow> ('fs, 'a) device \<Rightarrow> ('fs, 'a) device" where
  "dispatch_loop x [] argv d =
     ack (line (''error: unknown command '' @ quoted (argv ! 0) @ '' - type '' @ quoted ''help'' @
                '' for available commands'') d)"
| "dispatch_loop x ((cmd, handler) # rest) argv d =
     (if argv ! 0 \<noteq> command_name cmd then dispatch_loop x rest argv d
      else run_command x cmd handler argv d)"

definition commands_dispatch ::
  "('fs, 'f, 'c) platform \<Rightarrow> 'a io \<Rightarrow> string list \<Rightarrow> ('fs, 'a) device \<Rightarrow> ('fs, 'a) device" where
  "commands_dispatch P x argv d =
     (if \<not> storage_is_mounted (disk d) \<and> \<not> (argv ! 0 = ''format-storage'' \<or> argv ! 0 = ''help'' \<or> argv ! 0 = ''?'')
      then ack (line (''error: storage unavailable - run '' @ quoted ''format-storage'') d)
      else dispatch_loop x (zip COMMANDS (HANDLERS P x)) argv d)"

section \<open>One command at a time\<close>

lemma dispatch_loop_rule:
  assumes "\<forall>(cmd, h) \<in> set cs. argv ! 0 = command_name cmd \<longrightarrow> Q (run_command x cmd h argv d)"
    and "\<And>s. Q (ack (line s d))"
  shows "Q (dispatch_loop x cs argv d)"
  using assms by (induction cs) auto

lemma dispatch_loop_hit:
  assumes "\<forall>(cmd, h) \<in> set cs. argv ! 0 = command_name cmd \<longrightarrow> Q (run_command x cmd h argv d)"
    and "\<exists>c \<in> set cs. argv ! 0 = command_name (fst c)"
  shows "Q (dispatch_loop x cs argv d)"
  using assms
proof (induction cs)
  case (Cons c cs)
  obtain cmd h where c: "c = (cmd, h)"
    by fastforce
  show ?case
    using Cons by (cases "argv ! 0 = command_name cmd") (simp_all add: c)
qed simp

lemma command_fields [simp]:
  "command_name (command n a lo hi u s) = n" "requires_admin (command n a lo hi u s) = a"
  "min_args (command n a lo hi u s) = lo" "max_args (command n a lo hi u s) = hi"
  by (simp_all add: command_def)

lemma help_reads: "reads V d (cmd_help P x argv d)"
  by (simp add: cmd_help_def Let_def)

definition active :: "'a io \<Rightarrow> ('fs, 'a) device \<Rightarrow> bool" where
  \<comment> \<open>an admin session that the dispatcher still honours\<close>
  "active x d \<longleftrightarrow> admin_mode d \<and> (admin_deadline_us d = 0 \<or> t_gate x < admin_deadline_us d)"

lemma expired_active:
  "admin_session_expired (t_gate x) d =
     (if admin_mode d \<and> \<not> active x d then (True, d\<lparr>admin_mode := False, admin_deadline_us := 0\<rparr>) else (False, d))"
  by (auto simp: admin_session_expired_def active_def not_less)

lemma run_inactive:
  assumes "requires_admin cmd" and "\<not> active x d"
  shows "\<exists>s. run_command x cmd h argv d =
    ack (line s (if admin_mode d then d\<lparr>admin_mode := False, admin_deadline_us := 0\<rparr> else d))"
  using assms by (auto simp: run_command_def expired_active)

lemma run_active:
  assumes "requires_admin cmd" and "active x d"
  shows "run_command x cmd h argv d =
    (let n = int (length argv) - 1 in
     if n < min_args cmd \<or> max_args cmd < n then ack (line (''error: usage: '' @ usage cmd) d)
     else if halted (h argv d) then h argv d
     else if admin_mode (h argv d) then commands_admin_grant (t_refresh x) (h argv d) else h argv d)"
  using assms by (simp add: run_command_def expired_active Let_def) (simp add: active_def)

lemma run_open:
  assumes "\<not> requires_admin cmd"
  shows "run_command x cmd h argv d =
    (let n = int (length argv) - 1 in
     if n < min_args cmd \<or> max_args cmd < n then ack (line (''error: usage: '' @ usage cmd) d) else h argv d)"
  using assms by (simp add: run_command_def Let_def)

lemmas table = COMMANDS_def HANDLERS_def

lemma table_names: "fst ` set (zip COMMANDS (HANDLERS P x)) = set COMMANDS"
  by (simp add: table)

lemma table_commands: "(cmd, h) \<in> set (zip COMMANDS (HANDLERS P x)) \<Longrightarrow> cmd \<in> set COMMANDS"
  by (rule set_zip_leftD)

section \<open>Without an admin session\<close>

lemma run_open_reads:
  assumes "\<not> requires_admin cmd" and "reads V d (h argv d)"
  shows "reads V d (run_command x cmd h argv d)"
  using assms(2) by (simp add: run_open [OF assms(1)] Let_def)

lemma run_login:
  "run_command x (command n False lo hi u s) (cmd_login P x) argv d = cmd_login P x argv d
   \<or> (\<exists>t. run_command x (command n False lo hi u s) (cmd_login P x) argv d = ack (line t d))"
  by (simp add: run_open Let_def) blast

definition harmless :: "('fs, 'f, 'c) platform \<Rightarrow> ('fs, 'f) lfs_view \<Rightarrow> 'a io \<Rightarrow> string list \<Rightarrow>
    ('fs, 'a) device \<Rightarrow> ('fs, 'a) device \<Rightarrow> bool" where
  "harmless P V x argv d d' \<longleftrightarrow>
     same_disk V (disk d) (disk d') \<and> (clean d \<longrightarrow> clean d') \<and> halted d' = halted d \<and>
     (admin_mode d' \<longrightarrow> admin_mode d \<and> admin_deadline_us d' = admin_deadline_us d \<or>
        argv ! 0 = ''login'' \<and> d' = cmd_login P x argv d)"

lemma reads_harmless: "reads V d d' \<Longrightarrow> harmless P V x argv d d'"
  by (simp add: reads_def same_session_def harmless_def)

lemma inactive_harmless:
  "requires_admin cmd \<Longrightarrow> \<not> active x d \<Longrightarrow> harmless P V x argv d (run_command x cmd h argv d)"
  using run_inactive [of cmd x d h argv] by (auto simp: harmless_def split: if_splits)

definition admin_names :: "string list" where
  "admin_names = map command_name (filter requires_admin COMMANDS)"

lemma dispatch_harmless:
  assumes L: "lfs_laws (flash_fs P) V" and m: "mounted (disk d)"
    and a: "\<not> active x d \<or> argv ! 0 \<notin> set admin_names"
  shows "harmless P V x argv d (commands_dispatch P x argv d)"
proof -
  have "harmless P V x argv d (dispatch_loop x (zip COMMANDS (HANDLERS P x)) argv d)"
  proof (rule dispatch_loop_rule)
    have login: "harmless P V x argv d (run_command x (command ''login'' False lo hi u s) (cmd_login P x) argv d)"
      if "argv ! 0 = ''login''" for lo hi u s
      using run_login [of x "''login''" lo hi u s P argv d] login_frame [OF L, where d = d and x = x and argv = argv] that
      by (auto simp: harmless_def)
    have open_reads: "harmless P V x argv d (run_command x (command n False lo hi u s) h argv d)"
      if "reads V d (h argv d)" for n lo hi u s h
      by (rule reads_harmless, rule run_open_reads) (use that in simp_all)
    have admin: "harmless P V x argv d (run_command x (command n True lo hi u s) h argv d)"
      if "argv ! 0 = n" and "n \<in> set admin_names" for n lo hi u s h
      by (rule inactive_harmless) (use a that in auto)
    show "\<forall>(cmd, h) \<in> set (zip COMMANDS (HANDLERS P x)). argv ! 0 = command_name cmd \<longrightarrow>
        harmless P V x argv d (run_command x cmd h argv d)"
      by (simp add: table login open_reads admin admin_names_def help_reads status_reads [OF L] get_time_reads test_reads
          format_refused [OF m])
  next
    show "harmless P V x argv d (ack (line s d))" for s
      by (simp add: harmless_def)
  qed
  then show ?thesis
    using m by (simp add: commands_dispatch_def storage_is_mounted_def)
qed

text \<open>In recovery mode, with no volume mounted, only the formatting that is confirmed does more.\<close>

lemma format_reads:
  assumes L: "lfs_laws (flash_fs P) V" and "mounted (disk d) \<or> \<not> confirm_typed x"
  shows "reads V d (cmd_format_storage P x argv d)"
proof (cases "mounted (disk d)")
  case True
  then show ?thesis
    by (rule format_refused)
next
  case False
  let ?d = "say ''type CONFIRM to proceed: '' (line ''*** WARNING: this will permanently delete ALL keys ***'' d)"
  obtain c d' where r: "read_confirm P True (confirm_polls x) [] ?d = (c, d')"
    by fastforce
  have "\<not> confirmed c"
    using assms(2) False r fst_read_confirm [of P True "confirm_polls x" "[]" ?d] by (simp add: confirm_typed_def)
  then show ?thesis
    using False r waited_reads [OF waited_confirm [OF L r]] by (simp add: cmd_format_storage_def storage_is_mounted_def)
qed

lemma dispatch_recovery:
  assumes L: "lfs_laws (flash_fs P) V" and m: "\<not> mounted (disk d)"
    and f: "\<not> (argv = [''format-storage''] \<and> confirm_typed x)" and a: "argv \<noteq> []"
  shows "reads V d (commands_dispatch P x argv d)"
proof (cases "argv ! 0 = ''format-storage'' \<or> argv ! 0 = ''help'' \<or> argv ! 0 = ''?''")
  case False
  then show ?thesis
    using m by (simp add: commands_dispatch_def storage_is_mounted_def)
next
  case True
  have format: "reads V d (run_command x (command ''format-storage'' False 0 0 u s) (cmd_format_storage P x) argv d)"
    if "argv ! 0 = ''format-storage''" for u s
  proof (cases "length argv = 1")
    case True
    then have "argv = [''format-storage'']"
      using that by (cases argv) auto
    then show ?thesis
      using f format_reads [OF L] by (intro run_open_reads) auto
  next
    case False
    then have "Suc 0 < length argv"
      using a by (cases argv) auto
    then show ?thesis
      by (simp add: run_open Let_def)
  qed
  have opened: "reads V d (run_command x (command n False lo hi u s) (cmd_help P x) argv d)" for n lo hi u s
    by (rule run_open_reads) (simp_all add: help_reads)
  have "reads V d (dispatch_loop x (zip COMMANDS (HANDLERS P x)) argv d)"
  proof (rule dispatch_loop_rule)
    show "\<forall>(cmd, h) \<in> set (zip COMMANDS (HANDLERS P x)). argv ! 0 = command_name cmd \<longrightarrow>
        reads V d (run_command x cmd h argv d)"
      using True by (elim disjE) (simp_all add: table format opened)
  next
    show "reads V d (ack (line s d))" for s
      by simp
  qed
  then show ?thesis
    using True by (auto simp: commands_dispatch_def)
qed

section \<open>Every command keeps the store sound\<close>

definition sized :: "('fs, 'a) device \<Rightarrow> bool" where
  \<comment> \<open>the paste buffer has the size it is declared with\<close>
  "sized d \<longleftrightarrow> length (import_b64 d) = B64_BUF_LEN"

definition sound_device :: "('fs, 'f, 'c) platform \<Rightarrow> ('fs, 'f) lfs_view \<Rightarrow> ('fs, 'a) device \<Rightarrow> bool" where
  "sound_device P V d \<longleftrightarrow> store_ok (flash_fs P) V (lfs_crc P) (disk d) \<and> sized d"

definition step_ok ::
  "('fs, 'f, 'c) platform \<Rightarrow> ('fs, 'f) lfs_view \<Rightarrow> 'a io \<Rightarrow> ('fs, 'a) device \<Rightarrow> ('fs, 'a) device \<Rightarrow> bool" where
  "step_ok P V x d d' \<longleftrightarrow> store_ok (flash_fs P) V (lfs_crc P) (disk d') \<and> sized d' \<and>
     (clean d \<longrightarrow> \<not> (confirm_typed x \<and> import_too_large x) \<longrightarrow> clean d')"

lemma step_ok_frame [simp]:
  "step_ok P V x d (line s d') = step_ok P V x d d'" "step_ok P V x d (play es d') = step_ok P V x d d'"
  "step_ok P V x d (commands_admin_grant t d') = step_ok P V x d d'"
  "step_ok P V x d (d'\<lparr>admin_mode := b, admin_deadline_us := t\<rparr>) = step_ok P V x d d'"
  by (simp_all add: step_ok_def sized_def)

lemma step_ok_refl: "sound_device P V d \<Longrightarrow> step_ok P V x d d"
  by (simp add: step_ok_def sound_device_def)

lemma run_step_ok:
  assumes "sound_device P V d" and "step_ok P V x d (h argv d)"
  shows "step_ok P V x d (run_command x cmd h argv d)"
  using assms step_ok_refl [OF assms(1), of x]
  by (cases "requires_admin cmd") (simp_all add: run_command_def expired_active Let_def)

lemma changes_step: "sized d \<Longrightarrow> changes P V T d d' \<Longrightarrow> step_ok P V x d d'"
  by (simp add: changes_def step_ok_def same_session_def sized_def)

lemma reads_step: "sound_device P V d \<Longrightarrow> reads V d d' \<Longrightarrow> step_ok P V x d d'"
  by (auto simp: reads_def step_ok_def same_session_def sized_def sound_device_def intro: same_disk_store_ok)

lemma sound_step: "sound_device P V d \<Longrightarrow> sound_after P V d d' \<Longrightarrow> step_ok P V x d d'"
  by (simp add: sound_after_def step_ok_def sized_def sound_device_def)

lemma key_handler_changes:
  assumes ok: "store_ok (flash_fs P) V (lfs_crc P) (disk d)" and g: "drbg_sound (drbg P)" and a: "argv \<noteq> []"
  shows "argv ! 0 = ''add-key'' \<Longrightarrow> changes P V (key_effect P V x argv (disk d)) d (cmd_add_key P x argv d)"
    and "argv ! 0 = ''rename-key'' \<Longrightarrow> changes P V (key_effect P V x argv (disk d)) d (cmd_rename_key P x argv d)"
    and "argv ! 0 = ''enable-key'' \<Longrightarrow> changes P V (key_effect P V x argv (disk d)) d (cmd_enable_key P x argv d)"
    and "argv ! 0 = ''disable-key'' \<Longrightarrow> changes P V (key_effect P V x argv (disk d)) d (cmd_disable_key P x argv d)"
    and "argv ! 0 = ''delete-key'' \<Longrightarrow> changes P V (key_effect P V x argv (disk d)) d (cmd_delete_key P x argv d)"
    and "argv ! 0 = ''set-key-admin'' \<Longrightarrow> changes P V (key_effect P V x argv (disk d)) d (cmd_set_key_admin P x argv d)"
    and "argv ! 0 = ''unset-key-admin'' \<Longrightarrow> changes P V (key_effect P V x argv (disk d)) d (cmd_unset_key_admin P x argv d)"
  using a key_commands_change(2-) [OF ok, of x "tl argv"] add_changes [OF ok g, of x "tl argv"]
  by (cases argv; simp)+

lemma dispatch_step_ok:
  assumes sd: "sound_device P V d" and g: "drbg_sound (drbg P)" and a: "argv \<noteq> []"
  shows "step_ok P V x d (commands_dispatch P x argv d)"
proof -
  have ok: "store_ok (flash_fs P) V (lfs_crc P) (disk d)" and sz: "sized d"
    using sd by (simp_all add: sound_device_def)
  note L = store_okD(1) [OF ok] and m = store_okD(3) [OF ok]
  note run = run_step_ok [OF sd] and rd = reads_step [OF sd]
  have login: "step_ok P V x d (cmd_login P x argv d)"
    using login_frame [OF L, where d = d and x = x and argv = argv] ok sz
    by (auto simp: step_ok_def sized_def intro: same_disk_store_ok)
  have plain: "step_ok P V x d (cmd_logout P x argv d)" "step_ok P V x d (cmd_reboot P x argv d)"
    using ok sz by (simp_all add: step_ok_def sized_def logout_fields reboot_fields)
  have imp: "step_ok P V x d (cmd_import_keys P x argv d)"
    using import_keys_effect(1,3) [OF ok, where x = x and argv = argv] sz
    by (auto simp: step_ok_def sized_def)
  have "step_ok P V x d (dispatch_loop x (zip COMMANDS (HANDLERS P x)) argv d)"
  proof (rule dispatch_loop_rule)
    show "\<forall>(cmd, h) \<in> set (zip COMMANDS (HANDLERS P x)). argv ! 0 = command_name cmd \<longrightarrow>
        step_ok P V x d (run_command x cmd h argv d)"
      by (simp add: table)
        (intro conjI impI run, simp_all add: rd help_reads status_reads [OF L] test_reads login plain get_time_reads
          sound_step [OF sd sync_ntp_frame(2)] sound_step [OF sd set_wifi_effect(1) [OF ok]] list_keys_reads [OF L]
          get_key_reads [OF L] get_key_secret_reads [OF L] changes_step [OF sz key_handler_changes(1) [OF ok g a]]
          changes_step [OF sz key_handler_changes(2) [OF ok g a]] changes_step [OF sz key_handler_changes(3) [OF ok g a]]
          changes_step [OF sz key_handler_changes(4) [OF ok g a]] changes_step [OF sz key_handler_changes(5) [OF ok g a]]
          changes_step [OF sz key_handler_changes(6) [OF ok g a]] changes_step [OF sz key_handler_changes(7) [OF ok g a]]
          export_reads [OF L] imp format_refused [OF m])
  next
    show "step_ok P V x d (ack (line s d))" for s
      using step_ok_refl [OF sd] by simp
  qed
  then show ?thesis
    using m by (simp add: commands_dispatch_def storage_is_mounted_def)
qed

section \<open>With an admin session\<close>

lemma admin_named:
  assumes "c \<in> set COMMANDS" and "command_name c \<in> set admin_names"
  shows "requires_admin c"
proof -
  have "\<forall>c \<in> set COMMANDS. \<not> requires_admin c \<longrightarrow> command_name c \<notin> set admin_names"
    by (simp add: COMMANDS_def admin_names_def)
  then show ?thesis
    using assms by blast
qed

lemma admin_in_table: "n \<in> set admin_names \<Longrightarrow> \<exists>c \<in> set (zip COMMANDS (HANDLERS P x)). n = command_name (fst c)"
proof -
  assume "n \<in> set admin_names"
  then obtain c where "c \<in> set COMMANDS" "n = command_name c"
    unfolding admin_names_def set_map set_filter by blast
  then show ?thesis
    unfolding table_names [of P x, symmetric] by blast
qed

definition after_admin :: "'a io \<Rightarrow> ('fs, 'a) device \<Rightarrow> ('fs, 'a) device" where
  "after_admin x d = (if \<not> halted d \<and> admin_mode d then commands_admin_grant (t_refresh x) d else d)"

lemma run_admin:
  assumes "active x d" and "int (length argv) - 1 = lo"
  shows "run_command x (command n True lo lo u s) h argv d = after_admin x (h argv d)"
  using assms by (simp add: run_active after_admin_def Let_def)

lemma after_admin_fields [simp]:
  "disk (after_admin x d) = disk d" "clean (after_admin x d) = clean d" "halted (after_admin x d) = halted d"
  by (simp_all add: after_admin_def)

definition key_command_names :: "string list" where
  "key_command_names = [''add-key'', ''rename-key'', ''enable-key'', ''disable-key'', ''delete-key'',
     ''set-key-admin'', ''unset-key-admin'']"

definition key_arity :: "string \<Rightarrow> nat" where
  "key_arity n = (if n = ''add-key'' \<or> n = ''rename-key'' then 2 else 1)"

lemma dispatch_key_command:
  assumes sd: "store_ok (flash_fs P) V (lfs_crc P) (disk d)" and g: "drbg_sound (drbg P)" and a: "active x d"
    and n: "argv ! 0 \<in> set key_command_names" and l: "length argv = Suc (key_arity (argv ! 0))"
  shows "\<exists>e. commands_dispatch P x argv d = after_admin x e \<and> changes P V (key_effect P V x argv (disk d)) d e"
proof -
  have ne: "argv \<noteq> []" and m: "mounted (disk d)"
    using l store_okD(3) [OF sd] by auto
  note k = key_handler_changes [OF sd g ne, of x]
  have len: "int (length argv) - 1 = int (key_arity (argv ! 0))"
    using l by simp
  let ?Q = "\<lambda>d'. \<exists>e. d' = after_admin x e \<and> changes P V (key_effect P V x argv (disk d)) d e"
  have r: "?Q (run_command x (command n True lo lo u s) h argv d)"
    if "changes P V (key_effect P V x argv (disk d)) d (h argv d)" and "int (key_arity (argv ! 0)) = lo" for n lo u s h
    using that run_admin [OF a, of argv lo] len by auto
  have others: "argv ! 0 \<notin> set
     [''help'', ''?'', ''status'', ''test'', ''login'', ''logout'', ''reboot'', ''get-time'',
      ''sync-ntp'', ''set-wifi'', ''list-keys'', ''get-key'', ''get-key-secret'',
      ''export-keys'', ''import-keys'', ''format-storage'']"
    using n by (auto simp: key_command_names_def)
  have "?Q (dispatch_loop x (zip COMMANDS (HANDLERS P x)) argv d)"
  proof (rule dispatch_loop_hit)
    show "\<exists>c \<in> set (zip COMMANDS (HANDLERS P x)). argv ! 0 = command_name (fst c)"
      by (rule admin_in_table) (use n in \<open>auto simp: key_command_names_def admin_names_def COMMANDS_def\<close>)
    show "\<forall>(cmd, h) \<in> set (zip COMMANDS (HANDLERS P x)). argv ! 0 = command_name cmd \<longrightarrow>
        ?Q (run_command x cmd h argv d)"
      using others by (simp add: table r k key_arity_def)
  qed
  then show ?thesis
    using m by (simp add: commands_dispatch_def storage_is_mounted_def)
qed

lemma admin_refused:
  assumes "argv ! 0 \<in> set admin_names" and "\<not> active x d" and "mounted (disk d)"
  shows "\<exists>s. commands_dispatch P x argv d =
    ack (line s (if admin_mode d then d\<lparr>admin_mode := False, admin_deadline_us := 0\<rparr> else d))"
proof -
  let ?Q = "\<lambda>d'. \<exists>s. d' = ack (line s (if admin_mode d then d\<lparr>admin_mode := False, admin_deadline_us := 0\<rparr> else d))"
  have "?Q (dispatch_loop x (zip COMMANDS (HANDLERS P x)) argv d)"
  proof (rule dispatch_loop_hit [OF _ admin_in_table [OF assms(1)]], clarify)
    fix cmd h
    assume c: "(cmd, h) \<in> set (zip COMMANDS (HANDLERS P x))" "argv ! 0 = command_name cmd"
    then have "requires_admin cmd"
      using assms(1) by (intro admin_named [OF table_commands]) auto
    then show "?Q (run_command x cmd h argv d)"
      by (rule run_inactive [OF _ assms(2)])
  qed
  then show ?thesis
    using assms(3) by (simp add: commands_dispatch_def storage_is_mounted_def)
qed

definition armed :: "'a io \<Rightarrow> ('fs, 'a) device \<Rightarrow> ('fs, 'a) device \<Rightarrow> bool" where
  \<comment> \<open>a session after a command is the one before it, or runs from a reading of this command\<close>
  "armed x d d' \<longleftrightarrow> (admin_mode d' \<longrightarrow> halted d' \<or>
     admin_mode d \<and> admin_deadline_us d' = admin_deadline_us d \<or>
     admin_deadline_us d' = t_refresh x + ADMIN_IDLE_TIMEOUT_US \<or>
     admin_deadline_us d' = t_grant x + ADMIN_IDLE_TIMEOUT_US)"

lemma dispatch_armed:
  assumes L: "lfs_laws (flash_fs P) V" and m: "mounted (disk d)"
  shows "armed x d (commands_dispatch P x argv d)"
proof (cases "active x d \<and> argv ! 0 \<in> set admin_names")
  case False
  then have "harmless P V x argv d (commands_dispatch P x argv d)"
    by (intro dispatch_harmless [OF L m]) blast
  then show ?thesis
    using login_frame(7) [OF L, where d = d and x = x and argv = argv] by (auto simp: harmless_def armed_def)
next
  case True
  then have act: "active x d" and adm: "admin_mode d"
    by (auto simp: active_def)
  have "armed x d (dispatch_loop x (zip COMMANDS (HANDLERS P x)) argv d)"
  proof (rule dispatch_loop_hit [OF _ admin_in_table [OF True [THEN conjunct2]]], clarify)
    fix cmd h
    assume c: "(cmd, h) \<in> set (zip COMMANDS (HANDLERS P x))" "argv ! 0 = command_name cmd"
    then have "requires_admin cmd"
      using True by (intro admin_named [OF table_commands]) auto
    then show "armed x d (run_command x cmd h argv d)"
      using adm by (simp add: run_active [OF _ act] armed_def Let_def)
  qed
  then show ?thesis
    using m by (simp add: commands_dispatch_def storage_is_mounted_def)
qed

section \<open>Properties\<close>

text \<open>Without an admin session the dispatcher honours, no command line whatever, valid or
  not, changes anything stored on a mounted device: keys and WiFi credentials stay as they
  are, the device does not reboot, and the only way to an admin session is a login that
  one of the four grounds allows.\<close>

theorem no_session_no_change:
  assumes "store_ok (flash_fs P) V (lfs_crc P) (disk d)" and "\<not> active x d"
  shows "key_map V (lfs_crc P) (disk (commands_dispatch P x argv d)) = key_map V (lfs_crc P) (disk d)
    \<and> files V (lfs (disk (commands_dispatch P x argv d))) = files V (lfs (disk d))
    \<and> halted (commands_dispatch P x argv d) = halted d
    \<and> (admin_mode (commands_dispatch P x argv d) \<longrightarrow> admin_mode d \<or>
         argv ! 0 = ''login'' \<and> login_allowed P V x argv (disk d))"
proof -
  note s = store_okD [OF assms(1)]
  have h: "harmless P V x argv d (commands_dispatch P x argv d)"
    by (rule dispatch_harmless [OF s(1,3)]) (use assms(2) in blast)
  then have "same_disk V (disk d) (disk (commands_dispatch P x argv d))"
    by (simp add: harmless_def)
  then show ?thesis
    using h login_outcome(1) [OF assms(1), of x argv] same_disk_key_map
    by (auto simp: harmless_def same_disk_def same_volume_def)
qed

text \<open>C16: the idle timeout, on a mounted volume: a command that needs a session is refused, and the session ended,
  once its deadline has passed (or when there is none), leaving storage untouched; and
  after every command a session that is open runs five minutes from a reading taken during
  that command, or has the deadline it had.\<close>

theorem session_expires:
  assumes "lfs_laws (flash_fs P) V" and "mounted (disk d)"
  shows "(argv ! 0 \<in> set admin_names \<and> \<not> (admin_mode d \<and> (admin_deadline_us d = 0 \<or> t_gate x < admin_deadline_us d)) \<longrightarrow>
        \<not> admin_mode (commands_dispatch P x argv d) \<and> disk (commands_dispatch P x argv d) = disk d)
    \<and> (admin_mode (commands_dispatch P x argv d) \<longrightarrow>
        halted (commands_dispatch P x argv d)
        \<or> admin_mode d \<and> admin_deadline_us (commands_dispatch P x argv d) = admin_deadline_us d
        \<or> admin_deadline_us (commands_dispatch P x argv d) = t_refresh x + 300000000
        \<or> admin_deadline_us (commands_dispatch P x argv d) = t_grant x + 300000000)"
proof -
  have "\<not> admin_mode (commands_dispatch P x argv d) \<and> disk (commands_dispatch P x argv d) = disk d"
    if "argv ! 0 \<in> set admin_names" and "\<not> active x d"
    using admin_refused [OF that assms(2), of P] by (auto split: if_splits)
  then show ?thesis
    using dispatch_armed [OF assms, of x argv]
    unfolding armed_def active_def ADMIN_IDLE_TIMEOUT_US_def by auto
qed

text \<open>C7: within a session, a key command with the right number of arguments refines its
  abstract effect on the table of keys: it adds a fresh enabled record under an unused
  identifier, renames, enables, disables, deletes, or changes the admin flag of exactly the
  named record; an identifier out of range, a name too long, a missing record or a flag
  already set change nothing; a failed write, or a failed close after it, leaves the table as it
  was; and WiFi credentials are never touched. The volume is mounted, and finding, reading and
  removing its files does not fail.\<close>

theorem key_commands_refine:
  assumes "store_ok (flash_fs P) V (lfs_crc P) (disk d)" and "drbg_sound (drbg P)" and "active x d"
    and "argv ! 0 \<in> set key_command_names" and "length argv = Suc (key_arity (argv ! 0))"
  shows "key_map V (lfs_crc P) (disk (commands_dispatch P x argv d))
      \<in> {key_effect P V x argv (disk d), key_map V (lfs_crc P) (disk d)}
    \<and> (saves P \<longrightarrow>
        key_map V (lfs_crc P) (disk (commands_dispatch P x argv d)) = key_effect P V x argv (disk d))
    \<and> store_ok (flash_fs P) V (lfs_crc P) (disk (commands_dispatch P x argv d))
    \<and> files V (lfs (disk (commands_dispatch P x argv d))) FILE_WIFI = files V (lfs (disk d)) FILE_WIFI"
  using dispatch_key_command [OF assms] by (auto simp: changes_def)

text \<open>C36: a record whose checksum fails, which the door and login refuse, is made valid again,
  secret and flags as the damaged bytes have them, by merely renaming it in a session (on a
  mounted volume whose flash does not fail): the commands that edit a record save it with a
  fresh checksum without looking at the old one.\<close>

theorem rename_launders_corrupt_record:
  assumes "store_ok (flash_fs P) V (lfs_crc P) (disk d)" and "drbg_sound (drbg P)" and "active x d" and "saves P"
    and "key_map V (lfs_crc P) (disk d) (arg_id [''rename-key'', a, n]) = Some k" and "\<not> is_checksum_valid k"
    and "arg_id [''rename-key'', a, n] \<le> KEY_ID_MAX" and "length n < 16"
  shows "\<exists>k'. key_map V (lfs_crc P) (disk (commands_dispatch P x [''rename-key'', a, n] d))
        (arg_id [''rename-key'', a, n]) = Some k'
    \<and> is_checksum_valid k' \<and> secret k' = secret k \<and> is_admin k' = is_admin k \<and> is_enabled k' = is_enabled k"
proof -
  obtain e where e: "commands_dispatch P x [''rename-key'', a, n] d = after_admin x e"
    "changes P V (key_effect P V x [''rename-key'', a, n] (disk d)) d e"
    using dispatch_key_command [OF assms(1-3), of "[''rename-key'', a, n]"]
    by (auto simp: key_command_names_def key_arity_def)
  have "key_effect P V x [''rename-key'', a, n] (disk d) (arg_id [''rename-key'', a, n]) = Some (norm_key (renamed n k))"
    using assms(5,7,8) by (simp add: key_effect_def edited_def name_too_long_def KEY_NAME_MAX_def not_less [symmetric])
  then show ?thesis
    using e assms(4) by (simp add: changes_def) (simp add: norm_key_def renamed_def)
qed

section \<open>Evaluations\<close>

lemma demo_sound: "sound_device demo_platform ram_view demo_device"
  using clean_import_buf [OF demo_clean] by (simp add: sound_device_def sized_def demo_store_ok)

lemma demo_drbg: "drbg_sound (drbg demo_platform)"
  by (simp add: len_drbg_sound)

definition admin_device :: "(ram, nat) device" where
  \<comment> \<open>logged in a moment before the readings of \<open>demo_io\<close>\<close>
  "admin_device = commands_admin_grant 600000000 demo_device"

lemma admin_device_active: "active demo_io admin_device" "admin_mode admin_device" "disk admin_device = demo_store"
  by (simp_all add: active_def admin_device_def commands_admin_grant_def ADMIN_IDLE_TIMEOUT_US_def demo_io_def)

lemma demo_arg: "arg_id [u, ''5''] = 5" "arg_id [u, ''5'', v] = 5"
  by (simp_all add: arg_id_def strtoul10_def is_space_def is_digit_def dec_val_def char_val_def)

theorem no_session_no_change_witness:
  "key_map ram_view sum_crc (disk (commands_dispatch demo_platform demo_io [''delete-key'', ''5''] demo_device))
     = [5 \<mapsto> norm_key (door_key 5 True)]
   \<and> \<not> admin_mode (commands_dispatch demo_platform demo_io [''delete-key'', ''5''] demo_device)"
proof -
  have "\<not> active demo_io demo_device"
    by (simp add: active_def)
  then show ?thesis
    using no_session_no_change [of demo_platform ram_view demo_device demo_io "[''delete-key'', ''5'']"]
    by (simp add: demo_store_ok demo_key_map)
qed

theorem session_expires_witness:
  "\<not> admin_mode (commands_dispatch demo_platform (demo_io\<lparr>t_gate := 900000000\<rparr>) [''list-keys''] admin_device)"
proof -
  have "lfs_laws (flash_fs demo_platform) ram_view" "mounted (disk admin_device)"
    by (simp_all add: ram_laws admin_device_active)
  moreover have "''list-keys'' \<in> set admin_names"
    by (simp add: admin_names_def COMMANDS_def)
  moreover have "\<not> (admin_deadline_us admin_device = 0 \<or> (900000000 :: u64) < admin_deadline_us admin_device)"
    by (simp add: admin_device_def commands_admin_grant_def ADMIN_IDLE_TIMEOUT_US_def)
  ultimately show ?thesis
    using session_expires [of demo_platform ram_view admin_device "[''list-keys'']" "demo_io\<lparr>t_gate := 900000000\<rparr>"]
    by simp
qed

theorem key_commands_refine_witness:
  "key_map ram_view sum_crc (disk (commands_dispatch demo_platform demo_io [''disable-key'', ''5''] admin_device))
     = [5 \<mapsto> (norm_key (door_key 5 True))\<lparr>is_enabled := False\<rparr>]"
proof -
  have "key_effect demo_platform ram_view demo_io [''disable-key'', ''5''] demo_store
      = [5 \<mapsto> (norm_key (door_key 5 True))\<lparr>is_enabled := False\<rparr>]"
    by (simp add: key_effect_def demo_arg KEY_ID_MAX_def demo_key_map edited_def)
      (simp add: norm_key_def door_key_def KEY_NAME_MAX_def)
  then show ?thesis
    using key_commands_refine [of demo_platform ram_view admin_device demo_io "[''disable-key'', ''5'']"]
    by (simp add: admin_device_active demo_store_ok demo_drbg demo_saves key_command_names_def key_arity_def
        len_drbg_sound)
qed

definition damaged_device :: "(ram, nat) device" where
  \<comment> \<open>an administrator, and key 5 with a wrong checksum\<close>
  "damaged_device = admin_device\<lparr>disk := demo_store\<lparr>lfs := \<lparr>ram_files = [(key_path 5, stored_image
     ((to_stored sum_crc (door_key 5 True))\<lparr>s_checksum := key_checksum sum_crc (to_stored sum_crc (door_key 5 True)) + 1\<rparr>))],
     ram_dirs = [DIR_KEYS]\<rparr>\<rparr>\<rparr>"

lemma damaged_key_map:
  "key_map ram_view sum_crc (disk damaged_device) = [5 \<mapsto> (norm_key (door_key 5 True))\<lparr>is_checksum_valid := False\<rparr>]"
proof (rule ext)
  let ?s = "(to_stored sum_crc (door_key 5 True))\<lparr>s_checksum := key_checksum sum_crc (to_stored sum_crc (door_key 5 True)) + 1\<rparr>"
  have ok: "stored_ok ?s"
    using stored_ok_to_stored [OF wf_door_key, of sum_crc 5 True] by (simp add: stored_ok_def)
  have "decode_key sum_crc (stored_image ?s) = Some (to_record sum_crc ?s)"
    using stored.dec_enc [OF ok] length_stored_image [OF ok] by (simp add: decode_key_def)
  moreover have "to_record sum_crc ?s = (norm_key (door_key 5 True))\<lparr>is_checksum_valid := False\<rparr>"
    by (simp add: to_record_def key_checksum_update) (simp add: to_stored_def norm_key_def Let_def bool_byte_def)
  ultimately show "key_map ram_view sum_crc (disk damaged_device) i
      = [5 \<mapsto> (norm_key (door_key 5 True))\<lparr>is_checksum_valid := False\<rparr>] i" for i
    by (auto simp: key_map_def damaged_device_def demo_store_def ram_view_def)
qed

lemma damaged_store_ok: "store_ok ram_api ram_view sum_crc (disk damaged_device)"
proof -
  have "names_ok ram_view (disk damaged_device)"
    by (auto simp: names_ok_def damaged_device_def demo_store_def ram_view_def KEY_ID_MAX_def split: if_splits)
      (auto simp: FILE_WIFI_def DIR_KEYS_def key_path_def)
  then show ?thesis
    by (simp add: store_ok_def ram_laws ram_reliable damaged_key_map) (simp add: damaged_device_def)
qed

theorem rename_launders_corrupt_record_witness:
  "\<exists>k'. key_map ram_view sum_crc
       (disk (commands_dispatch demo_platform demo_io [''rename-key'', ''5'', ''front''] damaged_device)) 5 = Some k'
   \<and> is_checksum_valid k' \<and> is_admin k'"
proof -
  have "active demo_io damaged_device"
    using admin_device_active(1) by (simp add: damaged_device_def active_def)
  then show ?thesis
    using rename_launders_corrupt_record [of demo_platform ram_view damaged_device demo_io "''5''" "''front''"]
    by (simp add: damaged_store_ok damaged_key_map demo_arg demo_saves len_drbg_sound KEY_ID_MAX_def) blast
qed

end
