(* ===== verification/Console.thy ===== *)
theory Console imports Commands
begin

text \<open>
  \<open>serial/console.c\<close>: the line editor and the tokenizer of the serial console. The static
  variables are the record \<open>console\<close>; pointers into the line are indices of its buffer, and the
  separators are overwritten with terminators in place, as the code does. One call of
  \<open>console_task\<close> is given what it reads: whether USB is connected, the character, and the
  surroundings of a command should the character end a line.
\<close>

section \<open>Cutting a line into arguments\<close>

definition INPUT_BUF_SIZE :: nat where
  "INPUT_BUF_SIZE = 256"

definition MAX_ARGS :: nat where
  "MAX_ARGS = 8"

definition char_at :: "string \<Rightarrow> nat \<Rightarrow> char" where
  \<comment> \<open>\<open>*p\<close>; no read is past the buffer, see \<open>split_args_in_buffer\<close>\<close>
  "char_at buf p = (if p < length buf then buf ! p else NUL)"

function skip_spaces :: "string \<Rightarrow> nat \<Rightarrow> nat" where
  "skip_spaces buf p = (if char_at buf p = CHR '' '' then skip_spaces buf (Suc p) else p)"
  by pat_completeness auto
termination
  by (relation "measure (\<lambda>(buf, p). length buf - p)") (auto simp: char_at_def split: if_splits)

function skip_word :: "string \<Rightarrow> nat \<Rightarrow> nat" where
  "skip_word buf p =
     (if char_at buf p \<noteq> NUL \<and> char_at buf p \<noteq> CHR '' '' then skip_word buf (Suc p) else p)"
  by pat_completeness auto
termination
  by (relation "measure (\<lambda>(buf, p). length buf - p)") (auto simp: char_at_def split: if_splits)

declare skip_spaces.simps [simp del] skip_word.simps [simp del]

function split_args :: "string \<Rightarrow> nat \<Rightarrow> nat list \<Rightarrow> string \<times> nat list" where
  \<comment> \<open>the loop of \<open>process_line\<close>: the buffer, \<open>p\<close>, and \<open>argv\<close> as positions\<close>
  "split_args buf p argv =
     (if char_at buf p \<noteq> NUL \<and> length argv < MAX_ARGS
      then let p = skip_spaces buf p in
           if char_at buf p = NUL then (buf, argv)
           else let argv = argv @ [p]; p = skip_word buf p in
                if char_at buf p \<noteq> NUL then split_args (buf[p := NUL]) (Suc p) argv
                else split_args buf p argv
      else (buf, argv))"
  by pat_completeness auto
termination
  by (relation "measure (\<lambda>(buf, p, argv). MAX_ARGS - length argv)") auto

declare split_args.simps [simp del]

section \<open>The line editor\<close>

record console =
  line_buf :: string  \<comment> \<open>\<open>input_buf\<close>\<close>
  line_len :: nat  \<comment> \<open>\<open>input_len\<close>\<close>
  was_connected :: bool

definition console_boot :: console where
  "console_boot = \<lparr>line_buf = replicate INPUT_BUF_SIZE NUL, line_len = 0, was_connected = False\<rparr>"

definition print_prompt :: "('fs, 'a) device \<Rightarrow> ('fs, 'a) device" where
  "print_prompt d = say (if commands_is_admin d then ''hslock [admin]> '' else ''hslock> '') d"

definition process_line ::
  "('fs, 'f, 'c) platform \<Rightarrow> 'a io \<Rightarrow> console \<times> ('fs, 'a) device \<Rightarrow> console \<times> ('fs, 'a) device" where
  "process_line P x e =
     (let (con, d) = e; (buf, argv) = split_args (line_buf con) 0 []; con = con\<lparr>line_buf := buf\<rparr>
      in if argv = [] then (con, d)
         else (con, commands_dispatch P x (map (\<lambda>p. cstr (drop p buf)) argv) d))"

record 'a tick =
  usb :: bool  \<comment> \<open>\<open>stdio_usb_connected\<close>, or true on a build with the UART\<close>
  typed :: "char option"
  command_io :: "'a io"

definition banner :: "('fs, 'a) device \<Rightarrow> ('fs, 'a) device" where
  "banner d = lines_out
     [[], ''============================='', ''  hslock serial console'',
      ''  type '' @ quoted ''help'' @ '' for commands'', ''============================='']
     d"

definition key_typed ::
  "('fs, 'f, 'c) platform \<Rightarrow> 'a io \<Rightarrow> char \<Rightarrow> console \<times> ('fs, 'a) device \<Rightarrow> console \<times> ('fs, 'a) device" where
  \<comment> \<open>what follows \<open>getchar_timeout_us\<close>; a command that waits for a reset does not come back\<close>
  "key_typed P x c e =
     (let (con, d) = e in
      if c = CHR 0x0D \<or> c = CHR 0x0A
      then let d = say CRLF d in
           if 0 < line_len con
           then let (con, d) = process_line P x (con\<lparr>line_buf := (line_buf con)[line_len con := NUL]\<rparr>, d)
                in if halted d then (con, d) else (con\<lparr>line_len := 0\<rparr>, print_prompt d)
           else (con, print_prompt d)
      else if (c = CHR 0x7F \<or> c = CHR 0x08) \<and> 0 < line_len con
      then (con\<lparr>line_len := line_len con - 1\<rparr>, say [CHR 0x08, CHR '' '', CHR 0x08] d)
      else if 32 \<le> (of_char c :: nat) \<and> line_len con < INPUT_BUF_SIZE - 1
      then (con\<lparr>line_buf := (line_buf con)[line_len con := c], line_len := Suc (line_len con)\<rparr>, say [c] d)
      else (con, d))"

definition console_task ::
  "('fs, 'f, 'c) platform \<Rightarrow> 'a tick \<Rightarrow> console \<times> ('fs, 'a) device \<Rightarrow> console \<times> ('fs, 'a) device" where
  "console_task P t e =
     (let (con, d) = e;
          (con, d) = (if usb t \<and> \<not> was_connected con
                      then (con\<lparr>was_connected := True\<rparr>, print_prompt (banner d)) else (con, d))
      in if \<not> usb t \<and> was_connected con
         then (con\<lparr>line_len := 0, was_connected := False\<rparr>, commands_on_disconnect d)
         else if \<not> usb t then (con, d)
         else case typed t of
           None \<Rightarrow> (con, d)
         | Some c \<Rightarrow> key_typed P (command_io t) c (con, d))"

section \<open>Words\<close>

fun split_on_spaces :: "string \<Rightarrow> string list" where
  "split_on_spaces [] = [[]]"
| "split_on_spaces (c # s) =
     (if c = CHR '' '' then [] # split_on_spaces s
      else (c # hd (split_on_spaces s)) # tl (split_on_spaces s))"

definition words :: "string \<Rightarrow> string list" where
  "words s = filter (\<lambda>w. w \<noteq> []) (split_on_spaces s)"

lemma split_on_word:
  "CHR '' '' \<notin> set w \<Longrightarrow> split_on_spaces (w @ CHR '' '' # t) = w # split_on_spaces t"
  "CHR '' '' \<notin> set w \<Longrightarrow> split_on_spaces w = [w]"
  by (induction w) auto

lemma words_Nil [simp]: "words [] = []"
  by (simp add: words_def)

lemma words_space [simp]: "words (CHR '' '' # s) = words s"
  by (simp add: words_def)

lemma words_word:
  "CHR '' '' \<notin> set w \<Longrightarrow> w \<noteq> [] \<Longrightarrow> words (w @ CHR '' '' # t) = w # words t"
  "CHR '' '' \<notin> set w \<Longrightarrow> w \<noteq> [] \<Longrightarrow> words w = [w]"
  by (simp_all add: words_def split_on_word)

lemma words_spaces [simp]: "words (replicate n (CHR '' '') @ s) = words s"
  by (induction n) simp_all

section \<open>The tokenizer finds the words\<close>

lemma char_at_append [simp]:
  "char_at (pre @ c # t) (length pre) = c"
  by (simp add: char_at_def)

lemma skip_spaces_unfold:
  "char_at buf p = CHR '' '' \<Longrightarrow> skip_spaces buf p = skip_spaces buf (Suc p)"
  "char_at buf p \<noteq> CHR '' '' \<Longrightarrow> skip_spaces buf p = p"
  by (subst skip_spaces.simps, simp)+

lemma skip_word_unfold:
  "char_at buf p \<noteq> NUL \<Longrightarrow> char_at buf p \<noteq> CHR '' '' \<Longrightarrow> skip_word buf p = skip_word buf (Suc p)"
  "char_at buf p \<in> {NUL, CHR '' ''} \<Longrightarrow> skip_word buf p = p"
  by (subst skip_word.simps, auto)+

lemma skip_spaces_run:
  assumes "c \<noteq> CHR '' ''"
  shows "skip_spaces (pre @ replicate n (CHR '' '') @ c # t) (length pre) = length pre + n"
proof (induction n arbitrary: pre)
  case 0
  then show ?case
    using assms by (simp add: skip_spaces_unfold(2))
next
  case (Suc n)
  then show ?case
    using Suc [of "pre @ [CHR '' '']"] by (simp add: skip_spaces_unfold(1))
qed

lemma skip_word_run:
  assumes "CHR '' '' \<notin> set w" and "NUL \<notin> set w" and "c \<in> {NUL, CHR '' ''}"
  shows "skip_word (pre @ w @ c # t) (length pre) = length pre + length w"
  using assms(1,2)
proof (induction w arbitrary: pre)
  case Nil
  then show ?case
    using assms(3) by (simp add: skip_word_unfold(2))
next
  case (Cons x w)
  then show ?case
    using Cons.IH [of "pre @ [x]"] by (auto simp: skip_word_unfold(1))
qed

lemma line_cases:
  "(\<exists>n. s = replicate n (CHR '' '')) \<or>
   (\<exists>n w. s = replicate n (CHR '' '') @ w \<and> w \<noteq> [] \<and> CHR '' '' \<notin> set w) \<or>
   (\<exists>n w t. s = replicate n (CHR '' '') @ w @ CHR '' '' # t \<and> w \<noteq> [] \<and> CHR '' '' \<notin> set w)"
proof (induction s)
  case (Cons c s)
  show ?case
  proof (cases "c = CHR '' ''")
    case True
    then show ?thesis
      using Cons by (metis append_Cons replicate_Suc)
  next
    case False
    show ?thesis
    proof (cases "CHR '' '' \<in> set s")
      case True
      then obtain w t where "s = w @ CHR '' '' # t" "CHR '' '' \<notin> set w"
        by (meson split_list_first)
      then have "c # s = replicate 0 (CHR '' '') @ (c # w) @ CHR '' '' # t \<and> c # w \<noteq> [] \<and> CHR '' '' \<notin> set (c # w)"
        using False by simp
      then show ?thesis
        by blast
    next
      case nosp: False
      then have "c # s = replicate 0 (CHR '' '') @ (c # s) \<and> c # s \<noteq> [] \<and> CHR '' '' \<notin> set (c # s)"
        using False by simp
      then show ?thesis
        by blast
    qed
  qed
qed simp

definition args_at :: "string \<Rightarrow> nat list \<Rightarrow> string list" where
  "args_at buf ps = map (\<lambda>p. cstr (drop p buf)) ps"

lemma split_args_word:
  assumes "NUL \<notin> set w" and "CHR '' '' \<notin> set w" and "w \<noteq> []" and "c \<in> {NUL, CHR '' ''}"
    and "length argv < MAX_ARGS"
  shows "split_args (pre @ replicate n (CHR '' '') @ w @ c # t) (length pre) argv =
    (if c = NUL
     then (pre @ replicate n (CHR '' '') @ w @ c # t, argv @ [length pre + n])
     else split_args (pre @ replicate n (CHR '' '') @ w @ NUL # t) (Suc (length pre + n + length w))
            (argv @ [length pre + n]))"
proof -
  let ?sp = "replicate n (CHR '' '')"
  let ?b = "pre @ ?sp @ w @ c # t"
  let ?p = "length pre + n" and ?q = "length pre + n + length w"
  obtain x v where w: "w = x # v" "x \<noteq> NUL" "x \<noteq> CHR '' ''"
    using assms(1-3) by (cases w) auto
  have first: "char_at ?b (length pre) \<noteq> NUL"
    using w by (cases n) simp_all
  have sk: "skip_spaces ?b (length pre) = ?p"
    using skip_spaces_run [OF w(3), of pre n "v @ c # t"] by (simp add: w(1))
  have cp: "char_at ?b ?p \<noteq> NUL"
    using char_at_append [of "pre @ ?sp" x "v @ c # t"] w by simp
  have sw: "skip_word ?b ?p = ?q"
    using skip_word_run [OF assms(2,1,4), of "pre @ ?sp" t] by simp
  have cq: "char_at ?b ?q = c"
    using char_at_append [of "pre @ ?sp @ w" c t] by (simp add: add.assoc)
  have up: "?b[?q := NUL] = pre @ ?sp @ w @ NUL # t"
    using list_update_append [of "pre @ ?sp @ w" "c # t" ?q NUL] by simp
  have stop: "c = NUL \<Longrightarrow> split_args ?b ?q (argv @ [?p]) = (?b, argv @ [?p])"
    using cq by (subst split_args.simps) simp
  show ?thesis
    using first assms(5) cp cq stop by (subst split_args.simps) (simp only: sk sw up Let_def, simp)
qed

lemma split_args_blank:
  assumes "s = replicate n (CHR '' '')" and "s \<noteq> []"
  shows "split_args (pre @ s @ NUL # rest) (length pre) argv = (pre @ s @ NUL # rest, argv)"
proof -
  let ?b = "pre @ s @ NUL # rest"
  have "char_at ?b (length pre) \<noteq> NUL"
    using assms by (cases n) simp_all
  moreover have "skip_spaces ?b (length pre) = length pre + n"
    using skip_spaces_run [of NUL pre n rest] by (simp add: assms(1))
  moreover have "char_at ?b (length pre + n) = NUL"
    using char_at_append [of "pre @ s" NUL rest] by (simp add: assms(1))
  ultimately show ?thesis
    by (subst split_args.simps) (simp add: Let_def)
qed

lemma split_args_words:
  assumes "NUL \<notin> set s" and "length argv \<le> MAX_ARGS"
  shows "\<exists>buf ps. split_args (pre @ s @ NUL # rest) (length pre) argv = (buf, argv @ ps)
    \<and> length buf = length (pre @ s @ NUL # rest) \<and> take (length pre) buf = pre
    \<and> args_at buf ps = take (MAX_ARGS - length argv) (words s)"
  using assms
proof (induction "length s" arbitrary: s pre argv rule: less_induct)
  case less
  let ?b = "pre @ s @ NUL # rest"
  show ?case
  proof (cases "s = [] \<or> length argv = MAX_ARGS")
    case True
    then have "split_args ?b (length pre) argv = (?b, argv)"
      by (subst split_args.simps) auto
    then show ?thesis
      using True by (auto simp: args_at_def intro!: exI [of _ ?b] exI [of _ "[]"])
  next
    case False
    then have ne: "s \<noteq> []" and room: "length argv < MAX_ARGS"
      using less.prems(2) by auto
    consider (blank) n where "s = replicate n (CHR '' '')"
      | (last) n w where "s = replicate n (CHR '' '') @ w" "w \<noteq> []" "CHR '' '' \<notin> set w"
      | (more) n w t where "s = replicate n (CHR '' '') @ w @ CHR '' '' # t" "w \<noteq> []" "CHR '' '' \<notin> set w"
      using line_cases [of s] by blast
    then show ?thesis
    proof cases
      case blank
      then have "split_args ?b (length pre) argv = (?b, argv)"
        by (rule split_args_blank [OF _ ne])
      then show ?thesis
        using words_spaces [of n "[]"] blank by (auto simp: args_at_def blank intro!: exI [of _ ?b] exI [of _ "[]"])
    next
      case last
      have "split_args ?b (length pre) argv = (?b, argv @ [length pre + n])"
        using split_args_word [OF _ last(3,2) _ room, of NUL pre n rest] less.prems(1) by (simp add: last(1))
      moreover have "cstr (drop (length pre + n) ?b) = w"
        using less.prems(1) by (simp add: last(1) cstr_append_NUL)
      ultimately show ?thesis
        using room last(2,3)
        by (auto simp: args_at_def last(1) words_word take_Cons' intro!: exI [of _ ?b] exI [of _ "[length pre + n]"])
    next
      case more
      let ?pre = "pre @ replicate n (CHR '' '') @ w @ [NUL]" and ?argv = "argv @ [length pre + n]"
      have eq: "split_args ?b (length pre) argv = split_args (?pre @ t @ NUL # rest) (length ?pre) ?argv"
        using split_args_word [OF _ more(3,2) _ room, of "CHR '' ''" pre n "t @ NUL # rest"] less.prems(1)
        by (simp add: more(1) add.assoc)
      obtain buf ps where r: "split_args (?pre @ t @ NUL # rest) (length ?pre) ?argv = (buf, ?argv @ ps)"
        "length buf = length (?pre @ t @ NUL # rest)" "take (length ?pre) buf = ?pre"
        "args_at buf ps = take (MAX_ARGS - length ?argv) (words t)"
        using less.hyps [of t ?argv ?pre] less.prems(1) room by (auto simp: more(1))
      have buf: "buf = ?pre @ drop (length ?pre) buf"
        using append_take_drop_id [of "length ?pre" buf] unfolding r(3) by (rule sym)
      then have "drop (length pre + n) buf = w @ NUL # drop (length ?pre) buf"
        by (metis append.assoc append_Cons append_Nil append_eq_conv_conj length_append length_replicate)
      then have "cstr (drop (length pre + n) buf) = w"
        using less.prems(1) by (simp add: more(1) cstr_append_NUL)
      then have "args_at buf ((length pre + n) # ps) = take (MAX_ARGS - length argv) (words s)"
        using r(4) room more(2,3) by (simp add: args_at_def more(1) words_word take_Cons')
      moreover have "take (length pre) buf = pre"
        using arg_cong [OF r(3), of "take (length pre)"] by simp
      ultimately show ?thesis
        using r(1,2) eq by (intro exI [of _ buf] exI [of _ "(length pre + n) # ps"]) (simp add: more(1))
    qed
  qed
qed

section \<open>The editor\<close>

definition entered :: "console \<Rightarrow> string" where
  "entered con = take (line_len con) (line_buf con)"

definition printable :: "char \<Rightarrow> bool" where
  "printable c \<longleftrightarrow> 32 \<le> (of_char c :: nat)"

definition console_ok :: "console \<Rightarrow> bool" where
  "console_ok con \<longleftrightarrow> length (line_buf con) = INPUT_BUF_SIZE \<and> line_len con < INPUT_BUF_SIZE \<and>
     (\<forall>c \<in> set (entered con). printable c)"

definition is_enter :: "char \<Rightarrow> bool" where
  "is_enter c \<longleftrightarrow> c = CHR 0x0D \<or> c = CHR 0x0A"

definition edit :: "char \<Rightarrow> string \<Rightarrow> string" where
  \<comment> \<open>what a key does to the line\<close>
  "edit c l =
     (if is_enter c then []
      else if (c = CHR 0x7F \<or> c = CHR 0x08) \<and> l \<noteq> [] then butlast l
      else if printable c \<and> length l < 255 then l @ [c]
      else l)"

definition echo :: "char \<Rightarrow> string \<Rightarrow> string" where
  \<comment> \<open>what a key other than Enter prints\<close>
  "echo c l =
     (if (c = CHR 0x7F \<or> c = CHR 0x08) \<and> l \<noteq> [] then [CHR 0x08, CHR '' '', CHR 0x08]
      else if printable c \<and> length l < 255 then [c]
      else [])"

definition enter_effect ::
  "('fs, 'f, 'c) platform \<Rightarrow> 'a io \<Rightarrow> string \<Rightarrow> ('fs, 'a) device \<Rightarrow> ('fs, 'a) device" where
  \<comment> \<open>what Enter does to the device\<close>
  "enter_effect P x l d =
     (let argv = take 8 (words l);
          d = (if argv = [] then say CRLF d else commands_dispatch P x argv (say CRLF d))
      in if halted d then d else print_prompt d)"

lemma printable_not_NUL: "printable c \<Longrightarrow> c \<noteq> NUL"
  by (auto simp: printable_def)

lemma console_boot_ok: "console_ok console_boot"
  by (simp add: console_ok_def console_boot_def entered_def INPUT_BUF_SIZE_def)

lemma print_prompt_frame [simp]:
  "disk (print_prompt d) = disk d" "admin_mode (print_prompt d) = admin_mode d"
  "admin_deadline_us (print_prompt d) = admin_deadline_us d" "halted (print_prompt d) = halted d"
  "net (print_prompt d) = net d" "wlan (print_prompt d) = wlan d" "import_b64 (print_prompt d) = import_b64 d"
  "clean (print_prompt d) = clean d"
  by (simp_all add: print_prompt_def)

lemma process_line_words:
  assumes "length (line_buf con) = INPUT_BUF_SIZE" and "line_buf con = l @ NUL # rest" and "NUL \<notin> set l"
  shows "\<exists>con'. process_line P x (con, d) = (con', if words l = [] then d else commands_dispatch P x (take 8 (words l)) d)
    \<and> length (line_buf con') = INPUT_BUF_SIZE \<and> line_len con' = line_len con \<and> was_connected con' = was_connected con"
proof -
  obtain buf ps where r: "split_args (line_buf con) 0 [] = (buf, ps)" "length buf = INPUT_BUF_SIZE"
    "args_at buf ps = take 8 (words l)"
    using split_args_words [OF assms(3), of "[]" "[]" rest] assms(1,2) by (auto simp: MAX_ARGS_def)
  then have "ps = [] \<longleftrightarrow> words l = []"
    by (metis args_at_def length_0_conv length_map take_eq_Nil zero_neq_numeral)
  then show ?thesis
    using r by (simp add: process_line_def args_at_def)
qed

lemma enter_line:
  assumes ok: "console_ok con" and pos: "0 < line_len con"
  shows "\<exists>con'. process_line P x (con\<lparr>line_buf := (line_buf con)[line_len con := NUL]\<rparr>, d) =
      (con', if words (entered con) = [] then d else commands_dispatch P x (take 8 (words (entered con))) d)
    \<and> length (line_buf con') = INPUT_BUF_SIZE \<and> line_len con' = line_len con \<and> was_connected con' = was_connected con"
proof -
  let ?con = "con\<lparr>line_buf := (line_buf con)[line_len con := NUL]\<rparr>"
  have split: "line_buf ?con = entered con @ NUL # drop (Suc (line_len con)) (line_buf con)"
    using ok by (simp add: entered_def console_ok_def upd_conv_take_nth_drop)
  have noNUL: "NUL \<notin> set (entered con)"
    using ok printable_not_NUL by (auto simp: console_ok_def)
  have len: "length (line_buf ?con) = INPUT_BUF_SIZE"
    using ok by (simp add: console_ok_def)
  show ?thesis
    using process_line_words [OF len split noNUL, of P x d] by (simp del: if_split)
qed

lemma key_typed_enter:
  assumes "console_ok con" and "\<not> halted d" and "is_enter c"
  obtains con' where "key_typed P x c (con, d) =
      (con', if entered con = [] then print_prompt (say CRLF d) else enter_effect P x (entered con) d)"
    and "length (line_buf con') = INPUT_BUF_SIZE" and "was_connected con' = was_connected con"
    and "line_len con' = line_len con \<and> entered con \<noteq> [] \<and> halted (snd (key_typed P x c (con, d)))
      \<or> line_len con' = 0"
proof (cases "0 < line_len con")
  case False
  then show ?thesis
    using that [of con] assms by (simp add: key_typed_def is_enter_def console_ok_def entered_def Let_def)
next
  case True
  obtain con' where r: "process_line P x (con\<lparr>line_buf := (line_buf con)[line_len con := NUL]\<rparr>, say CRLF d) =
      (con', if words (entered con) = [] then say CRLF d
             else commands_dispatch P x (take 8 (words (entered con))) (say CRLF d))"
    "length (line_buf con') = INPUT_BUF_SIZE" "line_len con' = line_len con" "was_connected con' = was_connected con"
    using enter_line [OF assms(1) True, of P x "say CRLF d"] by blast
  define d' where "d' = (if words (entered con) = [] then say CRLF d
             else commands_dispatch P x (take 8 (words (entered con))) (say CRLF d))"
  have ne: "entered con \<noteq> []"
    using True assms(1) by (auto simp: entered_def console_ok_def)
  have k: "key_typed P x c (con, d) = (if halted d' then (con', d') else (con'\<lparr>line_len := 0\<rparr>, print_prompt d'))"
    using True assms(3) r(1) [folded d'_def] by (simp add: key_typed_def is_enter_def Let_def)
  have e: "enter_effect P x (entered con) d = (if halted d' then d' else print_prompt d')"
    by (simp add: enter_effect_def d'_def Let_def)
  show ?thesis
    using that [of "if halted d' then con' else con'\<lparr>line_len := 0\<rparr>"] k e r(2-) ne by auto
qed

lemma console_erase:
  assumes "console_ok con"
  shows "console_ok (con\<lparr>line_len := line_len con - 1\<rparr>)"
    and "entered (con\<lparr>line_len := line_len con - 1\<rparr>) = butlast (entered con)"
proof -
  show e: "entered (con\<lparr>line_len := line_len con - 1\<rparr>) = butlast (entered con)"
    using assms by (simp add: entered_def console_ok_def butlast_take)
  show "console_ok (con\<lparr>line_len := line_len con - 1\<rparr>)"
    using assms unfolding console_ok_def e by (auto dest: in_set_butlastD)
qed

lemma console_insert:
  assumes "console_ok con" and "printable c" and "line_len con < 255"
  shows "entered (con\<lparr>line_buf := (line_buf con)[line_len con := c], line_len := Suc (line_len con)\<rparr>) = entered con @ [c]"
    and "console_ok (con\<lparr>line_buf := (line_buf con)[line_len con := c], line_len := Suc (line_len con)\<rparr>)"
proof -
  show e: "entered (con\<lparr>line_buf := (line_buf con)[line_len con := c], line_len := Suc (line_len con)\<rparr>) = entered con @ [c]"
    using assms by (simp add: entered_def console_ok_def take_Suc_conv_app_nth)
  show "console_ok (con\<lparr>line_buf := (line_buf con)[line_len con := c], line_len := Suc (line_len con)\<rparr>)"
    using assms unfolding console_ok_def e by (auto simp: INPUT_BUF_SIZE_def)
qed

lemma key_typed_other:
  assumes ok: "console_ok con" and ne: "\<not> is_enter c"
  shows "\<exists>con'. key_typed P x c (con, d) =
      (con', if echo c (entered con) = [] then d else say (echo c (entered con)) d)
    \<and> console_ok con' \<and> was_connected con' = was_connected con \<and> entered con' = edit c (entered con)"
proof -
  have l: "length (entered con) = line_len con" "entered con = [] \<longleftrightarrow> line_len con = 0"
    using ok by (auto simp: entered_def console_ok_def)
  have n: "\<not> (c = CHR 0x0D \<or> c = CHR 0x0A)"
    using ne by (simp add: is_enter_def)
  have lim: "line_len con < INPUT_BUF_SIZE - 1 \<longleftrightarrow> line_len con < 255"
    by (simp add: INPUT_BUF_SIZE_def)
  have k: "key_typed P x c (con, d) =
     (if (c = CHR 0x7F \<or> c = CHR 0x08) \<and> 0 < line_len con
      then (con\<lparr>line_len := line_len con - 1\<rparr>, say [CHR 0x08, CHR '' '', CHR 0x08] d)
      else if printable c \<and> line_len con < 255
      then (con\<lparr>line_buf := (line_buf con)[line_len con := c], line_len := Suc (line_len con)\<rparr>, say [c] d)
      else (con, d))"
    unfolding key_typed_def Let_def prod.case if_not_P [OF n] printable_def lim by (rule refl)
  note spec = echo_def edit_def if_not_P [OF ne]
  consider (erase) "(c = CHR 0x7F \<or> c = CHR 0x08) \<and> 0 < line_len con"
    | (add) "\<not> ((c = CHR 0x7F \<or> c = CHR 0x08) \<and> 0 < line_len con)" "printable c \<and> line_len con < 255"
    | (ignore) "\<not> ((c = CHR 0x7F \<or> c = CHR 0x08) \<and> 0 < line_len con)" "\<not> (printable c \<and> line_len con < 255)"
    by blast
  then show ?thesis
  proof cases
    case erase
    let ?con = "con\<lparr>line_len := line_len con - 1\<rparr>"
    have "key_typed P x c (con, d) = (?con, say [CHR 0x08, CHR '' '', CHR 0x08] d)"
      unfolding k if_P [OF erase] by (rule refl)
    moreover have "echo c (entered con) = [CHR 0x08, CHR '' '', CHR 0x08]" "edit c (entered con) = butlast (entered con)"
      using erase l unfolding spec by (simp_all only: if_P) simp_all
    ultimately show ?thesis
      using console_erase [OF ok] by simp
  next
    case add
    let ?con = "con\<lparr>line_buf := (line_buf con)[line_len con := c], line_len := Suc (line_len con)\<rparr>"
    have "key_typed P x c (con, d) = (?con, say [c] d)"
      unfolding k if_not_P [OF add(1)] if_P [OF add(2)] by (rule refl)
    moreover have "echo c (entered con) = [c]" "edit c (entered con) = entered con @ [c]"
      using add unfolding spec by (auto simp: l)
    ultimately show ?thesis
      using console_insert [OF ok] add(2) by simp
  next
    case ignore
    have "key_typed P x c (con, d) = (con, d)"
      unfolding k if_not_P [OF ignore(1)] if_not_P [OF ignore(2)] by (rule refl)
    moreover have "echo c (entered con) = []" "edit c (entered con) = entered con"
      using ignore unfolding spec by (auto simp: l)
    ultimately show ?thesis
      using ok by simp
  qed
qed

lemma words_joined:
  "list_all (\<lambda>w. w \<noteq> [] \<and> CHR '' '' \<notin> set w) ws \<Longrightarrow> words (concat (map (\<lambda>w. w @ '' '') ws)) = ws"
  by (induction ws) (simp_all add: words_word)

section \<open>Connecting and disconnecting\<close>

lemma banner_frame [simp]:
  "disk (banner d) = disk d" "admin_mode (banner d) = admin_mode d"
  "admin_deadline_us (banner d) = admin_deadline_us d" "halted (banner d) = halted d"
  "net (banner d) = net d" "wlan (banner d) = wlan d" "import_b64 (banner d) = import_b64 d"
  "clean (banner d) = clean d"
  by (simp_all add: banner_def)

definition greeted :: "console \<Rightarrow> ('fs, 'a) device \<Rightarrow> ('fs, 'a) device" where
  "greeted con d = (if was_connected con then d else print_prompt (banner d))"

lemma console_task_cases:
  "usb t \<Longrightarrow> console_task P t (con, d) =
     (case typed t of None \<Rightarrow> (con\<lparr>was_connected := True\<rparr>, greeted con d)
      | Some c \<Rightarrow> key_typed P (command_io t) c (con\<lparr>was_connected := True\<rparr>, greeted con d))"
  "\<not> usb t \<Longrightarrow> console_task P t (con, d) =
     (if was_connected con then (con\<lparr>line_len := 0, was_connected := False\<rparr>, commands_on_disconnect d) else (con, d))"
proof -
  have same: "was_connected con \<Longrightarrow> con\<lparr>was_connected := True\<rparr> = con"
    by (cases con) simp
  show "usb t \<Longrightarrow> console_task P t (con, d) =
     (case typed t of None \<Rightarrow> (con\<lparr>was_connected := True\<rparr>, greeted con d)
      | Some c \<Rightarrow> key_typed P (command_io t) c (con\<lparr>was_connected := True\<rparr>, greeted con d))"
    unfolding console_task_def greeted_def Let_def prod.case
    by (cases "was_connected con"; cases "typed t") (simp_all add: same)
  show "\<not> usb t \<Longrightarrow> console_task P t (con, d) =
     (if was_connected con then (con\<lparr>line_len := 0, was_connected := False\<rparr>, commands_on_disconnect d) else (con, d))"
    unfolding console_task_def Let_def prod.case by (cases "was_connected con") simp_all
qed

lemma console_ok_frame [simp]:
  "console_ok (con\<lparr>was_connected := b\<rparr>) = console_ok con" "entered (con\<lparr>was_connected := b\<rparr>) = entered con"
  by (simp_all add: console_ok_def entered_def)

lemma greeted_frame [simp]:
  "disk (greeted con d) = disk d" "admin_mode (greeted con d) = admin_mode d"
  "admin_deadline_us (greeted con d) = admin_deadline_us d" "halted (greeted con d) = halted d"
  "net (greeted con d) = net d" "wlan (greeted con d) = wlan d" "import_b64 (greeted con d) = import_b64 d"
  "clean (greeted con d) = clean d"
  by (simp_all add: greeted_def)

lemma editor_refines:
  assumes "console_ok con" and "\<not> halted d" and "key_typed P x c (con, d) = (con', d')"
  shows "(\<not> halted d' \<longrightarrow> console_ok con' \<and> entered con' = edit c (entered con))
    \<and> length (line_buf con') = INPUT_BUF_SIZE \<and> was_connected con' = was_connected con
    \<and> d' = (if is_enter c
            then if entered con = [] then print_prompt (say CRLF d) else enter_effect P x (entered con) d
            else if echo c (entered con) = [] then d else say (echo c (entered con)) d)"
proof (cases "is_enter c")
  case True
  show ?thesis
    by (rule key_typed_enter [OF assms(1,2) True, of P x])
      (use True assms in \<open>auto simp: console_ok_def entered_def edit_def INPUT_BUF_SIZE_def\<close>)
next
  case False
  then show ?thesis
    using key_typed_other [OF assms(1) False, of P x d] assms(3) by (auto simp: console_ok_def)
qed

section \<open>Properties\<close>

text \<open>C17: the line editor refines its specification on strings, and stays inside its buffer: a
  key that is not Enter edits the line (at most 255 characters, erased from the end) and
  echoes; Enter on a line runs exactly its first eight words as the command and clears the
  line, whatever the spacing; blank and empty lines run nothing.\<close>

theorem editor_runs_words:
  assumes "console_ok con" and "\<not> halted d" and "key_typed P x c (con, d) = (con', d')"
  shows "(\<not> halted d' \<longrightarrow> console_ok con' \<and> entered con' = edit c (entered con))
    \<and> length (line_buf con') = INPUT_BUF_SIZE \<and> was_connected con' = was_connected con
    \<and> d' = (if is_enter c
            then if entered con = [] then print_prompt (say CRLF d) else enter_effect P x (entered con) d
            else if echo c (entered con) = [] then d else say (echo c (entered con)) d)"
  by (rule editor_refines [OF assms])

definition typed_line :: "string \<Rightarrow> console" where
  "typed_line l = \<lparr>line_buf = l @ replicate (INPUT_BUF_SIZE - length l) NUL, line_len = length l, was_connected = True\<rparr>"

lemma typed_line_ok:
  "length l \<le> 255 \<Longrightarrow> list_all printable l \<Longrightarrow> console_ok (typed_line l) \<and> entered (typed_line l) = l"
  by (auto simp: console_ok_def typed_line_def entered_def INPUT_BUF_SIZE_def list_all_iff)

theorem editor_runs_words_witness:
  "snd (key_typed demo_platform demo_io (CHR 0x0D) (typed_line ''  rename-key 5   front '', demo_device)) =
     (let d = commands_dispatch demo_platform demo_io [''rename-key'', ''5'', ''front''] (say CRLF demo_device)
      in if halted d then d else print_prompt d)"
proof -
  let ?l = "''  rename-key 5   front ''"
  let ?k = "key_typed demo_platform demo_io (CHR 0x0D) (typed_line ?l, demo_device)"
  have "list_all printable ?l"
    unfolding printable_def by code_simp
  from typed_line_ok [OF _ this] have ok: "console_ok (typed_line ?l)" and e: "entered (typed_line ?l) = ?l"
    by auto
  have w: "words ?l = [''rename-key'', ''5'', ''front'']"
    unfolding words_def by code_simp
  have "\<not> halted demo_device"
    by (simp add: demo_device_def device_boot_def)
  then have "snd ?k = (if is_enter (CHR 0x0D)
      then if ?l = [] then print_prompt (say CRLF demo_device) else enter_effect demo_platform demo_io ?l demo_device
      else if echo (CHR 0x0D) ?l = [] then demo_device else say (echo (CHR 0x0D) ?l) demo_device)"
    using editor_runs_words [OF ok _ prod.collapse [symmetric]] unfolding e by blast
  then have "snd ?k = enter_effect demo_platform demo_io ?l demo_device"
    by (simp only: is_enter_def simp_thms if_True) simp
  then show ?thesis
    unfolding enter_effect_def w Let_def by simp
qed

end
