(* ===== verification/Firmware.thy ===== *)
theory Firmware imports Console
begin

text \<open>
  \<open>main.c\<close>: the boot sequence of core 0 and its endless loop, which services the door, the
  console, the WiFi link and NTP in turn. The loop is a step function over what one iteration
  meets; a run is a list of iterations. The wait for the first NTP sync may not end, and is a
  partial function. \<open>core0_handle_door_verify\<close> is in the theories \<open>Door\<close> and \<open>Device\<close>.
\<close>

section \<open>Boot\<close>

definition NTP_RETRY_INTERVAL_S :: nat where
  "NTP_RETRY_INTERVAL_S = 5"

definition retry_line :: string where
  "retry_line = ''[main] NTP sync failed, retrying in '' @ udec NTP_RETRY_INTERVAL_S @ ''s...'' @ CRLF"

partial_function (option) await_sync ::
  "u32 \<Rightarrow> (nat \<Rightarrow> 'a sync_env) \<Rightarrow> nat \<Rightarrow> effect list \<Rightarrow> 'a ntp \<Rightarrow> (effect list \<times> 'a ntp) option" where
  \<comment> \<open>the loop of \<open>boot_network\<close>: attempt \<open>k\<close> meets the surroundings \<open>envs k\<close>\<close>
  "await_sync build envs k es s =
     (case ntp_sync build (envs k) s of (ok, s') \<Rightarrow>
      if ok then Some (es, s')
      else await_sync build envs (Suc k)
             (es @ Out retry_line # buzzer_beep_short @ [SleepMs (NTP_RETRY_INTERVAL_S * 1000)]) s')"

definition boot_network ::
  "('fs, 'f, 'c) platform \<Rightarrow> cyw43 \<Rightarrow> (nat \<Rightarrow> 'a sync_env) \<Rightarrow> ('fs, 'a) device \<Rightarrow> ('fs, 'a) device option" where
  "boot_network P R envs d =
     (let (cfg, st) = storage_wifi_get (flash_fs P) (disk d); d = d\<lparr>disk := st\<rparr> in
      case cfg of
        None \<Rightarrow> Some (play buzzer_beep_long
                  (lines_out [''[main] no wifi config - skipping NTP'', ''[main] use set-wifi to configure''] d))
      | Some cfg \<Rightarrow>
          let (ok, es, w) = wifi_connect R (ssid cfg) (password cfg) (wlan d);
              d = play es (d\<lparr>wlan := w\<rparr>)
          in if \<not> ok
             then Some (play buzzer_beep_long (line ''[main] wifi connect failed - skipping NTP'' d))
             else let d = line ''[main] waiting for NTP sync...'' d
                  in map_option (\<lambda>(es, n). line ''[main] NTP sync ok'' (play es (d\<lparr>net := n\<rparr>)))
                       (await_sync (build_time P) envs 0 [] (net d)))"

definition storage_alarm :: "effect list" where
  "storage_alarm = concat (replicate 5 (buzzer_beep_long @ [SleepMs 100] @ buzzer_beep_long @ [SleepMs 500]))"

definition boot_drivers :: "effect list" where
  "boot_drivers = buzzer_init @ latch_init @ light_init @ led_init @ buzzer_beep_short @ [WatchdogEnable 8000]"

definition boot_storage :: "('fs, 'f, 'c) platform \<Rightarrow> ('fs, 'a) device \<Rightarrow> ('fs, 'a) device" where
  "boot_storage P d =
     (let (storage_ok, st) = storage_init (flash_fs P) (disk d); d = d\<lparr>disk := st\<rparr>
      in if storage_ok then d
         else play storage_alarm (lines_out
           [''[main] *** STORAGE FAILURE - recovery mode ***'',
            ''[main] use '' @ quoted ''format-storage'' @ '' to erase and reinitialise'',
            ''[main] WARNING: this will permanently delete ALL keys''] d))"

definition main_boot ::
  "('fs, 'f, 'c) platform \<Rightarrow> cyw43 \<Rightarrow> (nat \<Rightarrow> 'a sync_env) \<Rightarrow> 'a ntp \<Rightarrow> 'fs \<Rightarrow> ('fs, 'a) device option" where
  \<comment> \<open>\<open>main\<close> up to its loop; core 1 is started in between and has a theory of its own\<close>
  "main_boot P R envs n fs =
     map_option (play buzzer_play_boot)
       (boot_network P R envs (boot_storage P (play boot_drivers (device_boot n \<lparr>lfs = fs, mounted = False\<rparr>))))"

section \<open>The loop\<close>

record 'a turn =
  door_poll :: poll  \<comment> \<open>a request of core 1 since the last iteration, and the RTC\<close>
  tick :: "'a tick"
  wifi_call :: task_call
  ntp_link :: cyw43
  ntp_now :: u64
  ntp_env :: "'a sync_env"

definition run_wifi_task :: "('fs, 'f, 'c) platform \<Rightarrow> task_call \<Rightarrow> ('fs, 'a) device \<Rightarrow> ('fs, 'a) device" where
  "run_wifi_task P c d =
     (let (es, w, st) = wifi_task (flash_fs P) (call_radio c) (call_now c) (call_now2 c) (wlan d, disk d)
      in play es (d\<lparr>wlan := w, disk := st\<rparr>))"

definition run_ntp_task :: "('fs, 'f, 'c) platform \<Rightarrow> 'a turn \<Rightarrow> ('fs, 'a) device \<Rightarrow> ('fs, 'a) device" where
  "run_ntp_task P t d =
     (let (r, n) = ntp_task (build_time P) (wifi_is_connected (ntp_link t) (wlan d)) (ntp_now t) (ntp_env t) (net d)
      in play (if r = Some False then buzzer_play_ntp_sync_error else []) (d\<lparr>net := n\<rparr>))"

definition main_loop ::
  "('fs, 'f, 'c) platform \<Rightarrow> console \<times> ('fs, 'a) device \<Rightarrow> 'a turn \<Rightarrow> console \<times> ('fs, 'a) device" where
  \<comment> \<open>one iteration; a device that waits for a reset stays as it is\<close>
  "main_loop P e t =
     (let (con, d) = e in
      if halted d then (con, d)
      else let d = serve_door P (door_clock (door_poll t)) (arrive (door_poll t) d);
               (con, d) = console_task P (tick t) (con, d)
           in if halted d then (con, d)
              else (con, play [SleepMs 10] (run_ntp_task P t (run_wifi_task P (wifi_call t) d))))"

section \<open>Waiting for the first sync\<close>

fun retried :: "u32 \<Rightarrow> (nat \<Rightarrow> 'a sync_env) \<Rightarrow> nat \<Rightarrow> 'a ntp \<Rightarrow> nat \<Rightarrow> 'a ntp" where
  \<comment> \<open>the NTP state after this many attempts\<close>
  "retried build envs k s 0 = s"
| "retried build envs k s (Suc n) = retried build envs (Suc k) (snd (ntp_sync build (envs k) s)) n"

definition attempt_ok :: "u32 \<Rightarrow> (nat \<Rightarrow> 'a sync_env) \<Rightarrow> nat \<Rightarrow> 'a ntp \<Rightarrow> nat \<Rightarrow> bool" where
  "attempt_ok build envs k s n \<longleftrightarrow> fst (ntp_sync build (envs (k + n)) (retried build envs k s n))"

lemma await_sync_now:
  "ntp_sync build (envs k) s = (True, s') \<Longrightarrow> await_sync build envs k es s = Some (es, s')"
  by (subst await_sync.simps) simp

lemma await_sync_later:
  "ntp_sync build (envs k) s = (False, s') \<Longrightarrow> await_sync build envs k es s =
     await_sync build envs (Suc k)
       (es @ Out retry_line # buzzer_beep_short @ [SleepMs (NTP_RETRY_INTERVAL_S * 1000)]) s'"
  by (subst await_sync.simps) simp

lemma attempt_ok_Suc: "attempt_ok build envs k s (Suc n) =
    attempt_ok build envs (Suc k) (snd (ntp_sync build (envs k) s)) n"
  by (simp add: attempt_ok_def)

lemma await_sync_returns:
  "attempt_ok build envs k s n \<Longrightarrow> \<exists>r. await_sync build envs k es s = Some r"
proof (induction n arbitrary: k s es)
  case 0
  then show ?case
    using await_sync_now [of build envs k s "snd (ntp_sync build (envs k) s)"]
    by (simp add: attempt_ok_def prod_eq_iff)
next
  case (Suc n)
  obtain ok s' where y: "ntp_sync build (envs k) s = (ok, s')"
    by fastforce
  show ?case
  proof (cases ok)
    case True
    then show ?thesis
      using await_sync_now [of build envs k s s'] y by simp
  next
    case False
    then have y: "ntp_sync build (envs k) s = (False, s')"
      using y by simp
    show ?thesis
      using Suc await_sync_later [where envs = envs and k = k, OF y] by (simp add: attempt_ok_Suc y)
  qed
qed

definition awaited :: "u32 \<Rightarrow> (nat \<Rightarrow> 'a sync_env) \<Rightarrow> nat \<Rightarrow> 'a ntp \<Rightarrow> 'a ntp \<Rightarrow> bool" where
  \<comment> \<open>what the loop has established when it returns\<close>
  "awaited build envs k s s' \<longleftrightarrow> (\<exists>n. attempt_ok build envs k s n) \<and>
     (ntp_inv build s \<longrightarrow> ntp_inv build s' \<and> synced s' \<and>
        (\<exists>t. clock_get_unix_time (rtc s') = Some t \<and> in_band build t))"

lemma await_sync_result:
  assumes "await_sync build envs k es s = Some r"
  shows "awaited build envs k s (snd r)"
proof (rule await_sync.raw_induct [OF _ assms, where P = "\<lambda>build envs k es s r. awaited build envs k s (snd r)"])
  fix f :: "u32 \<Rightarrow> (nat \<Rightarrow> 'a sync_env) \<Rightarrow> nat \<Rightarrow> effect list \<Rightarrow> 'a ntp \<Rightarrow> (effect list \<times> 'a ntp) option"
    and build k es s r and envs :: "nat \<Rightarrow> 'a sync_env"
  assume ih: "\<And>build envs k es s r. f build envs k es s = Some r \<Longrightarrow> awaited build envs k s (snd r)"
    and body: "(case ntp_sync build (envs k) s of (ok, s') \<Rightarrow>
      if ok then Some (es, s')
      else f build envs (Suc k)
             (es @ Out retry_line # buzzer_beep_short @ [SleepMs (NTP_RETRY_INTERVAL_S * 1000)]) s') = Some r"
  obtain ok s' where y: "ntp_sync build (envs k) s = (ok, s')"
    by fastforce
  note res = ntp_sync_outcome [OF _ y]
  show "awaited build envs k s (snd r)"
  proof (cases ok)
    case True
    then have "attempt_ok build envs k s 0" "snd r = s'"
      using body by (auto simp: attempt_ok_def y)
    then show ?thesis
      using res True unfolding awaited_def by blast
  next
    case False
    then have "awaited build envs (Suc k) s' (snd r)"
      using body y by (intro ih) simp
    then show ?thesis
      using res attempt_ok_Suc [of build envs k s] unfolding awaited_def y snd_conv by blast
  qed
qed

definition boot_waits :: "('fs, 'f, 'c) platform \<Rightarrow> cyw43 \<Rightarrow> ('fs, 'a) device \<Rightarrow> bool" where
  \<comment> \<open>credentials are stored and the network takes them\<close>
  "boot_waits P R d \<longleftrightarrow> (\<exists>cfg. fst (storage_wifi_get (flash_fs P) (disk d)) = Some cfg \<and>
     fst (wifi_connect R (ssid cfg) (password cfg) (wlan d)))"

lemma boot_network_skips:
  assumes L: "lfs_laws (flash_fs P) V" and n: "\<not> boot_waits P R d"
  shows "\<exists>d'. boot_network P R envs d = Some d' \<and> same_disk V (disk d) (disk d') \<and> admin_mode d' = admin_mode d
    \<and> halted d' = halted d \<and> import_b64 d' = import_b64 d"
proof -
  obtain c st where g: "storage_wifi_get (flash_fs P) (disk d) = (c, st)"
    by fastforce
  note sd = wifi_get_same_disk [OF L g]
  show ?thesis
  proof (cases c)
    case None
    then show ?thesis
      using sd by (simp add: boot_network_def g Let_def)
  next
    case (Some cfg)
    obtain ok es w where w: "wifi_connect R (ssid cfg) (password cfg) (wlan d) = (ok, es, w)"
      by (metis prod_cases3)
    then have "\<not> ok"
      using n by (auto simp: boot_waits_def g Some)
    then show ?thesis
      using sd by (simp add: boot_network_def g Some w Let_def)
  qed
qed

lemma boot_network_waiting:
  assumes L: "lfs_laws (flash_fs P) V" and "boot_waits P R d"
  obtains es0 w st where "same_disk V (disk d) st"
    and "boot_network P R envs d = map_option
      (\<lambda>(es, n). line ''[main] NTP sync ok'' (play es
         ((line ''[main] waiting for NTP sync...'' (play es0 (d\<lparr>disk := st, wlan := w\<rparr>)))\<lparr>net := n\<rparr>)))
      (await_sync (build_time P) envs 0 [] (net d))"
proof -
  obtain cfg st where g: "storage_wifi_get (flash_fs P) (disk d) = (Some cfg, st)"
    and c: "fst (wifi_connect R (ssid cfg) (password cfg) (wlan d))"
    using assms(2) by (auto simp: boot_waits_def prod_eq_iff)
  obtain es w where w: "wifi_connect R (ssid cfg) (password cfg) (wlan d) = (True, es, w)"
    using c by (metis prod.collapse)
  show ?thesis
    by (rule that [of st es w]) (simp_all add: wifi_get_same_disk [OF L g] boot_network_def g w Let_def)
qed

section \<open>One iteration\<close>

lemma on_disconnect_frame [simp]:
  "disk (commands_on_disconnect d) = disk d" "\<not> admin_mode (commands_on_disconnect d)"
  "halted (commands_on_disconnect d) = halted d" "import_b64 (commands_on_disconnect d) = import_b64 d"
  by (simp_all add: commands_on_disconnect_def)

definition fw_ok :: "('fs, 'f, 'c) platform \<Rightarrow> ('fs, 'f) lfs_view \<Rightarrow> console \<times> ('fs, 'a) device \<Rightarrow> bool" where
  \<comment> \<open>the store is sound, the line is inside its buffer, a session belongs to a connection\<close>
  "fw_ok P V e \<longleftrightarrow> (let (con, d) = e in
     sound_device P V d \<and> length (line_buf con) = INPUT_BUF_SIZE \<and> (halted d \<or> console_ok con) \<and>
     (admin_mode d \<longrightarrow> was_connected con))"

lemma sound_same_disk:
  "sound_device P V d \<Longrightarrow> same_disk V (disk d) (disk d') \<Longrightarrow> import_b64 d' = import_b64 d \<Longrightarrow> sound_device P V d'"
  by (auto simp: sound_device_def sized_def intro: same_disk_store_ok)

lemma sound_frame [simp]:
  "sound_device P V (say s d) = sound_device P V d" "sound_device P V (print_prompt d) = sound_device P V d"
  "sound_device P V (greeted con d) = sound_device P V d" "sound_device P V (play es d) = sound_device P V d"
  "sound_device P V (commands_on_disconnect d) = sound_device P V d"
  by (simp_all add: sound_device_def sized_def)

lemma enter_effect_sound:
  assumes "sound_device P V d" and "drbg_sound (drbg P)"
  shows "sound_device P V (enter_effect P x l d)"
proof (cases "take 8 (words l) = []")
  case False
  then have "step_ok P V x (say CRLF d) (commands_dispatch P x (take 8 (words l)) (say CRLF d))"
    using assms by (intro dispatch_step_ok) simp_all
  then have "sound_device P V (commands_dispatch P x (take 8 (words l)) (say CRLF d))"
    unfolding step_ok_def sound_device_def by blast
  then show ?thesis
    using False by (simp add: enter_effect_def Let_def del: take_eq_Nil)
qed (use assms in \<open>simp add: enter_effect_def Let_def del: take_eq_Nil\<close>)

lemma key_typed_ok:
  assumes "fw_ok P V (con, d)" and "was_connected con" and "\<not> halted d" and "drbg_sound (drbg P)"
  shows "fw_ok P V (key_typed P x c (con, d))"
proof -
  obtain con' d' where k: "key_typed P x c (con, d) = (con', d')"
    by fastforce
  have ok: "console_ok con" and sd: "sound_device P V d"
    using assms(1,3) by (simp_all add: fw_ok_def)
  note r = editor_refines [OF ok assms(3) k]
  have "sound_device P V d'"
    using r sd enter_effect_sound [OF sd assms(4), of x "entered con"] by (auto split: if_splits)
  moreover have "\<not> halted d' \<longrightarrow> console_ok con'" "length (line_buf con') = INPUT_BUF_SIZE" "was_connected con'"
    using r assms(2) by blast+
  ultimately show ?thesis
    by (auto simp: k fw_ok_def)
qed

lemma console_task_ok:
  assumes "fw_ok P V (con, d)" and "\<not> halted d" and "drbg_sound (drbg P)"
  shows "fw_ok P V (console_task P t (con, d))"
    and "\<not> usb t \<Longrightarrow> \<not> admin_mode (snd (console_task P t (con, d))) \<and> halted (snd (console_task P t (con, d))) = halted d"
proof -
  have g: "fw_ok P V (con\<lparr>was_connected := True\<rparr>, greeted con d)"
    using assms(1) by (simp add: fw_ok_def)
  show "fw_ok P V (console_task P t (con, d))"
  proof (cases "usb t")
    case True
    then show ?thesis
      using g assms(2,3) key_typed_ok [OF g] by (simp add: console_task_cases(1) split: option.split)
  next
    case False
    then show ?thesis
      using assms(1,2) by (auto simp: console_task_cases(2) fw_ok_def console_ok_def entered_def INPUT_BUF_SIZE_def)
  qed
  show "\<not> usb t \<Longrightarrow> \<not> admin_mode (snd (console_task P t (con, d))) \<and> halted (snd (console_task P t (con, d))) = halted d"
    using assms(1) by (auto simp: console_task_cases(2) fw_ok_def)
qed

lemma wifi_run_frame:
  assumes "lfs_laws (flash_fs P) V"
  shows "same_disk V (disk d) (disk (run_wifi_task P c d))" and "admin_mode (run_wifi_task P c d) = admin_mode d"
    and "halted (run_wifi_task P c d) = halted d" and "import_b64 (run_wifi_task P c d) = import_b64 d"
proof -
  obtain es w st where t: "wifi_task (flash_fs P) (call_radio c) (call_now c) (call_now2 c) (wlan d, disk d) = (es, w, st)"
    by (metis prod_cases3)
  show "same_disk V (disk d) (disk (run_wifi_task P c d))" "admin_mode (run_wifi_task P c d) = admin_mode d"
    "halted (run_wifi_task P c d) = halted d" "import_b64 (run_wifi_task P c d) = import_b64 d"
    using wifi_task_store [OF assms t] by (simp_all add: run_wifi_task_def t same_disk_def)
qed

lemma ntp_run_frame [simp]:
  "disk (run_ntp_task P t d) = disk d" "admin_mode (run_ntp_task P t d) = admin_mode d"
  "halted (run_ntp_task P t d) = halted d" "import_b64 (run_ntp_task P t d) = import_b64 d"
  by (simp_all add: run_ntp_task_def split: prod.split)

definition after_tasks :: "('fs, 'f, 'c) platform \<Rightarrow> 'a turn \<Rightarrow> ('fs, 'a) device \<Rightarrow> ('fs, 'a) device" where
  "after_tasks P t d = play [SleepMs 10] (run_ntp_task P t (run_wifi_task P (wifi_call t) d))"

definition door_served :: "('fs, 'f, 'c) platform \<Rightarrow> 'a turn \<Rightarrow> ('fs, 'a) device \<Rightarrow> ('fs, 'a) device" where
  "door_served P t d = serve_door P (door_clock (door_poll t)) (arrive (door_poll t) d)"

lemma main_loop_parts:
  "\<not> halted d \<Longrightarrow> main_loop P (con, d) t =
     (case console_task P (tick t) (con, door_served P t d) of (con', d') \<Rightarrow>
      if halted d' then (con', d') else (con', after_tasks P t d'))"
  "halted d \<Longrightarrow> main_loop P (con, d) t = (con, d)"
  by (simp_all add: main_loop_def door_served_def after_tasks_def Let_def split: prod.split)

lemma door_served_frame:
  assumes "lfs_laws (flash_fs P) V"
  shows "same_disk V (disk d) (disk (door_served P t d))" and "admin_mode (door_served P t d) = admin_mode d"
    and "admin_deadline_us (door_served P t d) = admin_deadline_us d"
    and "halted (door_served P t d) = halted d" and "import_b64 (door_served P t d) = import_b64 d"
  using waitedD [OF waited_trans [OF waited_arrive waited_serve [OF assms]]]
  by (simp_all add: door_served_def)

lemma after_tasks_frame:
  assumes "lfs_laws (flash_fs P) V"
  shows "same_disk V (disk d) (disk (after_tasks P t d))" and "admin_mode (after_tasks P t d) = admin_mode d"
    and "halted (after_tasks P t d) = halted d" and "import_b64 (after_tasks P t d) = import_b64 d"
  using wifi_run_frame [OF assms] by (simp_all add: after_tasks_def)

lemma fw_ok_laws: "fw_ok P V (con, d) \<Longrightarrow> lfs_laws (flash_fs P) V"
  by (simp add: fw_ok_def sound_device_def store_ok_def)

lemma fw_ok_frame:
  assumes "fw_ok P V (con, d)" and "same_disk V (disk d) (disk d')" and "admin_mode d' = admin_mode d"
    and "halted d' = halted d" and "import_b64 d' = import_b64 d"
  shows "fw_ok P V (con, d')"
  using assms sound_same_disk [where P = P, OF _ assms(2,5)] by (simp add: fw_ok_def)

lemma main_loop_ok:
  assumes ok: "fw_ok P V e" and g: "drbg_sound (drbg P)"
  shows "fw_ok P V (main_loop P e t)"
    and "\<not> usb (tick t) \<Longrightarrow> \<not> halted (snd e) \<Longrightarrow> \<not> admin_mode (snd (main_loop P e t))"
proof -
  obtain con d where e: "e = (con, d)"
    by fastforce
  note L = fw_ok_laws [OF ok [unfolded e]]
  obtain con' d' where c: "console_task P (tick t) (con, door_served P t d) = (con', d')"
    by fastforce
  have served: "fw_ok P V (con, door_served P t d)"
    by (rule fw_ok_frame [OF ok [unfolded e]]) (simp_all add: door_served_frame [OF L])
  have task: "fw_ok P V (con', d')" and off: "\<not> usb (tick t) \<Longrightarrow> \<not> admin_mode d' \<and> halted d' = halted d" if "\<not> halted d"
    using console_task_ok [OF served _ g, of "tick t"] that by (simp_all add: c door_served_frame [OF L])
  have tasks: "fw_ok P V (con', after_tasks P t d')" if "\<not> halted d"
    by (rule fw_ok_frame [OF task [OF that]]) (simp_all add: after_tasks_frame [OF L])
  show "fw_ok P V (main_loop P e t)"
    using ok task tasks by (cases "halted d") (simp_all add: e main_loop_parts c)
  show "\<not> admin_mode (snd (main_loop P e t))" if "\<not> usb (tick t)" "\<not> halted (snd e)"
    using that off by (simp add: e main_loop_parts c after_tasks_frame [OF L])
qed

interpretation fw: inv_machine "main_loop P" "\<lambda>e. fw_ok P V e \<and> drbg_sound (drbg P)" for P V
  by unfold_locales (simp add: main_loop_ok)

section \<open>Without a login\<close>

definition entered_turn :: "'a turn \<Rightarrow> console \<times> ('fs, 'a) device \<Rightarrow> bool" where
  \<comment> \<open>this iteration reads the Enter of a line\<close>
  "entered_turn t e \<longleftrightarrow> usb (tick t) \<and> (\<exists>c. typed (tick t) = Some c \<and> is_enter c)"

definition login_turn :: "('fs, 'f, 'c) platform \<Rightarrow> ('fs, 'f) lfs_view \<Rightarrow> 'a turn \<Rightarrow> console \<times> ('fs, 'a) device \<Rightarrow> bool" where
  \<comment> \<open>this iteration runs a login that one of its four grounds allows\<close>
  "login_turn P V t e \<longleftrightarrow> (let (con, d) = e; argv = take 8 (words (entered con)) in
     entered_turn t e \<and> mounted (disk d) \<and> argv \<noteq> [] \<and> argv ! 0 = ''login'' \<and>
     login_allowed P V (command_io (tick t)) argv (disk d))"

definition format_turn :: "'a turn \<Rightarrow> console \<times> ('fs, 'a) device \<Rightarrow> bool" where
  \<comment> \<open>this iteration formats: the volume is not mounted, and CONFIRM is typed\<close>
  "format_turn t e \<longleftrightarrow> (let (con, d) = e in
     entered_turn t e \<and> \<not> mounted (disk d) \<and> take 8 (words (entered con)) = [''format-storage''] \<and>
     confirm_typed (command_io (tick t)))"

definition up_ok :: "('fs, 'f, 'c) platform \<Rightarrow> ('fs, 'f) lfs_view \<Rightarrow> console \<times> ('fs, 'a) device \<Rightarrow> bool" where
  \<comment> \<open>as \<open>fw_ok\<close>, of a device that may be in recovery mode, with no volume mounted\<close>
  "up_ok P V e \<longleftrightarrow> (let (con, d) = e in
     lfs_laws (flash_fs P) V \<and> (mounted (disk d) \<longrightarrow> store_ok (flash_fs P) V (lfs_crc P) (disk d)) \<and>
     (halted d \<or> console_ok con))"

lemma up_ok_frame:
  assumes "up_ok P V (con, d)" and "same_disk V (disk d) (disk d')" and "halted d' = halted d"
  shows "up_ok P V (con, d')"
  using assms same_disk_store_ok [OF assms(2)] by (auto simp: up_ok_def same_disk_def)

lemma login_allowed_same:
  "same_disk V st st' \<Longrightarrow> login_allowed P V x argv st' = login_allowed P V x argv st"
  using same_disk_key_map [of V st st' "lfs_crc P"]
  by (simp add: login_allowed_def wifi_configured_def same_disk_def same_volume_def)

definition idle_step :: "('fs, 'f) lfs_view \<Rightarrow> ('fs, 'a) device \<Rightarrow> ('fs, 'a) device \<Rightarrow> bool" where
  "idle_step V d d' \<longleftrightarrow> same_disk V (disk d) (disk d') \<and> halted d' = halted d \<and> \<not> admin_mode d'"

lemma idle_step_trans: "idle_step V d d' \<Longrightarrow> idle_step V d' d'' \<Longrightarrow> idle_step V d d''"
  by (auto simp: idle_step_def intro: same_disk_trans)

lemma idle_step_frame [simp]:
  "idle_step V d (say s d') = idle_step V d d'" "idle_step V d (print_prompt d') = idle_step V d d'"
  "idle_step V (say s d) d' = idle_step V d d'" "idle_step V (greeted con d) d' = idle_step V d d'"
  "idle_step V d (greeted con d') = idle_step V d d'"
  by (simp_all add: idle_step_def)

lemma enter_effect_idle:
  assumes u: "up_ok P V (con, d)" and n: "\<not> admin_mode d"
    and l: "mounted (disk d) \<Longrightarrow> take 8 (words l) \<noteq> [] \<Longrightarrow> take 8 (words l) ! 0 = ''login'' \<Longrightarrow>
      \<not> login_allowed P V x (take 8 (words l)) (disk d)"
    and f: "\<not> mounted (disk d) \<Longrightarrow> take 8 (words l) = [''format-storage''] \<Longrightarrow> \<not> confirm_typed x"
  shows "idle_step V d (enter_effect P x l d)"
proof (cases "take 8 (words l) = []")
  case True
  then show ?thesis
    using n by (simp add: enter_effect_def idle_step_def Let_def del: take_eq_Nil)
next
  case False
  let ?argv = "take 8 (words l)" and ?d = "say CRLF d"
  have L: "lfs_laws (flash_fs P) V"
    using u by (simp add: up_ok_def)
  have "idle_step V d (commands_dispatch P x ?argv ?d)"
  proof (cases "mounted (disk d)")
    case True
    then have ok: "store_ok (flash_fs P) V (lfs_crc P) (disk ?d)"
      using u by (simp add: up_ok_def)
    have h: "harmless P V x ?argv ?d (commands_dispatch P x ?argv ?d)"
      using n by (intro dispatch_harmless [OF store_okD(1,3) [OF ok]]) (simp add: active_def)
    have "\<not> admin_mode (commands_dispatch P x ?argv ?d)"
      using h n l [OF True False] login_outcome(1) [OF ok, of x ?argv] by (auto simp: harmless_def)
    then show ?thesis
      using h by (simp add: harmless_def idle_step_def)
  next
    case unmounted: False
    have "reads V ?d (commands_dispatch P x ?argv ?d)"
      using unmounted f False by (intro dispatch_recovery [OF L]) auto
    then show ?thesis
      using n by (simp add: reads_def same_session_def idle_step_def)
  qed
  then show ?thesis
    using False by (simp add: enter_effect_def Let_def del: take_eq_Nil)
qed

lemma console_task_idle:
  assumes ok: "up_ok P V (con, d)" and h: "\<not> halted d" and n: "\<not> admin_mode d"
    and l: "\<not> login_turn P V t (con, d)" and f: "\<not> format_turn t (con, d)"
  shows "idle_step V d (snd (console_task P (tick t) (con, d))) \<and> up_ok P V (console_task P (tick t) (con, d))"
proof -
  obtain con' d' where c: "console_task P (tick t) (con, d) = (con', d')"
    by fastforce
  let ?con = "con\<lparr>was_connected := True\<rparr>" and ?d = "greeted con d" and ?x = "command_io (tick t)"
  have u: "up_ok P V (?con, ?d)"
    using ok h by (simp add: up_ok_def console_ok_def entered_def)
  have g: "idle_step V d ?d"
    using n by (simp add: idle_step_def)
  have "idle_step V d d' \<and> (\<not> halted d' \<longrightarrow> console_ok con')"
  proof (cases "usb (tick t)")
    case False
    then show ?thesis
      using n c ok h
      by (auto simp: console_task_cases(2) idle_step_def up_ok_def console_ok_def entered_def INPUT_BUF_SIZE_def split: if_splits)
  next
    case True
    show ?thesis
    proof (cases "typed (tick t)")
      case None
      then show ?thesis
        using g True c u h by (auto simp: console_task_cases(1) up_ok_def)
    next
      case (Some k)
      then have k: "key_typed P ?x k (?con, ?d) = (con', d')"
        using c True by (simp add: console_task_cases(1))
      have s: "console_ok ?con" "\<not> halted ?d" "\<not> admin_mode ?d"
        using u h n by (simp_all add: up_ok_def)
      have e: "idle_step V ?d (enter_effect P ?x (entered con) ?d)" if "is_enter k"
        using l f True Some that
        by (intro enter_effect_idle [OF u s(3)]) (auto simp: login_turn_def format_turn_def entered_turn_def)
      note r = editor_refines [OF s(1,2) k]
      show ?thesis
        using r e g by (auto split: if_splits)
    qed
  qed
  moreover have "up_ok P V (con', d')" if "idle_step V d d'" "\<not> halted d' \<longrightarrow> console_ok con'"
    using ok that same_disk_store_ok [of V "disk d" "disk d'"] by (auto simp: up_ok_def idle_step_def same_disk_def)
  ultimately show ?thesis
    by (simp add: c)
qed

lemma main_loop_idle:
  assumes ok: "up_ok P V (con, d)" and n: "\<not> admin_mode d"
    and l: "\<not> login_turn P V t (con, d)" and f: "\<not> format_turn t (con, d)"
  shows "idle_step V d (snd (main_loop P (con, d) t)) \<and> up_ok P V (main_loop P (con, d) t)"
proof (cases "halted d")
  case True
  then show ?thesis
    using n ok by (simp add: main_loop_parts idle_step_def)
next
  case False
  have L: "lfs_laws (flash_fs P) V"
    using ok by (simp add: up_ok_def)
  let ?d = "door_served P t d"
  note fr = door_served_frame [OF L, where d = d and t = t]
  obtain con' d' where c: "console_task P (tick t) (con, ?d) = (con', d')"
    by fastforce
  have s: "idle_step V d ?d"
    using fr n by (simp add: idle_step_def)
  have "\<not> login_turn P V t (con, ?d)"
    using l login_allowed_same [where P = P and x = "command_io (tick t)", OF fr(1)]
    using fr(1) by (auto simp: login_turn_def entered_turn_def Let_def same_disk_def)
  moreover have "\<not> format_turn t (con, ?d)"
    using f fr(1) by (auto simp: format_turn_def entered_turn_def Let_def same_disk_def)
  ultimately have i: "idle_step V ?d d'" "up_ok P V (con', d')"
    using console_task_idle [OF up_ok_frame [OF ok fr(1,4)], of t] False n fr by (simp_all add: c)
  with s have a: "idle_step V d d'"
    by (blast intro: idle_step_trans)
  note af = after_tasks_frame [OF L, where d = d' and t = t]
  have "idle_step V d (after_tasks P t d')" "up_ok P V (con', after_tasks P t d')"
    using a af up_ok_frame [OF i(2) af(1,3)] by (auto simp: idle_step_def intro: same_disk_trans)
  then show ?thesis
    using a i(2) False by (simp add: main_loop_parts c)
qed

lemma quiet_run:
  assumes "up_ok P V e" and "\<not> admin_mode (snd e)"
    and "\<forall>k < length ts. \<not> login_turn P V (ts ! k) (foldl (main_loop P) e (take k ts))
      \<and> \<not> format_turn (ts ! k) (foldl (main_loop P) e (take k ts))"
  shows "idle_step V (snd e) (snd (foldl (main_loop P) e ts))"
  using assms
proof (induction ts arbitrary: e)
  case Nil
  then show ?case
    by (simp add: idle_step_def)
next
  case (Cons t ts)
  have l: "\<not> login_turn P V t e" "\<not> format_turn t e"
    using Cons.prems(3) by force+
  have rest: "\<forall>k < length ts. \<not> login_turn P V (ts ! k) (foldl (main_loop P) (main_loop P e t) (take k ts))
      \<and> \<not> format_turn (ts ! k) (foldl (main_loop P) (main_loop P e t) (take k ts))"
    using Cons.prems(3) by (auto dest: spec [of _ "Suc _"])
  have s: "idle_step V (snd e) (snd (main_loop P e t))" "up_ok P V (main_loop P e t)"
    using main_loop_idle [of P V "fst e" "snd e" t] Cons.prems(1,2) l by simp_all
  have "idle_step V (snd (main_loop P e t)) (snd (foldl (main_loop P) (main_loop P e t) ts))"
    using s rest by (intro Cons.IH) (simp_all add: idle_step_def)
  with s(1) show ?case
    by (auto intro: idle_step_trans)
qed

section \<open>The device after boot\<close>

lemma boot_network_frame:
  assumes L: "lfs_laws (flash_fs P) V" and b: "boot_network P R envs d = Some d'"
  shows "same_disk V (disk d) (disk d') \<and> admin_mode d' = admin_mode d \<and> halted d' = halted d \<and>
    import_b64 d' = import_b64 d"
proof (cases "boot_waits P R d")
  case False
  then show ?thesis
    using boot_network_skips [OF L False, of envs] b by simp
next
  case True
  show ?thesis
  proof (rule boot_network_waiting [OF L True, of envs])
    fix es0 w st
    assume s: "same_disk V (disk d) st" and e: "boot_network P R envs d = map_option
      (\<lambda>(es, n). line ''[main] NTP sync ok'' (play es
         ((line ''[main] waiting for NTP sync...'' (play es0 (d\<lparr>disk := st, wlan := w\<rparr>)))\<lparr>net := n\<rparr>)))
      (await_sync (build_time P) envs 0 [] (net d))"
    show ?thesis
      using s trans [OF e [symmetric] b] by (auto simp: map_option_eq_Some)
  qed
qed

lemma boot_storage_frame:
  "disk (boot_storage P d) = snd (storage_init (flash_fs P) (disk d))" "admin_mode (boot_storage P d) = admin_mode d"
  "halted (boot_storage P d) = halted d" "import_b64 (boot_storage P d) = import_b64 d"
  "net (boot_storage P d) = net d" "wlan (boot_storage P d) = wlan d"
  by (simp_all add: boot_storage_def Let_def split_def del: lines_out.simps)

lemma boot_buffers: "sized (device_boot n st)"
  using clean_import_buf [OF demo_clean] by (simp add: sized_def demo_device_def device_boot_def)

lemma main_boot_ok:
  assumes b: "main_boot P R envs n fs = Some d"
    and ok: "store_ok (flash_fs P) V (lfs_crc P) (snd (storage_init (flash_fs P) \<lparr>lfs = fs, mounted = False\<rparr>))"
  shows "fw_ok P V (console_boot, d) \<and> \<not> admin_mode d \<and> \<not> halted d"
proof -
  let ?d = "boot_storage P (play boot_drivers (device_boot n \<lparr>lfs = fs, mounted = False\<rparr>))"
  obtain d2 where d2: "boot_network P R envs ?d = Some d2" "d = play buzzer_play_boot d2"
    using b by (auto simp: main_boot_def)
  have d1: "store_ok (flash_fs P) V (lfs_crc P) (disk ?d)" "\<not> admin_mode ?d" "\<not> halted ?d"
    using ok by (simp_all add: boot_storage_frame) (simp_all add: device_boot_def)
  have "sized ?d"
    using boot_buffers [of n "\<lparr>lfs = fs, mounted = False\<rparr>"] by (simp add: sized_def boot_storage_frame)
  then have "fw_ok P V (console_boot, ?d)"
    using d1 console_boot_ok by (simp add: fw_ok_def sound_device_def console_ok_def)
  then show ?thesis
    using fw_ok_frame [of P V console_boot ?d d] boot_network_frame [OF store_okD(1) [OF d1(1)] d2(1)] d1 d2(2) by simp
qed

section \<open>Properties\<close>

text \<open>C1: the invariant of the whole firmware: from a boot on a sound volume, whatever core 1
  posts, whatever is typed, whenever USB is plugged and unplugged, and whatever the radio
  and the network answer, after any number of iterations of the main loop the store is
  sound (mounted, not failing to find, read, list and remove files, every file of the key directory the file of an identifier in range that
  its record names), the paste buffer has its size, the console's index stays inside its
  line buffer, and an admin session exists only while the console knows a connection.\<close>

theorem firmware_keeps_invariant:
  assumes "drbg_sound (drbg P)" and "main_boot P R envs n fs = Some d0"
    and "store_ok (flash_fs P) V (lfs_crc P) (snd (storage_init (flash_fs P) \<lparr>lfs = fs, mounted = False\<rparr>))"
    and "(con, d) = foldl (main_loop P) (console_boot, d0) ts"
  shows "store_ok (flash_fs P) V (lfs_crc P) (disk d) \<and> length (import_b64 d) = B64_BUF_LEN
    \<and> length (line_buf con) = INPUT_BUF_SIZE \<and> (halted d \<or> line_len con < INPUT_BUF_SIZE)
    \<and> (admin_mode d \<longrightarrow> was_connected con)"
proof -
  have "fw_ok P V (foldl (main_loop P) (console_boot, d0) ts)"
    using fw.run_inv [where V = V, of P "(console_boot, d0)" ts] main_boot_ok [OF assms(2,3)] assms(1) by simp
  then show ?thesis
    by (auto simp: assms(4) [symmetric] fw_ok_def sound_device_def sized_def console_ok_def)
qed

text \<open>C2: noninterference of an unauthenticated console: in a run of the main loop that starts
  without a session, with a sound volume mounted (one that can be listed and read without
  fault) or in recovery mode with none, in which no iteration executes a login that one of its four grounds allows and none executes a confirmed
  format-storage on an unmounted volume, nothing stored changes (keys, WiFi credentials, every
  file), no session opens and no command reboots the device, whatever is typed. The second
  exception is the recovery command, which needs no session: it erases everything (C25).\<close>

theorem stored_keys_need_login:
  assumes "lfs_laws (flash_fs P) V" and "mounted (disk d) \<longrightarrow> store_ok (flash_fs P) V (lfs_crc P) (disk d)"
    and "halted d \<or> console_ok con" and "\<not> admin_mode d"
    and "\<forall>k < length ts. \<not> login_turn P V (ts ! k) (foldl (main_loop P) (con, d) (take k ts))
      \<and> \<not> format_turn (ts ! k) (foldl (main_loop P) (con, d) (take k ts))"
    and "(con', d') = foldl (main_loop P) (con, d) ts"
  shows "key_map V (lfs_crc P) (disk d') = key_map V (lfs_crc P) (disk d)
    \<and> files V (lfs (disk d')) = files V (lfs (disk d)) \<and> mounted (disk d') = mounted (disk d)
    \<and> \<not> admin_mode d' \<and> halted d' = halted d"
proof -
  have "idle_step V d d'"
    using quiet_run [OF _ _ assms(5)] assms(1-4) by (simp add: assms(6) [symmetric] up_ok_def)
  then show ?thesis
    using same_disk_key_map by (auto simp: idle_step_def same_disk_def same_volume_def)
qed

text \<open>An iteration that finds USB disconnected leaves no admin session behind, and drops the
  line that was being typed.\<close>

theorem unplug_ends_session:
  assumes "drbg_sound (drbg P)" and "fw_ok P V (con, d)" and "\<not> halted d" and "\<not> usb (tick t)"
  shows "\<not> admin_mode (snd (main_loop P (con, d) t))
    \<and> (was_connected con \<longrightarrow> entered (fst (main_loop P (con, d) t)) = [])"
proof -
  have "fst (main_loop P (con, d) t) = fst (console_task P (tick t) (con, door_served P t d))"
    using assms(3) by (simp add: main_loop_parts split: prod.split)
  then show ?thesis
    using main_loop_ok(2) [OF assms(2,1), of t] assms(3,4) by (simp add: console_task_cases(2) entered_def)
qed

text \<open>C18: termination of the boot: \<open>boot_network\<close> returns unless credentials are stored, the
  network takes them and every NTP attempt fails, in which case core 0 never reaches its
  loop (neither door nor console is served); when it returns, storage is as before, and if
  it waited, the RTC is set to a time inside the sanity band.\<close>

theorem boot_network_waits:
  assumes "lfs_laws (flash_fs P) V" and "ntp_inv (build_time P) (net d)"
  shows "(boot_network P R envs d = None \<longleftrightarrow>
       boot_waits P R d \<and> (\<forall>n. \<not> attempt_ok (build_time P) envs 0 (net d) n))
    \<and> (\<forall>d'. boot_network P R envs d = Some d' \<longrightarrow> same_disk V (disk d) (disk d') \<and>
         (boot_waits P R d \<longrightarrow> synced (net d') \<and>
            (\<exists>t. clock_get_unix_time (rtc (net d')) = Some t \<and> in_band (build_time P) t)))"
proof (cases "boot_waits P R d")
  case False
  then show ?thesis
    using boot_network_skips [OF assms(1) False, of envs] by auto
next
  case True
  show ?thesis
  proof (rule boot_network_waiting [OF assms(1) True, of envs])
    fix es0 w st
    assume s: "same_disk V (disk d) st" and e: "boot_network P R envs d = map_option
      (\<lambda>(es, n). line ''[main] NTP sync ok'' (play es
         ((line ''[main] waiting for NTP sync...'' (play es0 (d\<lparr>disk := st, wlan := w\<rparr>)))\<lparr>net := n\<rparr>)))
      (await_sync (build_time P) envs 0 [] (net d))"
    show ?thesis
    proof (cases "await_sync (build_time P) envs 0 [] (net d)")
      case None
      then show ?thesis
        using True await_sync_returns [of "build_time P" envs 0 "net d" _ "[]"] by (auto simp: e)
    next
      case (Some r)
      then show ?thesis
        using True s await_sync_result [OF Some] assms(2) by (auto simp: e awaited_def split: prod.splits)
    qed
  qed
qed

section \<open>Evaluations\<close>

definition demo_turn :: "bool \<Rightarrow> nat turn" where
  \<comment> \<open>Enter is pressed, when USB is connected; the network is dead\<close>
  "demo_turn u = \<lparr>door_poll = \<lparr>posted = Some (1, 5, 686018), door_clock = Some minute_one, got = None\<rparr>,
     tick = \<lparr>usb = u, typed = Some (CHR 0x0D), command_io = demo_io\<rparr>,
     wifi_call = \<lparr>call_radio = dead_radio, call_now = 600000000, call_now2 = 600000001\<rparr>,
     ntp_link = dead_radio, ntp_now = 600000002, ntp_env = sync demo_io\<rparr>"

lemma demo_mounts: "storage_init ram_api \<lparr>lfs = lfs demo_store, mounted = False\<rparr> = (True, demo_store)"
  by (simp add: storage_init_def ensure_dirs_def ram_api_def demo_store_def)

lemma demo_fw: "console_ok con \<Longrightarrow> was_connected con \<Longrightarrow> fw_ok demo_platform ram_view (con, demo_device)"
  "console_ok con \<Longrightarrow> was_connected con \<Longrightarrow> fw_ok demo_platform ram_view (con, admin_device)"
  using demo_sound
  by (simp_all add: fw_ok_def console_ok_def sound_device_def sized_def admin_device_def)

lemma demo_boots:
  obtains d0 where "main_boot demo_platform dead_radio (\<lambda>_. sync demo_io) (ntp_boot 0) (lfs demo_store) = Some d0"
    and "store_ok (flash_fs demo_platform) ram_view (lfs_crc demo_platform)
      (snd (storage_init (flash_fs demo_platform) \<lparr>lfs = lfs demo_store, mounted = False\<rparr>))"
    and "same_disk ram_view demo_store (disk d0)"
proof -
  let ?d = "boot_storage demo_platform (play boot_drivers (device_boot (ntp_boot 0) \<lparr>lfs = lfs demo_store, mounted = False\<rparr>))"
  have i: "disk ?d = demo_store"
    by (simp add: boot_storage_frame) (simp add: device_boot_def demo_mounts)
  have "initialised (wlan ?d) = False"
    by (simp add: boot_storage_frame) (simp add: device_boot_def wifi_boot_def)
  then have "\<not> boot_waits demo_platform dead_radio ?d"
    by (auto simp: boot_waits_def wifi_connect_def dead_radio_def Let_def)
  from boot_network_skips [OF _ this, of ram_view "\<lambda>_. sync demo_io"] obtain d'
      where d': "boot_network demo_platform dead_radio (\<lambda>_. sync demo_io) ?d = Some d'" "same_disk ram_view demo_store (disk d')"
    by (auto simp: ram_laws i)
  have "main_boot demo_platform dead_radio (\<lambda>_. sync demo_io) (ntp_boot 0) (lfs demo_store) = Some (play buzzer_play_boot d')"
    using d'(1) by (simp add: main_boot_def)
  moreover have "store_ok (flash_fs demo_platform) ram_view (lfs_crc demo_platform)
      (snd (storage_init (flash_fs demo_platform) \<lparr>lfs = lfs demo_store, mounted = False\<rparr>))"
    by (simp add: demo_mounts demo_store_ok)
  moreover have "same_disk ram_view demo_store (disk (play buzzer_play_boot d'))"
    using d'(2) by simp
  ultimately show thesis
    by (rule that)
qed

theorem firmware_keeps_invariant_witness:
  "\<exists>d0. main_boot demo_platform dead_radio (\<lambda>_. sync demo_io) (ntp_boot 0) (lfs demo_store) = Some d0
   \<and> store_ok ram_api ram_view sum_crc
       (disk (snd (foldl (main_loop demo_platform) (console_boot, d0) [demo_turn True, demo_turn False])))"
proof -
  obtain d0 where b: "main_boot demo_platform dead_radio (\<lambda>_. sync demo_io) (ntp_boot 0) (lfs demo_store) = Some d0"
    and s: "store_ok (flash_fs demo_platform) ram_view (lfs_crc demo_platform)
      (snd (storage_init (flash_fs demo_platform) \<lparr>lfs = lfs demo_store, mounted = False\<rparr>))"
    by (rule demo_boots)
  then show ?thesis
    using firmware_keeps_invariant [OF demo_drbg b s prod.collapse, of "[demo_turn True, demo_turn False]"]
    by (intro exI [of _ d0]) simp
qed

definition delete_line :: console where
  "delete_line = typed_line ''delete-key 5''"

lemma delete_line_ok: "console_ok delete_line" "entered delete_line = ''delete-key 5''" "was_connected delete_line"
proof -
  have "list_all printable ''delete-key 5''"
    unfolding printable_def by code_simp
  from typed_line_ok [OF _ this] show "console_ok delete_line" "entered delete_line = ''delete-key 5''"
    by (auto simp: delete_line_def)
  show "was_connected delete_line"
    by (simp add: delete_line_def typed_line_def)
qed

lemma delete_words: "words ''delete-key 5'' = [''delete-key'', ''5'']"
  unfolding words_def by code_simp

definition recovery_device :: "(ram, nat) device" where
  \<comment> \<open>the same volume, not mounted\<close>
  "recovery_device = demo_device\<lparr>disk := demo_store\<lparr>mounted := False\<rparr>\<rparr>"

definition format_line :: console where
  "format_line = typed_line ''format-storage''"

lemma format_line_ok: "console_ok format_line" "entered format_line = ''format-storage''"
proof -
  have "list_all printable ''format-storage''"
    unfolding printable_def by code_simp
  from typed_line_ok [OF _ this] show "console_ok format_line" "entered format_line = ''format-storage''"
    by (auto simp: format_line_def)
qed

lemma demo_no_confirm: "\<not> confirm_typed (command_io (tick (demo_turn u)))"
  by (simp add: demo_turn_def demo_io_def confirm_typed_def confirmed_def numeral_eq_Suc)

text \<open>A line that would delete a key, without a session; and a format in recovery mode that is not
  confirmed.\<close>

theorem stored_keys_need_login_witness:
  "key_map ram_view sum_crc (disk (snd (main_loop demo_platform (delete_line, demo_device) (demo_turn True))))
     = [5 \<mapsto> norm_key (door_key 5 True)]
   \<and> files ram_view (lfs (disk (snd (main_loop demo_platform (format_line, recovery_device) (demo_turn True)))))
     = files ram_view (lfs demo_store)"
proof
  have q: "\<forall>k < length [demo_turn True].
      \<not> login_turn demo_platform ram_view ([demo_turn True] ! k) (foldl (main_loop demo_platform) e (take k [demo_turn True]))
      \<and> \<not> format_turn ([demo_turn True] ! k) (foldl (main_loop demo_platform) e (take k [demo_turn True]))"
    if "\<not> login_turn demo_platform ram_view (demo_turn True) e" and "\<not> format_turn (demo_turn True) e" for e
    using that by simp
  note t = stored_keys_need_login [where P = demo_platform and V = ram_view, OF _ _ _ _ q prod.collapse]
  show "key_map ram_view sum_crc (disk (snd (main_loop demo_platform (delete_line, demo_device) (demo_turn True))))
     = [5 \<mapsto> norm_key (door_key 5 True)]"
    using t [of demo_device delete_line]
    by (simp add: ram_laws demo_store_ok delete_line_ok login_turn_def format_turn_def delete_words demo_key_map Let_def)
  show "files ram_view (lfs (disk (snd (main_loop demo_platform (format_line, recovery_device) (demo_turn True)))))
     = files ram_view (lfs demo_store)"
    using t [of recovery_device format_line]
    by (simp add: ram_laws recovery_device_def format_line_ok login_turn_def format_turn_def demo_no_confirm Let_def)
qed

theorem unplug_ends_session_witness:
  "admin_mode admin_device \<and> \<not> admin_mode (snd (main_loop demo_platform (delete_line, admin_device) (demo_turn False)))"
proof -
  have "\<not> halted admin_device" "\<not> usb (tick (demo_turn False))"
    by (simp_all add: admin_device_def demo_device_def device_boot_def demo_turn_def)
  then show ?thesis
    using unplug_ends_session [OF demo_drbg demo_fw(2) [OF delete_line_ok(1,3)]] admin_device_active(2) by blast
qed

definition live_radio :: cyw43 where
  "live_radio = \<lparr>arch_init = 0, connect_rc = (\<lambda>_ _. 0), link_up = True\<rparr>"

theorem boot_network_waits_witness:
  "boot_network demo_platform live_radio (\<lambda>_. reply_env) (device_boot (ntp_boot 7) demo_store) \<noteq> None
   \<and> boot_network demo_platform live_radio (\<lambda>_. reply_env\<lparr>pcb_new := False\<rparr>)
       (device_boot (ntp_boot 7) demo_store) = None"
proof -
  let ?d = "device_boot (ntp_boot 7) demo_store"
  have d: "disk ?d = demo_store" "net ?d = ntp_boot 7" "wlan ?d = wifi_boot"
    by (simp_all add: device_boot_def)
  have b: "build_time demo_platform = 1700000000"
    by (simp add: demo_platform_def)
  have "storage_wifi_get ram_api demo_store = (Some cfg, st) \<Longrightarrow> boot_waits demo_platform live_radio ?d" for cfg st
    by (simp add: boot_waits_def d wifi_connect_def live_radio_def Let_def)
  moreover have "fst (storage_wifi_get ram_api demo_store) \<noteq> None"
    using wifi_get_configured [OF ram_laws ram_reliable _ prod.collapse [symmetric], of demo_store] demo_configured by simp
  ultimately have w: "boot_waits demo_platform live_radio ?d"
    by (metis not_Some_eq prod.collapse)
  have yes: "attempt_ok 1700000000 (\<lambda>_. reply_env) 0 (ntp_boot 7) 0"
    using reply_sync by (simp add: attempt_ok_def) (metis fst_conv)
  have no: "\<not> attempt_ok 1700000000 (\<lambda>_. reply_env\<lparr>pcb_new := False\<rparr>) 0 (ntp_boot 7) n" for n
    by (simp add: attempt_ok_def ntp_sync_def Let_def)
  note t = boot_network_waits [where P = demo_platform and d = ?d and R = live_radio, unfolded demo_fields, OF ram_laws,
      unfolded d b, OF boot_ok(2)]
  show ?thesis
    using t [of "\<lambda>_. reply_env"] t [of "\<lambda>_. reply_env\<lparr>pcb_new := False\<rparr>"] w yes no by blast
qed

end
