(* ===== verification/Service.thy ===== *)
theory Service imports TwoCores Firmware
begin

text \<open>
  Core 0 of the firmware and the door. Every handler, task and boot step is \<open>quiet\<close> (it touches
  neither the mailbox nor the latch), or \<open>serves\<close>: what it does to the mailbox is a sequence of
  arriving requests and complete services (\<open>traffic\<close>), also inside the commands that wait for input,
  and it drives the latch a stated number of times. Summed over the runs of the main loop from
  boot, the services are core 0 of the protocol of \<open>Door\<close>, and the only iterations that drive the
  latch from core 0 are those in which the command \<open>test\<close> is entered.
\<close>

section \<open>Quiet operations\<close>

definition latch_pulses :: "effect list \<Rightarrow> nat" where
  "latch_pulses es = length (filter (\<lambda>e. e = GpioPut LATCH_PIN True) es)"

definition pulses :: "('fs, 'a) device \<Rightarrow> nat" where
  \<comment> \<open>how often core 0 has driven the latch\<close>
  "pulses d = latch_pulses (log d)"

lemma latch_pulses_simps [simp]:
  "latch_pulses [] = 0" "latch_pulses (e # es) = (if e = GpioPut LATCH_PIN True then 1 else 0) + latch_pulses es"
  "latch_pulses (es @ fs) = latch_pulses es + latch_pulses fs"
  by (simp_all add: latch_pulses_def)

lemma pulses_say [simp]:
  "pulses (say s d) = pulses d" "pulses (line s d) = pulses d" "pulses (play es d) = pulses d + latch_pulses es"
  by (simp_all add: pulses_def say_def line_def play_def)

lemma pulses_lines [simp]: "pulses (lines_out ss d) = pulses d"
  by (induction ss arbitrary: d) simp_all

lemma pulses_fields [simp]:
  "pulses (d\<lparr>disk := st\<rparr>) = pulses d" "pulses (d\<lparr>admin_mode := b\<rparr>) = pulses d"
  "pulses (d\<lparr>admin_deadline_us := t\<rparr>) = pulses d" "pulses (d\<lparr>net := n\<rparr>) = pulses d"
  "pulses (d\<lparr>wlan := w\<rparr>) = pulses d" "pulses (d\<lparr>mbox := m\<rparr>) = pulses d"
  "pulses (d\<lparr>last_handled_seq := q\<rparr>) = pulses d" "pulses (d\<lparr>status_keys := ks\<rparr>) = pulses d"
  "pulses (d\<lparr>login_keys := ks\<rparr>) = pulses d" "pulses (d\<lparr>list_keys := ks\<rparr>) = pulses d"
  "pulses (d\<lparr>export_buf := bs\<rparr>) = pulses d" "pulses (d\<lparr>export_b64 := t'\<rparr>) = pulses d"
  "pulses (d\<lparr>import_b64 := t'\<rparr>) = pulses d" "pulses (d\<lparr>import_buf := bs\<rparr>) = pulses d"
  "pulses (d\<lparr>qr_buf := q'\<rparr>) = pulses d" "pulses (d\<lparr>halted := b\<rparr>) = pulses d"
  by (simp_all add: pulses_def)

lemma buzzer_pulses [simp]:
  "latch_pulses buzzer_beep_short = 0" "latch_pulses buzzer_play_command_ack = 0"
  "latch_pulses buzzer_play_auth_error = 0" "latch_pulses buzzer_play_boot = 0"
  "latch_pulses buzzer_play_ntp_sync_error = 0"
  by (simp_all add: buzzer_defs LATCH_PIN_def BUZZER_PIN_def)

definition quiet :: "('fs, 'a) device \<Rightarrow> ('fs, 'a) device \<Rightarrow> bool" where
  \<comment> \<open>neither the mailbox nor the latch is touched\<close>
  "quiet d d' \<longleftrightarrow> mbox d' = mbox d \<and> last_handled_seq d' = last_handled_seq d \<and> pulses d' = pulses d"

lemmas quiet_simps = quiet_def Let_def split_def

lemma status_quiet: "quiet d (cmd_status P x argv d)"
  by (simp add: cmd_status_def status_wifi_def status_ntp_def status_key_counts_def quiet_simps split: option.split)

lemma time_quiet: "quiet d (cmd_get_time P x argv d)"
  by (simp add: cmd_get_time_def quiet_simps split: option.split)

lemma login_quiet: "quiet d (cmd_login P x argv d)"
  by (simp add: cmd_login_def login_ok_def login_refused_def commands_admin_grant_def quiet_simps split: option.split)

lemma logout_quiet: "quiet d (cmd_logout P x argv d)"
  by (simp add: cmd_logout_def quiet_simps)

lemma reboot_quiet: "quiet d (cmd_reboot P x argv d)"
  by (simp add: cmd_reboot_def quiet_simps)

lemma help_quiet: "quiet d (cmd_help P x argv d)"
  by (simp add: cmd_help_def quiet_simps)

lemma sync_quiet: "quiet d (cmd_sync_ntp P x argv d)"
  by (simp add: cmd_sync_ntp_def quiet_simps)

lemma wifi_connect_pulses [simp]: "latch_pulses (fst (snd (wifi_connect R s p w))) = 0"
  by (simp add: wifi_connect_def Let_def)

lemma set_wifi_quiet: "quiet d (cmd_set_wifi P x argv d)"
  by (simp add: cmd_set_wifi_def reconnect_def quiet_simps)

lemma list_quiet: "quiet d (cmd_list_keys P x argv d)"
  by (simp add: cmd_list_keys_def quiet_simps split: option.split list.split)

lemma find_key_quiet: "(\<And>k d'. quiet d d' \<Longrightarrow> quiet d (f k d')) \<Longrightarrow> quiet d (find_key P i f d)"
  by (simp add: find_key_def quiet_simps split: option.split)

lemma save_key_quiet [simp]: "quiet d (save_key P i k m d') = quiet d d'"
  by (simp add: save_key_def quiet_simps)

lemma ack_quiet [simp]:
  "quiet d (play buzzer_play_command_ack d') = quiet d d'" "quiet d (line s d') = quiet d d'"
  "quiet d (lines_out ss d') = quiet d d'" "quiet d (d'\<lparr>disk := st\<rparr>) = quiet d d'"
  "quiet d (d'\<lparr>qr_buf := q\<rparr>) = quiet d d'" "quiet d d"
  by (simp_all add: quiet_def)

lemmas key_command_defs = in_range_def cmd_get_key_def cmd_get_key_secret_def cmd_add_key_def cmd_rename_key_def
  cmd_enable_key_def cmd_disable_key_def cmd_delete_key_def cmd_set_key_admin_def cmd_unset_key_admin_def

lemma key_commands_quiet:
  "quiet d (cmd_get_key P x argv d)" "quiet d (cmd_get_key_secret P x argv d)" "quiet d (cmd_add_key P x argv d)"
  "quiet d (cmd_rename_key P x argv d)" "quiet d (cmd_enable_key P x argv d)" "quiet d (cmd_disable_key P x argv d)"
  "quiet d (cmd_delete_key P x argv d)" "quiet d (cmd_set_key_admin P x argv d)"
  "quiet d (cmd_unset_key_admin P x argv d)"
  by (auto simp: key_command_defs Let_def split_def intro!: find_key_quiet split: option.split)

lemma export_quiet: "quiet d (cmd_export_keys P x argv d)"
  by (simp add: cmd_export_keys_def quiet_simps split: option.split)

lemma import_text_quiet: "quiet d (import_text P x t d)"
  using export_quiet [of _ P x "[]"]
  by (simp add: import_text_def wipe_import_def quiet_simps)

lemma test_pulse:
  "mbox (cmd_test P x argv d) = mbox d" "last_handled_seq (cmd_test P x argv d) = last_handled_seq d"
  "pulses (cmd_test P x argv d) = Suc (pulses d)"
  by (simp_all add: cmd_test_def light_on_def light_off_def led_on_def led_off_def latch_open_def
      LATCH_PIN_def LIGHT_PIN_def LED_PIN_def)

section \<open>Waiting commands\<close>

lemma serve_door_pulses [simp]: "pulses (serve_door P clock d) = pulses d"
  by (simp add: serve_door_def Let_def split_def)

lemma arrive_pulses [simp]: "pulses (arrive p d) = pulses d"
  by (simp add: arrive_def split: option.split)

lemma read_confirm_pulses [simp]: "pulses (snd (read_confirm P serve ps c d)) = pulses d"
  by (induction P serve ps c d rule: read_confirm.induct) (auto simp: Let_def split: option.split)

lemma paste_loop_pulses [simp]: "pulses (snd (snd (snd (paste_loop P ps n ov ln d)))) = pulses d"
  by (induction P ps n ov ln d rule: paste_loop.induct) (auto simp: Let_def split: option.split)

inductive traffic ::
  "('fs, 'f, 'c) platform \<Rightarrow> ('fs, 'a) device \<Rightarrow> (u32 \<times> u16 \<times> u32) list \<Rightarrow> ('fs, 'a) device \<Rightarrow> bool"
  for P :: "('fs, 'f, 'c) platform" and d :: "('fs, 'a) device" where
  \<comment> \<open>what core 0 does to the mailbox: leave it, receive a request, or service it\<close>
  start: "traffic P d [] d"
| internal: "traffic P d qs e \<Longrightarrow> mbox e' = mbox e \<Longrightarrow> last_handled_seq e' = last_handled_seq e \<Longrightarrow> traffic P d qs e'"
| request: "traffic P d qs e \<Longrightarrow> posted p = Some q \<Longrightarrow> traffic P d (qs @ [q]) (arrive p e)"
| service: "traffic P d qs e \<Longrightarrow> traffic P d qs (serve_door P clock e)"

lemma traffic_trans: "traffic P e rs e' \<Longrightarrow> traffic P d qs e \<Longrightarrow> traffic P d (qs @ rs) e'"
proof (induction rule: traffic.induct)
  case (request rs e' p q)
  then show ?case
    using traffic.request [of P d "qs @ rs"] by simp
qed (auto intro: traffic.intros)

definition talks :: "('fs, 'f, 'c) platform \<Rightarrow> ('fs, 'a) device \<Rightarrow> ('fs, 'a) device \<Rightarrow> bool" where
  "talks P d d' \<longleftrightarrow> (\<exists>qs. traffic P d qs d')"

lemma talks_refl [simp]: "talks P d d"
  unfolding talks_def by (blast intro: traffic.start)

lemma talks_trans [trans]: "talks P d e \<Longrightarrow> talks P e e' \<Longrightarrow> talks P d e'"
  unfolding talks_def by (blast intro: traffic_trans)

lemma talks_same: "talks P d e \<Longrightarrow> mbox e' = mbox e \<Longrightarrow> last_handled_seq e' = last_handled_seq e \<Longrightarrow> talks P d e'"
  unfolding talks_def by (blast intro: traffic.internal)

lemma talks_quiet: "quiet d d' \<Longrightarrow> talks P d d'"
  by (rule talks_same [OF talks_refl]) (simp_all add: quiet_def)

lemma talks_serve: "talks P d e \<Longrightarrow> talks P d (serve_door P clock e)"
  unfolding talks_def by (blast intro: traffic.service)

lemma talks_arrive: "talks P d e \<Longrightarrow> talks P d (arrive p e)"
proof (cases "posted p")
  case None
  then show "talks P d e \<Longrightarrow> ?thesis"
    by (simp add: arrive_def)
qed (auto simp: talks_def intro: traffic.request)

lemma talks_frame [simp]:
  "talks P d e \<Longrightarrow> talks P d (say s e)" "talks P d e \<Longrightarrow> talks P d (line s e)" "talks P d e \<Longrightarrow> talks P d (play es e)"
  "talks P d e \<Longrightarrow> talks P d (lines_out ss e)"
  by (erule talks_same; simp)+

lemma read_confirm_talks: "talks P d e \<Longrightarrow> talks P d (snd (read_confirm P serve ps c e))"
  by (induction P serve ps c e rule: read_confirm.induct)
    (auto simp: Let_def talks_serve talks_arrive split: option.split)

lemma talks_import_b64 [simp]: "talks P d e \<Longrightarrow> talks P d (e\<lparr>import_b64 := t\<rparr>)"
  by (erule talks_same; simp)

lemma paste_loop_talks: "talks P d e \<Longrightarrow> talks P d (snd (snd (snd (paste_loop P ps n ov ln e))))"
  by (induction P ps n ov ln e rule: paste_loop.induct)
    (auto simp: Let_def talks_serve talks_arrive split: option.split)

lemma format_talks: "talks P d (cmd_format_storage P x argv d)" "pulses (cmd_format_storage P x argv d) = pulses d"
  using read_confirm_talks [of P d "say ''type CONFIRM to proceed: '' (line ''*** WARNING: this will permanently delete ALL keys ***'' d)"
      True "confirm_polls x" "[]"]
  by (auto simp: cmd_format_storage_def Let_def split_def intro: talks_same)

lemma import_talks: "talks P d (cmd_import_keys P x argv d) \<and> pulses (cmd_import_keys P x argv d) = pulses d"
proof -
  let ?d1 = "say ''type CONFIRM to proceed: '' (line ''*** WARNING: import overwrites ALL current keys ***'' d)"
  obtain c d2 where c: "read_confirm P False (confirm_polls x) [] ?d1 = (c, d2)"
    by fastforce
  let ?d3 = "line ''paste import data, then send empty line:'' (cmd_export_keys P x [] (line ''backing up current keys...'' d2))"
  obtain n ov ln d4 where p: "paste_loop P (paste_polls x) 0 False [] ?d3 = (n, ov, ln, d4)"
    by (metis prod_cases4)
  have d2: "talks P d d2" "pulses d2 = pulses d"
    using read_confirm_talks [of P d ?d1 False "confirm_polls x" "[]"] read_confirm_pulses [of P False "confirm_polls x" "[]" ?d1] c
    by simp_all
  then have "talks P d ?d3" "pulses ?d3 = pulses d"
    using export_quiet [of "line ''backing up current keys...'' d2" P x "[]"] by (auto simp: quiet_def intro: talks_same)
  then have d4: "talks P d d4" "pulses d4 = pulses d"
    using paste_loop_talks [of P d ?d3 "paste_polls x" 0 False "[]"]
      paste_loop_pulses [of P "paste_polls x" 0 False "[]" ?d3] p by simp_all
  have "quiet d4 (import_text P x t d4)" for t
    by (rule import_text_quiet)
  then have i: "talks P d (import_text P x t d4)" "pulses (import_text P x t d4) = pulses d" for t
    using talks_same [OF d4(1)] d4(2) by (simp_all add: quiet_def)
  have "cmd_import_keys P x argv d =
     (if \<not> confirmed c then ack (line ''error: aborted'' d2)
      else if ov then ack (line ''error: import data too large'' d4)
      else if n = 0 then ack ((line ''error: no data received'' d4)\<lparr>import_b64 := wiped_text\<rparr>)
      else import_text P x (take n (import_b64 d4)) d4)"
    by (simp only: cmd_import_keys_def Let_def c p prod.case)
  then show ?thesis
    using d2 d4 i by simp
qed

section \<open>Dispatch\<close>

definition serves :: "('fs, 'f, 'c) platform \<Rightarrow> nat \<Rightarrow> ('fs, 'a) device \<Rightarrow> ('fs, 'a) device \<Rightarrow> bool" where
  \<comment> \<open>core 0 keeps to the mailbox protocol and drives the latch so many times\<close>
  "serves P n d d' \<longleftrightarrow> talks P d d' \<and> pulses d' = pulses d + n"

lemma serves_trans [trans]: "serves P m d e \<Longrightarrow> serves P n e e' \<Longrightarrow> serves P (m + n) d e'"
  by (auto simp: serves_def intro: talks_trans)

lemma serves_quiet: "quiet d d' \<Longrightarrow> serves P 0 d d'"
  using talks_quiet by (auto simp: serves_def quiet_def)

lemma serves_frame [simp]:
  "serves P n d e \<Longrightarrow> serves P n d (line s e)" "serves P n d e \<Longrightarrow> serves P n d (say s e)"
  "serves P n d e \<Longrightarrow> serves P n d (play buzzer_play_command_ack e)" "serves P 0 d d"
  "serves P n d e \<Longrightarrow> serves P n d (commands_admin_grant t e)"
  "serves P n d e \<Longrightarrow> serves P n d (e\<lparr>admin_mode := b, admin_deadline_us := t\<rparr>)"
  by (auto simp: serves_def commands_admin_grant_def intro: talks_same)

lemma run_command_serves:
  assumes "serves P n d (h argv d)" and "requires_admin cmd \<Longrightarrow> n = 0"
  shows "serves P (if min_args cmd \<le> int (length argv) - 1 \<and> int (length argv) - 1 \<le> max_args cmd then n else 0) d
    (run_command x cmd h argv d)"
  using assms by (auto simp: run_command_def expired_active Let_def not_less not_le)

lemma run_command_quiet:
  assumes "serves P 0 d (h argv d)"
  shows "serves P 0 d (run_command x cmd h argv d)"
  using run_command_serves [where n = 0 and h = h, OF assms] by (simp split: if_splits)

definition dispatch_pulses :: "string list \<Rightarrow> nat" where
  "dispatch_pulses argv = (if argv = [''test''] then 1 else 0)"

lemma handler_serves:
  "serves P 0 d (cmd_help P x argv d)" "serves P 0 d (cmd_status P x argv d)" "serves P 1 d (cmd_test P x argv d)"
  "serves P 0 d (cmd_login P x argv d)" "serves P 0 d (cmd_logout P x argv d)" "serves P 0 d (cmd_reboot P x argv d)"
  "serves P 0 d (cmd_get_time P x argv d)" "serves P 0 d (cmd_sync_ntp P x argv d)"
  "serves P 0 d (cmd_set_wifi P x argv d)" "serves P 0 d (cmd_list_keys P x argv d)"
  "serves P 0 d (cmd_get_key P x argv d)" "serves P 0 d (cmd_get_key_secret P x argv d)"
  "serves P 0 d (cmd_add_key P x argv d)" "serves P 0 d (cmd_rename_key P x argv d)"
  "serves P 0 d (cmd_enable_key P x argv d)" "serves P 0 d (cmd_disable_key P x argv d)"
  "serves P 0 d (cmd_delete_key P x argv d)" "serves P 0 d (cmd_set_key_admin P x argv d)"
  "serves P 0 d (cmd_unset_key_admin P x argv d)" "serves P 0 d (cmd_export_keys P x argv d)"
  "serves P 0 d (cmd_import_keys P x argv d)" "serves P 0 d (cmd_format_storage P x argv d)"
proof -
  show "serves P 1 d (cmd_test P x argv d)"
    using talks_same [OF talks_refl test_pulse(1,2)] by (simp add: serves_def test_pulse(3))
  show "serves P 0 d (cmd_import_keys P x argv d)" "serves P 0 d (cmd_format_storage P x argv d)"
    by (simp_all add: serves_def import_talks format_talks)
qed (simp_all add: serves_quiet help_quiet status_quiet login_quiet logout_quiet reboot_quiet time_quiet sync_quiet
    set_wifi_quiet list_quiet key_commands_quiet export_quiet)

lemma dispatch_serves:
  assumes "mounted (disk d)" and "argv \<noteq> []"
  shows "serves P (dispatch_pulses argv) d (commands_dispatch P x argv d)"
proof -
  have test: "serves P (dispatch_pulses argv) d (run_command x (command ''test'' False 0 0 u s) (cmd_test P x) argv d)"
    if "argv ! 0 = ''test''" for u s
  proof -
    let ?c = "command ''test'' False 0 0 u s"
    have "(if min_args ?c \<le> int (length argv) - 1 \<and> int (length argv) - 1 \<le> max_args ?c then 1 else 0) =
        dispatch_pulses argv"
      using that assms(2) by (cases argv) (auto simp: dispatch_pulses_def)
    then show ?thesis
      using run_command_serves [where h = "cmd_test P x" and cmd = ?c, OF handler_serves(3), of argv d x] by simp
  qed
  have other: "dispatch_pulses argv = 0" if "argv ! 0 \<noteq> ''test''"
    using that by (auto simp: dispatch_pulses_def)
  have "serves P (dispatch_pulses argv) d (dispatch_loop x (zip COMMANDS (HANDLERS P x)) argv d)"
  proof (cases "argv ! 0 = ''test''")
    case True
    show ?thesis
      by (rule dispatch_loop_hit) (use True test in \<open>simp_all add: table\<close>)
  next
    case False
    show ?thesis
      by (rule dispatch_loop_rule) (use False other in \<open>simp_all add: table run_command_quiet handler_serves\<close>)
  qed
  then show ?thesis
    using assms(1) by (simp add: commands_dispatch_def storage_is_mounted_def)
qed

section \<open>The main loop\<close>

lemma serves_prompt [simp]: "serves P n d e \<Longrightarrow> serves P n d (print_prompt e)"
  by (simp add: print_prompt_def)

lemma enter_serves:
  assumes "mounted (disk d)"
  shows "serves P (dispatch_pulses (take 8 (words l))) d (enter_effect P x l d)"
proof (cases "take 8 (words l) = []")
  case False
  have "serves P 0 d (say CRLF d)"
    by simp
  from serves_trans [OF this dispatch_serves [OF _ False]] assms show ?thesis
    using False by (simp add: enter_effect_def Let_def)
qed (simp add: enter_effect_def dispatch_pulses_def Let_def)

lemma greeted_serves: "serves P 0 d (greeted con d)"
proof -
  have "quiet d (print_prompt (banner d))"
    by (simp add: quiet_def banner_def print_prompt_def)
  then show ?thesis
    by (simp add: greeted_def serves_quiet)
qed

lemma disconnect_serves: "serves P 0 d (commands_on_disconnect d)"
  by (simp add: commands_on_disconnect_def)

definition test_turn :: "'a turn \<Rightarrow> console \<times> ('fs, 'a) device \<Rightarrow> bool" where
  \<comment> \<open>Enter is typed on the line \<open>test\<close>\<close>
  "test_turn t e \<longleftrightarrow> (let (con, d) = e in
     \<not> halted d \<and> usb (tick t) \<and> (\<exists>c. typed (tick t) = Some c \<and> is_enter c) \<and>
     take 8 (words (entered con)) = [''test''])"

lemma console_task_serves:
  assumes "console_ok con" and "\<not> halted d" and "mounted (disk d)"
  shows "serves P (if test_turn t (con, d) then 1 else 0) d (snd (console_task P (tick t) (con, d)))"
proof (cases "usb (tick t)")
  case False
  then show ?thesis
    using disconnect_serves [of P d] by (simp add: console_task_cases test_turn_def)
next
  case True
  note task = console_task_cases(1) [OF True, of P con d]
  let ?con = "con\<lparr>was_connected := True\<rparr>" and ?d = "greeted con d"
  show ?thesis
  proof (cases "typed (tick t)")
    case None
    then show ?thesis
      using greeted_serves by (simp add: task test_turn_def)
  next
    case (Some c)
    obtain con' d' where k: "key_typed P (command_io (tick t)) c (?con, ?d) = (con', d')"
      by fastforce
    have test: "(if test_turn t (con, d) then 1 else 0) =
        (if is_enter c then dispatch_pulses (take 8 (words (entered con))) else 0)"
      using True Some assms(2) by (simp add: test_turn_def dispatch_pulses_def)
    have d': "d' = (if is_enter c
        then if entered con = [] then print_prompt (say CRLF ?d) else enter_effect P (command_io (tick t)) (entered con) ?d
        else if echo c (entered con) = [] then ?d else say (echo c (entered con)) ?d)"
      using editor_refines [OF _ _ k] assms(1,2) by simp
    have "serves P (if test_turn t (con, d) then 1 else 0) ?d d'"
      unfolding test d' using enter_serves [of ?d P "entered con"] assms(3)
      by (auto simp: dispatch_pulses_def)
    from serves_trans [OF greeted_serves this] show ?thesis
      by (simp add: task Some k)
  qed
qed

lemma wifi_task_pulses [simp]: "latch_pulses (fst (wifi_task L R now now2 e)) = 0"
  by (cases e) (auto simp: wifi_task_def Let_def split_def split: option.split)

lemma after_tasks_serves: "serves P 0 d (after_tasks P t d)"
  by (rule serves_quiet) (simp add: after_tasks_def run_ntp_task_def run_wifi_task_def quiet_simps)

lemma serves_after: "serves P n d e \<Longrightarrow> serves P n d (after_tasks P t e)"
  using serves_trans [OF _ after_tasks_serves] by fastforce

lemma door_served_serves: "serves P 0 d (door_served P t d)"
  by (simp add: door_served_def serves_def talks_serve talks_arrive)

lemma main_loop_serves:
  assumes ok: "fw_ok P V e"
  shows "serves P (if test_turn t e then 1 else 0) (snd e) (snd (main_loop P e t))"
proof -
  obtain con d where e: "e = (con, d)"
    by fastforce
  show ?thesis
  proof (cases "halted d")
    case True
    then show ?thesis
      by (simp add: e main_loop_parts(2) test_turn_def)
  next
    case False
    let ?d = "door_served P t d"
    note frame = door_served_frame [OF fw_ok_laws [OF ok [unfolded e]], where d = d and t = t]
    have "mounted (disk d)" "console_ok con"
      using ok False by (simp_all add: e fw_ok_def sound_device_def store_ok_def)
    then have task: "serves P (if test_turn t (con, ?d) then 1 else 0) ?d (snd (console_task P (tick t) (con, ?d)))"
      using frame False by (intro console_task_serves) (simp_all add: same_disk_def)
    have "test_turn t (con, ?d) = test_turn t e"
      using frame(4) by (simp add: test_turn_def e)
    with serves_trans [OF door_served_serves task]
    have "serves P (if test_turn t e then 1 else 0) d (snd (console_task P (tick t) (con, ?d)))"
      by simp
    with serves_after [OF this, of t] show ?thesis
      by (simp add: e main_loop_parts(1) [OF False] split_def split: if_splits)
  qed
qed

fun test_turns :: "('fs, 'f, 'c) platform \<Rightarrow> console \<times> ('fs, 'a) device \<Rightarrow> 'a turn list \<Rightarrow> nat" where
  \<comment> \<open>how many iterations of a run are test turns\<close>
  "test_turns P e [] = 0"
| "test_turns P e (t # ts) = (if test_turn t e then 1 else 0) + test_turns P (main_loop P e t) ts"

lemma run_serves:
  assumes "fw_ok P V e" and "drbg_sound (drbg P)"
  shows "serves P (test_turns P e ts) (snd e) (snd (foldl (main_loop P) e ts))"
  using assms(1)
proof (induction ts arbitrary: e)
  case (Cons t ts)
  show ?case
    using serves_trans [OF main_loop_serves [OF Cons.prems] Cons.IH [OF main_loop_ok(1) [OF Cons.prems assms(2)]]]
    by simp
qed simp

section \<open>Core 0 of the protocol\<close>

definition matches :: "('fs, 'a) device \<Rightarrow> 'e door \<Rightarrow> bool" where
  \<comment> \<open>the device between two services, as a state of the protocol between two attempts\<close>
  "matches d s \<longleftrightarrow> mb s = mbox d \<and> last_handled s = last_handled_seq d \<and> core0 s = Idle \<and> core1 s = Input"

abbreviation verdict_of :: "('fs, 'f, 'c) platform \<Rightarrow> u16 \<Rightarrow> u32 \<Rightarrow> 'fs store \<times> datetime_t option \<Rightarrow> bool" where
  "verdict_of P \<equiv> \<lambda>i c e. fst (door_verdict (flash_fs P) (lfs_crc P) (hmac_sha1 P) i c e)"

lemma serve_door_idle:
  "request_seq (mbox d) = last_handled_seq d \<Longrightarrow>
     mbox (serve_door P clock d) = mbox d \<and> last_handled_seq (serve_door P clock d) = last_handled_seq d"
  by (simp add: serve_door_def core0_handle_door_verify_def)

lemma serve_door_answer:
  "request_seq (mbox d) \<noteq> last_handled_seq d \<Longrightarrow>
     mbox (serve_door P clock d) = (mbox d)\<lparr>response_granted := verdict_of P (request_id (mbox d)) (request_code (mbox d)) (disk d, clock),
       response_seq := request_seq (mbox d)\<rparr> \<and>
     last_handled_seq (serve_door P clock d) = request_seq (mbox d)"
  by (simp add: serve_door_def core0_handle_door_verify_def Let_def split_def)

lemma service_steps:
  assumes "matches d s"
  shows "\<exists>s'. (door_step (verdict_of P))\<^sup>*\<^sup>* s s' \<and> matches (serve_door P clock d) s' \<and>
    next_seq s' = next_seq s \<and> attempts s' = attempts s \<and> submitted s' = submitted s"
proof (cases "request_seq (mbox d) = last_handled_seq d")
  case True
  then show ?thesis
    using assms serve_door_idle [OF True, of P clock] by (intro exI [of _ s]) (simp add: matches_def)
next
  case False
  let ?e = "s\<lparr>env := (disk d, clock)\<rparr>"
  have m: "mb ?e = mbox d" "last_handled ?e = last_handled_seq d" "core0 ?e = Idle" "core1 ?e = Input"
    using assms by (simp_all add: matches_def)
  let ?s = "?e\<lparr>mb := fst (snd (core0_handle_door_verify (\<lambda>i c e. (verdict_of P i c e, e)) (last_handled ?e) (mb ?e) (env ?e))),
       last_handled := fst (core0_handle_door_verify (\<lambda>i c e. (verdict_of P i c e, e)) (last_handled ?e) (mb ?e) (env ?e)),
       verdicts := (request_seq (mb ?e), request_id (mb ?e), request_code (mb ?e), env ?e,
          verdict_of P (request_id (mb ?e)) (request_code (mb ?e)) (env ?e)) # verdicts ?e\<rparr>"
  have "door_step (verdict_of P) s ?e"
    by (rule door_step.environment)
  moreover have "(door_step (verdict_of P))\<^sup>*\<^sup>* ?e ?s"
    using False m by (intro others_steps core0_steps) simp_all
  ultimately have "(door_step (verdict_of P))\<^sup>*\<^sup>* s ?s"
    by (rule converse_rtranclp_into_rtranclp)
  moreover have "matches (serve_door P clock d) ?s"
    using serve_door_answer [OF False, of P clock] False m
    by (simp add: matches_def core0_handle_door_verify_def Let_def)
  ultimately show ?thesis
    by (intro exI [of _ ?s]) simp
qed

lemma request_steps:
  assumes "matches d s" and "posted p = Some (n, i, c)" and "n = next_seq s + 1"
  shows "\<exists>s'. (door_step decide)\<^sup>*\<^sup>* s s' \<and> matches (arrive p d) s' \<and>
    next_seq s' = n \<and> attempts s' = Suc (attempts s) \<and> submitted s' = (n, i, c) # submitted s"
proof -
  have m: "mb s = mbox d" "last_handled s = last_handled_seq d" "core0 s = Idle" "core1 s = Input"
    using assms(1) by (simp_all add: matches_def)
  let ?b = "s\<lparr>next_seq := n, attempts := Suc (attempts s), submitted := (n, i, c) # submitted s\<rparr>"
  let ?w = "?b\<lparr>mb := (mb s)\<lparr>request_id := i, request_code := c, request_seq := n\<rparr>, core1 := Wait n i c\<rparr>"
  have "(door_step decide)\<^sup>*\<^sup>* s ?w"
    using submit_steps(1) [OF m(4) rtranclp.rtrancl_refl assms(3) rtranclp.rtrancl_refl rtranclp.rtrancl_refl
        rtranclp.rtrancl_refl, of decide i c] by simp
  also have "door_step decide ?w (?w\<lparr>core1 := Input\<rparr>)"
    by (rule door_step.timeout) simp
  finally show ?thesis
    using m assms(2) by (intro exI [of _ "?w\<lparr>core1 := Input\<rparr>"]) (simp add: matches_def arrive_def)
qed

definition numbered :: "(u32 \<times> u16 \<times> u32) list \<Rightarrow> bool" where
  \<comment> \<open>as core 1 numbers its requests\<close>
  "numbered qs \<longleftrightarrow> map fst qs = map (\<lambda>k. of_nat (Suc k)) [0..<length qs]"

lemma numbered_snoc: "numbered (qs @ [q]) \<longleftrightarrow> numbered qs \<and> fst q = of_nat (Suc (length qs))"
  by (simp add: numbered_def)

lemma traffic_steps:
  assumes "traffic P d qs d'" and "matches d s" and "next_seq s = 0" and "attempts s = 0" and "submitted s = []"
    and "numbered qs"
  shows "\<exists>s'. (door_step (verdict_of P))\<^sup>*\<^sup>* s s' \<and> matches d' s' \<and> next_seq s' = of_nat (length qs) \<and>
    attempts s' = length qs \<and> submitted s' = rev qs"
  using assms(1,6)
proof (induction rule: traffic.induct)
  case start
  then show ?case
    using assms(2-5) by (intro exI [of _ s]) simp
next
  case (internal qs e e')
  then show ?case
    by (auto simp: matches_def)
next
  case (request qs e p q)
  obtain s1 where s1: "(door_step (verdict_of P))\<^sup>*\<^sup>* s s1" "matches e s1" "next_seq s1 = of_nat (length qs)"
    "attempts s1 = length qs" "submitted s1 = rev qs"
    using request.IH request.prems by (auto simp: numbered_snoc)
  obtain n i c where q: "q = (n, i, c)"
    by (rule prod_cases3)
  have "n = next_seq s1 + 1"
    using request.prems s1(3) by (simp add: numbered_snoc q)
  from request_steps [OF s1(2) request.hyps(2) [unfolded q] this, of "verdict_of P"] obtain s2 where
    s2: "(door_step (verdict_of P))\<^sup>*\<^sup>* s1 s2" "matches (arrive p e) s2" "next_seq s2 = n"
    "attempts s2 = Suc (attempts s1)" "submitted s2 = (n, i, c) # submitted s1"
    by blast
  show ?case
    using rtranclp_trans [OF s1(1) s2(1)] s2(2-5) s1(3-5) request.prems
    by (intro exI [of _ s2]) (simp add: numbered_snoc q)
next
  case (service qs e clock)
  then obtain s1 where s1: "(door_step (verdict_of P))\<^sup>*\<^sup>* s s1" "matches e s1" "next_seq s1 = of_nat (length qs)"
    "attempts s1 = length qs" "submitted s1 = rev qs"
    by blast
  from service_steps [OF s1(2), of P clock] obtain s2 where
    "(door_step (verdict_of P))\<^sup>*\<^sup>* s1 s2" "matches (serve_door P clock e) s2" "next_seq s2 = next_seq s1"
    "attempts s2 = attempts s1" "submitted s2 = submitted s1"
    by blast
  then show ?case
    using rtranclp_trans [OF s1(1)] s1(3-5) by (intro exI [of _ s2]) simp
qed

lemma traffic_last:
  "traffic P d qs d' \<Longrightarrow> qs \<noteq> [] \<Longrightarrow> (request_seq (mbox d'), request_id (mbox d'), request_code (mbox d')) = last qs"
proof (induction rule: traffic.induct)
  case (service qs e clock)
  then show ?case
    using serve_door_idle [of e P clock] serve_door_answer [of e P clock]
    by (cases "request_seq (mbox e) = last_handled_seq e") auto
qed (auto simp: arrive_def)

lemma answered_verified:
  assumes "traffic P d qs d'" and "mbox d = mailbox_boot" and "last_handled_seq d = 0"
    and "numbered qs" and "length qs < 2 ^ 32"
  shows "(\<exists>s. door_reachable (verdict_of P) e0 s \<and> matches d' s \<and> submitted s = rev qs)
    \<and> (\<forall>n i c. qs \<noteq> [] \<and> last qs = (n, i, c) \<and> response_seq (mbox d') = n \<and> response_granted (mbox d') \<longrightarrow>
        (\<exists>st rtc key. fst (storage_key_get (flash_fs P) (lfs_crc P) i st) = Some key
          \<and> is_checksum_valid key \<and> is_enabled key \<and> totp_verify (hmac_sha1 P) rtc (secret key) c))"
proof -
  have "matches d (door_boot e0)"
    using assms(2,3) by (simp add: matches_def door_boot_def)
  then obtain s where r: "door_reachable (verdict_of P) e0 s" and m: "matches d' s" "next_seq s = of_nat (length qs)"
    "attempts s = length qs" "submitted s = rev qs"
    using traffic_steps [OF assms(1) _ _ _ _ assms(4), of "door_boot e0"] by (auto simp: door_boot_def)
  note inv = door_reachable_inv [OF r, unfolded m(3), OF assms(5)]
  have "\<exists>st rtc key. fst (storage_key_get (flash_fs P) (lfs_crc P) i st) = Some key
      \<and> is_checksum_valid key \<and> is_enabled key \<and> totp_verify (hmac_sha1 P) rtc (secret key) c"
    if q: "qs \<noteq> []" "last qs = (n, i, c)" "response_seq (mbox d') = n" "response_granted (mbox d')" for n i c
  proof -
    have mb: "mb s = mbox d'"
      using m(1) by (simp add: matches_def)
    have l: "request_seq (mbox d') = n" "request_id (mbox d') = i" "request_code (mbox d') = c"
      using traffic_last [OF assms(1) q(1)] q(2) by simp_all
    have "unat (request_seq (mbox d')) = attempts s"
      using inv m(1) by (simp add: door_inv_def matches_def)
    then have "justified (set (verdicts s)) (next_seq s) i c True"
      using inv q l m(3) by (simp add: door_inv_def mb)
    then obtain e where "verdict_of P i c e"
      using inv unfolding door_inv_def justified_def by fastforce
    then show ?thesis
      using verdict_yes by (cases e) blast
  qed
  then show ?thesis
    using r m(1,4) by blast
qed

section \<open>Boot\<close>

lemma await_sync_pulses:
  assumes "await_sync build envs k es s = Some r"
  shows "latch_pulses (fst r) = latch_pulses es"
proof (rule await_sync.raw_induct [OF _ assms, where P = "\<lambda>build envs k es s r. latch_pulses (fst r) = latch_pulses es"])
  fix f :: "u32 \<Rightarrow> (nat \<Rightarrow> 'a sync_env) \<Rightarrow> nat \<Rightarrow> effect list \<Rightarrow> 'a ntp \<Rightarrow> (effect list \<times> 'a ntp) option"
    and build k es s r and envs :: "nat \<Rightarrow> 'a sync_env"
  assume ih: "\<And>build envs k es s r. f build envs k es s = Some r \<Longrightarrow> latch_pulses (fst r) = latch_pulses es"
    and body: "(case ntp_sync build (envs k) s of (ok, s') \<Rightarrow>
      if ok then Some (es, s')
      else f build envs (Suc k)
             (es @ Out retry_line # buzzer_beep_short @ [SleepMs (NTP_RETRY_INTERVAL_S * 1000)]) s') = Some r"
  show "latch_pulses (fst r) = latch_pulses es"
  proof (cases "fst (ntp_sync build (envs k) s)")
    case False
    then have "latch_pulses (fst r) =
        latch_pulses (es @ Out retry_line # buzzer_beep_short @ [SleepMs (NTP_RETRY_INTERVAL_S * 1000)])"
      using body by (intro ih) (simp add: split_def)
    then show ?thesis
      by simp
  qed (use body in \<open>auto simp: split_def\<close>)
qed

lemma latch_pulses_repeat [simp]: "latch_pulses (concat (replicate n es)) = n * latch_pulses es"
  by (induction n) simp_all

lemma boot_pulses [simp]:
  "latch_pulses buzzer_beep_long = 0" "latch_pulses storage_alarm = 0" "latch_pulses boot_drivers = 0"
  by (simp_all add: storage_alarm_def boot_drivers_def latch_init_def light_init_def led_init_def light_off_def
      led_off_def buzzer_defs LATCH_PIN_def BUZZER_PIN_def LIGHT_PIN_def LED_PIN_def)

lemma boot_network_quiet:
  assumes "boot_network P R envs d = Some d'"
  shows "quiet d d'"
proof -
  obtain c st where g: "storage_wifi_get (flash_fs P) (disk d) = (c, st)"
    by fastforce
  show ?thesis
  proof (cases c)
    case None
    then have "d' = play buzzer_beep_long (lines_out
        [''[main] no wifi config - skipping NTP'', ''[main] use set-wifi to configure''] (d\<lparr>disk := st\<rparr>))"
      using assms by (simp add: boot_network_def g del: lines_out.simps)
    then show ?thesis
      by (simp add: quiet_def del: lines_out.simps)
  next
    case (Some cfg)
    obtain ok es w where w: "wifi_connect R (ssid cfg) (password cfg) (wlan d) = (ok, es, w)"
      by (metis prod_cases3)
    then have es: "latch_pulses es = 0"
      using wifi_connect_pulses [of R "ssid cfg" "password cfg" "wlan d"] by simp
    show ?thesis
    proof (cases ok)
      case False
      then show ?thesis
        using assms es by (auto simp: boot_network_def g Some w quiet_simps)
    next
      case True
      then obtain r where "await_sync (build_time P) envs 0 [] (net d) = Some r"
        and "d' = line ''[main] NTP sync ok'' (play (fst r)
          ((line ''[main] waiting for NTP sync...'' (play es (d\<lparr>disk := st, wlan := w\<rparr>)))\<lparr>net := snd r\<rparr>))"
        using assms by (auto simp: boot_network_def g Some w Let_def split_def map_option_eq_Some)
      then show ?thesis
        using await_sync_pulses [of "build_time P" envs 0 "[]" "net d" r] es by (simp add: quiet_def)
    qed
  qed
qed

lemma main_boot_idle:
  assumes "main_boot P R envs n fs = Some d"
  shows "mbox d = mailbox_boot" and "last_handled_seq d = 0" and "pulses d = 0"
proof -
  let ?d0 = "device_boot n \<lparr>lfs = fs, mounted = False\<rparr>"
  let ?d1 = "boot_storage P (play boot_drivers ?d0)"
  obtain d2 where d2: "boot_network P R envs ?d1 = Some d2" "d = play buzzer_play_boot d2"
    using assms by (auto simp: main_boot_def)
  have "quiet ?d0 ?d1"
    by (simp add: boot_storage_def quiet_simps del: lines_out.simps)
  moreover have "mbox ?d0 = mailbox_boot" "last_handled_seq ?d0 = 0" "pulses ?d0 = 0"
    by (simp_all add: device_boot_def pulses_def)
  ultimately show "mbox d = mailbox_boot" "last_handled_seq d = 0" "pulses d = 0"
    using boot_network_quiet [OF d2(1)] by (simp_all add: quiet_def d2(2))
qed

section \<open>Properties\<close>

text \<open>C10: core 0 as the firmware runs it is the core 0 of the protocol: over any run of the main
  loop from a boot that mounts a sound volume, whatever is typed, pasted, connected or received meanwhile, the mailbox changes
  only by requests of core 1 and by complete services; and if core 1 numbers its requests in order,
  the run is one of the step relation of the two cores, and a granted answer to the last request
  stands for a record that was found sound and enabled and accepts the code.\<close>

theorem firmware_serves_protocol:
  assumes "drbg_sound (drbg P)" and "main_boot P R envs n fs = Some d0"
    and "store_ok (flash_fs P) V (lfs_crc P) (snd (storage_init (flash_fs P) \<lparr>lfs = fs, mounted = False\<rparr>))"
    and "(con, d) = foldl (main_loop P) (console_boot, d0) ts"
  shows "(\<exists>qs. traffic P d0 qs d)
    \<and> (\<forall>qs. traffic P d0 qs d \<and> numbered qs \<and> length qs < 2 ^ 32 \<longrightarrow>
        (\<exists>s. door_reachable (verdict_of P) e0 s \<and> matches d s \<and> submitted s = rev qs)
      \<and> (\<forall>m i c. qs \<noteq> [] \<and> last qs = (m, i, c) \<and> response_seq (mbox d) = m \<and> response_granted (mbox d) \<longrightarrow>
          (\<exists>st rtc key. fst (storage_key_get (flash_fs P) (lfs_crc P) i st) = Some key
            \<and> is_checksum_valid key \<and> is_enabled key \<and> totp_verify (hmac_sha1 P) rtc (secret key) c)))"
proof -
  have "fw_ok P V (console_boot, d0)"
    using main_boot_ok [OF assms(2,3)] by simp
  from run_serves [OF this assms(1), of ts] have "talks P d0 d"
    by (simp add: serves_def assms(4) [symmetric])
  then show ?thesis
    using answered_verified [OF _ main_boot_idle(1,2) [OF assms(2)]] unfolding talks_def by blast
qed

text \<open>C9: from a boot that mounts a sound volume, core 0 drives the latch exactly once for each iteration in which Enter is typed on the
  line \<open>test\<close>, whether or not there is an admin session, and at no other time: neither boot nor any
  other command, task or error path does.\<close>

theorem core0_latch_only_by_test:
  assumes "drbg_sound (drbg P)" and "main_boot P R envs n fs = Some d0"
    and "store_ok (flash_fs P) V (lfs_crc P) (snd (storage_init (flash_fs P) \<lparr>lfs = fs, mounted = False\<rparr>))"
    and "(con, d) = foldl (main_loop P) (console_boot, d0) ts"
  shows "pulses d = test_turns P (console_boot, d0) ts"
proof -
  have "fw_ok P V (console_boot, d0)"
    using main_boot_ok [OF assms(2,3)] by simp
  from run_serves [OF this assms(1), of ts] show ?thesis
    by (simp add: serves_def assms(4) [symmetric] main_boot_idle(3) [OF assms(2)])
qed

section \<open>Evaluations\<close>

definition key_turn :: "char \<Rightarrow> nat turn" where
  \<comment> \<open>one key is typed; the network is dead\<close>
  "key_turn c = (demo_turn True)\<lparr>door_poll := \<lparr>posted = None, door_clock = Some minute_one, got = None\<rparr>,
     tick := \<lparr>usb = True, typed = Some c, command_io = demo_io\<rparr>\<rparr>"

lemma key_turn_tick [simp]: "tick (key_turn c) = \<lparr>usb = True, typed = Some c, command_io = demo_io\<rparr>"
  by (simp add: key_turn_def)

lemma key_turn_step:
  assumes "fw_ok P V (con, d)" and "drbg_sound (drbg P)" and "\<not> halted d"
    and "\<not> is_enter c" and "main_loop P (con, d) (key_turn c) = (con', d')"
  shows "fw_ok P V (con', d') \<and> \<not> halted d' \<and> entered con' = edit c (entered con)"
proof -
  note L = fw_ok_laws [OF assms(1)]
  let ?d = "door_served P (key_turn c) d" and ?con = "con\<lparr>was_connected := True\<rparr>"
  have con: "console_ok ?con" "\<not> halted (greeted con ?d)"
    using assms(1,3) by (simp_all add: fw_ok_def door_served_frame [OF L])
  obtain con1 d1 where k: "key_typed P demo_io c (?con, greeted con ?d) = (con1, d1)"
    by fastforce
  note e = editor_refines [OF con k]
  have h: "\<not> halted d1"
    using e con(2) assms(4) by auto
  have "(con', d') = (con1, after_tasks P (key_turn c) d1)"
    using assms(5) k h by (simp add: main_loop_parts(1) [OF assms(3)] console_task_cases)
  then show ?thesis
    using e h main_loop_ok(1) [OF assms(1,2), of "key_turn c"] by (simp add: assms(5) after_tasks_frame [OF L])
qed

lemma key_turns:
  assumes "fw_ok P V (con, d)" and "drbg_sound (drbg P)" and "\<not> halted d" and "\<forall>c \<in> set l. \<not> is_enter c"
  shows "\<exists>con' d'. foldl (main_loop P) (con, d) (map key_turn l) = (con', d') \<and> fw_ok P V (con', d') \<and> \<not> halted d'
    \<and> entered con' = fold edit l (entered con) \<and> test_turns P (con, d) (map key_turn l) = 0"
  using assms
proof (induction l arbitrary: con d)
  case (Cons c l)
  obtain con1 d1 where m: "main_loop P (con, d) (key_turn c) = (con1, d1)"
    by fastforce
  have "\<not> is_enter c" "\<forall>c \<in> set l. \<not> is_enter c"
    using Cons.prems(4) by simp_all
  moreover from key_turn_step [OF Cons.prems(1-3) this(1) m] this(2) obtain con' d' where
    "foldl (main_loop P) (con1, d1) (map key_turn l) = (con', d')" "fw_ok P V (con', d')" "\<not> halted d'"
    "entered con' = fold edit l (edit c (entered con))" "test_turns P (con1, d1) (map key_turn l) = 0"
    using Cons.IH [of con1 d1] Cons.prems(2) by auto
  ultimately show ?case
    by (simp add: m test_turn_def)
qed simp

lemma test_turns_append: "test_turns P e (ts @ us) = test_turns P e ts + test_turns P (foldl (main_loop P) e ts) us"
  by (induction ts arbitrary: e) simp_all

theorem core0_latch_only_by_test_witness:
  "\<exists>d0. main_boot demo_platform dead_radio (\<lambda>_. sync demo_io) (ntp_boot 0) (lfs demo_store) = Some d0
   \<and> pulses (snd (foldl (main_loop demo_platform) (console_boot, d0) (map key_turn ''test''))) = 0
   \<and> pulses (snd (foldl (main_loop demo_platform) (console_boot, d0) (map key_turn ''test'' @ [key_turn (CHR 0x0D)]))) = 1"
proof -
  obtain d0 where b: "main_boot demo_platform dead_radio (\<lambda>_. sync demo_io) (ntp_boot 0) (lfs demo_store) = Some d0"
    and s: "store_ok (flash_fs demo_platform) ram_view (lfs_crc demo_platform)
      (snd (storage_init (flash_fs demo_platform) \<lparr>lfs = lfs demo_store, mounted = False\<rparr>))"
    by (rule demo_boots)
  have "fw_ok demo_platform ram_view (console_boot, d0)" "\<not> halted d0"
    using main_boot_ok [OF b s] by simp_all
  moreover have "\<forall>c \<in> set ''test''. \<not> is_enter c"
    by (simp add: is_enter_def)
  ultimately obtain con d where r: "foldl (main_loop demo_platform) (console_boot, d0) (map key_turn ''test'') = (con, d)"
    "\<not> halted d" "entered con = fold edit ''test'' (entered console_boot)"
    "test_turns demo_platform (console_boot, d0) (map key_turn ''test'') = 0"
    using key_turns [OF _ demo_drbg, of ram_view console_boot d0 "''test''"] by blast
  have "fold edit ''test'' [] = ''test''"
    unfolding edit_def printable_def is_enter_def by code_simp
  then have "entered con = ''test''"
    using r(3) by (simp add: entered_def console_boot_def)
  moreover have "words ''test'' = [''test'']"
    unfolding words_def by code_simp
  ultimately have "test_turn (key_turn (CHR 0x0D)) (con, d)"
    using r(2) by (simp add: test_turn_def is_enter_def)
  then have "test_turns demo_platform (console_boot, d0) (map key_turn ''test'' @ [key_turn (CHR 0x0D)]) = 1"
    unfolding test_turns_append r(1,4) by simp
  moreover note t = core0_latch_only_by_test [OF demo_drbg b s prod.collapse]
  ultimately show ?thesis
    using b r(4) t [of "map key_turn ''test''"] t [of "map key_turn ''test'' @ [key_turn (CHR 0x0D)]"]
    by (intro exI [of _ d0]) (simp only: simp_thms)
qed

lemma demo_granted:
  assumes "same_disk ram_view demo_store st"
  shows "verdict_of demo_platform 5 686018 (st, Some minute_one)"
proof -
  obtain r st' where g: "storage_key_get ram_api sum_crc 5 st = (r, st')"
    by fastforce
  have "r = key_map ram_view sum_crc st 5"
    using get_spec(4) [OF ram_laws g ram_reliable] .
  then have "r = Some (norm_key (door_key 5 True))"
    using same_disk_key_map [OF assms, of sum_crc] by (simp add: demo_key_map)
  moreover have "totp_verify echo_mac (Some minute_one) sec 686018" for sec
    unfolding totp_verify_def totp_at_def echo_mac_def by code_simp
  ultimately show ?thesis
    using g by (simp add: door_verdict_def)
qed

theorem firmware_serves_protocol_witness:
  "\<exists>d0. main_boot demo_platform dead_radio (\<lambda>_. sync demo_io) (ntp_boot 0) (lfs demo_store) = Some d0
   \<and> (let d = snd (foldl (main_loop demo_platform) (console_boot, d0) [demo_turn False])
      in response_seq (mbox d) = 1 \<and> response_granted (mbox d)
       \<and> (\<exists>s. door_reachable (verdict_of demo_platform) door_env s \<and> matches d s \<and> submitted s = [(1, 5, 686018)])
       \<and> (\<exists>st rtc key. fst (storage_key_get ram_api sum_crc 5 st) = Some key
           \<and> is_checksum_valid key \<and> is_enabled key \<and> totp_verify echo_mac rtc (secret key) 686018))"
proof -
  obtain d0 where b: "main_boot demo_platform dead_radio (\<lambda>_. sync demo_io) (ntp_boot 0) (lfs demo_store) = Some d0"
    and s: "store_ok (flash_fs demo_platform) ram_view (lfs_crc demo_platform)
      (snd (storage_init (flash_fs demo_platform) \<lparr>lfs = lfs demo_store, mounted = False\<rparr>))"
    and sd: "same_disk ram_view demo_store (disk d0)"
    by (rule demo_boots)
  let ?t = "demo_turn False"
  let ?a = "arrive (door_poll ?t) d0" and ?s = "door_served demo_platform ?t d0"
  define d where "d = snd (foldl (main_loop demo_platform) (console_boot, d0) [?t])"
  have posted: "posted (door_poll ?t) = Some (1, 5, 686018)" "door_clock (door_poll ?t) = Some minute_one"
    by (simp_all add: demo_turn_def)
  have a: "request_seq (mbox ?a) = 1" "request_id (mbox ?a) = 5" "request_code (mbox ?a) = 686018"
    "last_handled_seq ?a = 0" "disk ?a = disk d0"
    using main_boot_idle(2) [OF b] by (simp_all add: arrive_def posted)
  have served: "response_seq (mbox ?s) = 1" "response_granted (mbox ?s)"
    using serve_door_answer [of ?a demo_platform "Some minute_one"] demo_granted [OF sd]
    by (simp_all add: door_served_def a posted)
  have d: "d = after_tasks demo_platform ?t ?s"
  proof -
    have "\<not> halted d0"
      using main_boot_ok [OF b s] by simp
    then show ?thesis
      using door_served_frame(4) [of demo_platform ram_view ?t d0]
      by (simp add: d_def main_loop_parts(1) console_task_cases demo_turn_def console_boot_def ram_laws)
  qed
  have idle: "mbox d = mbox ?s" "last_handled_seq d = last_handled_seq ?s"
    unfolding d by (simp_all add: after_tasks_def run_ntp_task_def run_wifi_task_def Let_def split_def)
  have "traffic demo_platform d0 ([] @ [(1, 5, 686018)]) ?a"
    by (rule traffic.request [OF traffic.start posted(1)])
  then have "traffic demo_platform d0 [(1, 5, 686018)] ?s"
    unfolding door_served_def using traffic.service by fastforce
  then have tr: "traffic demo_platform d0 [(1, 5, 686018)] d"
    using idle by (rule traffic.internal)
  have n: "numbered [(1, 5, 686018)]" "length [(1 :: u32, 5 :: u16, 686018 :: u32)] < 2 ^ 32"
    by (simp_all add: numbered_def)
  note t = firmware_serves_protocol [OF demo_drbg b s prod.collapse, of "[?t]" door_env, folded d_def, THEN conjunct2,
      rule_format, OF conjI [OF tr conjI [OF n]]]
  have "response_seq (mbox d) = 1 \<and> response_granted (mbox d)"
    using served by (simp add: idle)
  moreover from this t have "\<exists>s. door_reachable (verdict_of demo_platform) door_env s \<and> matches d s \<and>
      submitted s = [(1, 5, 686018)]"
    "\<exists>st rtc key. fst (storage_key_get ram_api sum_crc 5 st) = Some key \<and> is_checksum_valid key \<and>
      is_enabled key \<and> totp_verify echo_mac rtc (secret key) 686018"
    by simp_all
  ultimately show ?thesis
    using b by (intro exI [of _ d0]) (simp only: d_def [symmetric] Let_def simp_thms)
qed

end
