(* ===== verification/Flash.thy ===== *)
theory Flash imports Keystore
begin

text \<open>
  The flash callbacks of \<open>storage/storage.c\<close> as a block device. littlefs relies on what a block
  reads as after an erase and after a program; that contract is the locale \<open>block_device\<close>. It
  is interpreted on \<open>flash_read\<close>, \<open>flash_prog\<close> and \<open>flash_erase\<close> over a NOR flash: the SDK's
  \<open>flash_range_program\<close> and \<open>flash_range_erase\<close> are given by their documented effect on the
  bytes, and \<open>flash_safe_execute\<close> either runs the callback or reports an error and does not.
\<close>

section \<open>The contract\<close>

locale block_device =
  fixes rd :: "'m \<Rightarrow> u32 \<Rightarrow> u32 \<Rightarrow> nat \<Rightarrow> u8 list"
    and pr :: "u32 \<Rightarrow> u32 \<Rightarrow> u8 list \<Rightarrow> 'm \<Rightarrow> int \<times> 'm"
    and er :: "u32 \<Rightarrow> 'm \<Rightarrow> int \<times> 'm"
    and blocks :: u32
    and size :: nat
  assumes erase_law: "b < blocks \<Longrightarrow> er b m = (0, m') \<Longrightarrow> c < blocks \<Longrightarrow> unat off + n \<le> size \<Longrightarrow>
      rd m' c off n = (if c = b then replicate n 0xFF else rd m c off n)"
    and prog_law: "b < blocks \<Longrightarrow> unat off + length d \<le> size \<Longrightarrow> pr b off d m = (0, m') \<Longrightarrow>
      rd m b off (length d) = replicate (length d) 0xFF \<Longrightarrow> rd m' b off (length d) = d"
    and prog_other: "b < blocks \<Longrightarrow> unat off + length d \<le> size \<Longrightarrow> pr b off d m = (0, m') \<Longrightarrow>
      c < blocks \<Longrightarrow> unat p + n \<le> size \<Longrightarrow>
      c \<noteq> b \<or> unat p + n \<le> unat off \<or> unat off + length d \<le> unat p \<Longrightarrow> rd m' c p n = rd m c p n"
    and failed: "fst (pr b off d m) \<noteq> 0 \<Longrightarrow> snd (pr b off d m) = m"
      "fst (er b m) \<noteq> 0 \<Longrightarrow> snd (er b m) = m"
begin

lemma rewrite_block:
  assumes "b < blocks" and "er b m = (0, m1)" and "pr b off d m1 = (0, m2)" and "unat off + length d \<le> size"
  shows "rd m2 b off (length d) = d"
    and "c < blocks \<Longrightarrow> c \<noteq> b \<Longrightarrow> unat p + n \<le> size \<Longrightarrow> rd m2 c p n = rd m c p n"
  using prog_law [OF assms(1,4,3)] prog_other [OF assms(1,4,3)] erase_law [OF assms(1,2)] assms(1,4) by simp_all

lemma append_page:
  assumes "b < blocks" and "pr b off d m = (0, m1)" and "pr b off' d' m1 = (0, m2)"
    and "rd m b off (length d) = replicate (length d) 0xFF" and "rd m b off' (length d') = replicate (length d') 0xFF"
    and "unat off + length d \<le> unat off'" and "unat off' + length d' \<le> size"
  shows "rd m2 b off (length d) = d \<and> rd m2 b off' (length d') = d'"
  using prog_law [OF assms(1) _ assms(2,4)] prog_other [OF assms(1) _ assms(2) assms(1), of off' "length d'"]
    prog_law [OF assms(1,7,3)] prog_other [OF assms(1,7,3,1), of off "length d"] assms(5-7) by simp

end

section \<open>NOR flash\<close>

type_synonym flash_mem = "u32 \<Rightarrow> u8"  \<comment> \<open>by offset from the start of the flash\<close>

fun nor_apply :: "flash_op \<Rightarrow> flash_mem \<Rightarrow> flash_mem" where
  \<comment> \<open>programming clears bits, erasing sets them\<close>
  "nor_apply (do_flash_program o1 d) m =
     (\<lambda>a. if unat o1 \<le> unat a \<and> unat a < unat o1 + length d then and (m a) (d ! (unat a - unat o1)) else m a)"
| "nor_apply (do_flash_erase o1 n) m =
     (\<lambda>a. if unat o1 \<le> unat a \<and> unat a < unat o1 + unat n then 0xFF else m a)"

definition nor_flash :: "flash_mem flash_exec \<Rightarrow> bool" where
  \<comment> \<open>the callback runs and 0 (\<open>PICO_OK\<close>) is returned, or neither\<close>
  "nor_flash exec \<longleftrightarrow> (\<forall>f m. fst (exec f m) = 0 \<and> snd (exec f m) = nor_apply f m
     \<or> fst (exec f m) \<noteq> 0 \<and> snd (exec f m) = m)"

definition xip :: "flash_mem \<Rightarrow> u32 \<Rightarrow> u8" where
  \<comment> \<open>the memory-mapped window\<close>
  "xip m addr = m (addr - XIP_BASE)"

definition block_read :: "flash_mem \<Rightarrow> u32 \<Rightarrow> u32 \<Rightarrow> nat \<Rightarrow> u8 list" where
  "block_read m block off n = snd (flash_read (xip m) block off n)"

definition byte_addr :: "u32 \<Rightarrow> u32 \<Rightarrow> nat \<Rightarrow> u32" where
  "byte_addr block off i = STORAGE_FLASH_OFFSET + block * LFS_BLOCK_SIZE + off + of_nat i"

lemma block_read_map: "block_read m block off n = map (\<lambda>i. m (byte_addr block off i)) [0..<n]"
  by (simp add: block_read_def flash_read_def xip_def byte_addr_def Let_def algebra_simps)

lemma byte_addr_nat:
  assumes "block < LFS_BLOCK_COUNT" and "unat off + i \<le> 4096"
  shows "unat (byte_addr block off i) = 1835008 + unat block * 4096 + unat off + i"
proof -
  have "unat off \<le> 4096"
    using assms(2) by simp
  note o = storage_offset_nat [OF assms(1) this]
  have "unat (of_nat i :: u32) = i"
    using assms(2) by (simp add: unat_of_nat)
  then show ?thesis
    using o assms(2) by (simp add: byte_addr_def unat_word_ariths)
qed

lemma byte_ones: "and (0xFF :: u8) x = x"
proof -
  have "(0xFF :: u8) = -1"
    by simp
  then show ?thesis
    by (simp only: and.left_neutral)
qed

lemma same_byte:
  assumes "b < LFS_BLOCK_COUNT" and "unat off + i \<le> 4096" and "c < LFS_BLOCK_COUNT" and "unat p + j < 4096"
  shows "unat (byte_addr b off 0) \<le> unat (byte_addr c p j) \<and>
      unat (byte_addr c p j) < unat (byte_addr b off 0) + i \<longleftrightarrow>
    c = b \<and> unat off \<le> unat p + j \<and> unat p + j < unat off + i"
proof -
  have "(x::nat) * 4096 + u \<le> y * 4096 + v \<and> y * 4096 + v < x * 4096 + u + i \<longleftrightarrow> y = x \<and> u \<le> v \<and> v < u + i"
    if "u + i \<le> 4096" "v < 4096" for x y u v
  proof (cases y x rule: linorder_cases)
    case less
    then have "Suc y * 4096 \<le> x * 4096"
      by (intro mult_right_mono) auto
    with less that show ?thesis by auto
  next
    case greater
    then have "Suc x * 4096 \<le> y * 4096"
      by (intro mult_right_mono) auto
    with greater that show ?thesis by auto
  qed simp
  from this [OF assms(2,4), of "unat b" "unat c"] show ?thesis
    using byte_addr_nat [OF assms(1), of off 0] byte_addr_nat [OF assms(3), of p j] assms(2,4)
    by (simp add: word_unat_eq_iff [of c b] add.assoc)
qed

lemma nor_flashD:
  "nor_flash exec \<Longrightarrow> fst (exec f m) = 0 \<and> snd (exec f m) = nor_apply f m \<or> fst (exec f m) \<noteq> 0 \<and> snd (exec f m) = m"
  unfolding nor_flash_def by blast

lemma flash_prog_effect:
  assumes "nor_flash exec"
  shows "fst (flash_prog exec b off d m) = 0 \<and>
      snd (flash_prog exec b off d m) = nor_apply (do_flash_program (byte_addr b off 0) d) m
    \<or> fst (flash_prog exec b off d m) = LFS_ERR_IO \<and> snd (flash_prog exec b off d m) = m"
  using nor_flashD [OF assms, of "do_flash_program (byte_addr b off 0) d" m]
  by (cases "exec (do_flash_program (byte_addr b off 0) d) m")
    (auto simp: flash_prog_def byte_addr_def simp del: nor_apply.simps)

lemma flash_erase_effect:
  assumes "nor_flash exec"
  shows "fst (flash_erase exec b m) = 0 \<and>
      snd (flash_erase exec b m) = nor_apply (do_flash_erase (byte_addr b 0 0) LFS_BLOCK_SIZE) m
    \<or> fst (flash_erase exec b m) = LFS_ERR_IO \<and> snd (flash_erase exec b m) = m"
  using nor_flashD [OF assms, of "do_flash_erase (byte_addr b 0 0) LFS_BLOCK_SIZE" m]
  by (cases "exec (do_flash_erase (byte_addr b 0 0) LFS_BLOCK_SIZE) m")
    (auto simp: flash_erase_def byte_addr_def simp del: nor_apply.simps)

lemma programmed_byte:
  assumes "b < LFS_BLOCK_COUNT" and "unat off + length d \<le> 4096" and "c < LFS_BLOCK_COUNT" and "unat p + j < 4096"
  shows "nor_apply (do_flash_program (byte_addr b off 0) d) m (byte_addr c p j) =
    (if c = b \<and> unat off \<le> unat p + j \<and> unat p + j < unat off + length d
     then and (m (byte_addr c p j)) (d ! (unat p + j - unat off)) else m (byte_addr c p j))"
  using same_byte [OF assms] byte_addr_nat [OF assms(1), of off 0] byte_addr_nat [OF assms(3), of p j] assms(2,4)
  by auto

lemma erased_byte:
  assumes "b < LFS_BLOCK_COUNT" and "c < LFS_BLOCK_COUNT" and "unat p + j < 4096"
  shows "nor_apply (do_flash_erase (byte_addr b 0 0) LFS_BLOCK_SIZE) m (byte_addr c p j) =
    (if c = b then 0xFF else m (byte_addr c p j))"
  using same_byte [OF assms(1) _ assms(2,3), of 0 4096] assms(3) by (auto simp: LFS_BLOCK_SIZE_def)

definition answering :: "(flash_op \<Rightarrow> flash_mem \<Rightarrow> int) \<Rightarrow> flash_mem flash_exec" where
  \<comment> \<open>every such flash, by the codes it returns\<close>
  "answering code f m = (code f m, if code f m = 0 then nor_apply f m else m)"

lemma nor_flash_answering: "nor_flash (answering code)"
  by (simp add: nor_flash_def answering_def)

lemma answering_nor_flash: "nor_flash exec \<Longrightarrow> exec = answering (\<lambda>f m. fst (exec f m))"
  by (auto simp: nor_flash_def answering_def fun_eq_iff prod_eq_iff)

interpretation flash: block_device block_read "flash_prog (answering code)" "flash_erase (answering code)"
  LFS_BLOCK_COUNT 4096 for code
proof unfold_locales
  let ?exec = "answering code"
  note pe = flash_prog_effect [OF nor_flash_answering, of code] and ee = flash_erase_effect [OF nor_flash_answering, of code]
  have io: "LFS_ERR_IO \<noteq> 0"
    by (simp add: LFS_ERR_IO_def)
  show "block_read m' c off n = (if c = b then replicate n 0xFF else block_read m c off n)"
    if "b < LFS_BLOCK_COUNT" "flash_erase ?exec b m = (0, m')" "c < LFS_BLOCK_COUNT" "unat off + n \<le> 4096" for b m m' c off n
    using ee [of b m] that erased_byte [OF that(1,3)] io
    by (auto simp: block_read_map map_replicate_const [symmetric] simp del: nor_apply.simps intro!: nth_equalityI)
  show "block_read m' b off (length d) = d"
    if "b < LFS_BLOCK_COUNT" "unat off + length d \<le> 4096" "flash_prog ?exec b off d m = (0, m')"
      "block_read m b off (length d) = replicate (length d) 0xFF" for b m m' off d
  proof (rule nth_equalityI)
    have m': "m' = nor_apply (do_flash_program (byte_addr b off 0) d) m"
      using pe [of b off d m] that(3) io by auto
    fix i
    assume i: "i < length (block_read m' b off (length d))"
    then have i: "i < length d"
      by (simp add: block_read_map)
    have "m (byte_addr b off i) = 0xFF"
      using arg_cong [OF that(4), of "\<lambda>xs. xs ! i"] i by (simp add: block_read_map)
    then show "block_read m' b off (length d) ! i = d ! i"
      using i that(2) programmed_byte [OF that(1,2,1), of off i m] byte_ones [of "d ! i"]
      by (simp add: m' block_read_map del: nor_apply.simps)
  qed (simp add: block_read_map)
  show "block_read m' c p n = block_read m c p n"
    if "b < LFS_BLOCK_COUNT" "unat off + length d \<le> 4096" "flash_prog ?exec b off d m = (0, m')"
      "c < LFS_BLOCK_COUNT" "unat p + n \<le> 4096" "c \<noteq> b \<or> unat p + n \<le> unat off \<or> unat off + length d \<le> unat p"
    for b m m' c off d p n
    using pe [of b off d m] that programmed_byte [OF that(1,2,4)] io
    by (auto simp: block_read_map simp del: nor_apply.simps intro!: map_cong)
  show "snd (flash_prog ?exec b off d m) = m" if "fst (flash_prog ?exec b off d m) \<noteq> 0" for b off d m
    using pe [of b off d m] that by auto
  show "snd (flash_erase ?exec b m) = m" if "fst (flash_erase ?exec b m) \<noteq> 0" for b m
    using ee [of b m] that by auto
qed

section \<open>The configuration handed to littlefs\<close>

definition LFS_READ_SIZE :: u32 where
  "LFS_READ_SIZE = 256"

definition LFS_PROG_SIZE :: u32 where
  "LFS_PROG_SIZE = 256"

definition LFS_CACHE_SIZE :: u32 where
  "LFS_CACHE_SIZE = 256"

definition LFS_LOOKAHEAD :: u32 where
  "LFS_LOOKAHEAD = 64"

definition flash_sync :: "'m \<Rightarrow> int \<times> 'm" where
  "flash_sync m = (0, m)"

record lfs_config =
  dev_read :: "flash_mem \<Rightarrow> u32 \<Rightarrow> u32 \<Rightarrow> nat \<Rightarrow> int \<times> u8 list"
  dev_prog :: "u32 \<Rightarrow> u32 \<Rightarrow> u8 list \<Rightarrow> flash_mem \<Rightarrow> int \<times> flash_mem"
  dev_erase :: "u32 \<Rightarrow> flash_mem \<Rightarrow> int \<times> flash_mem"
  dev_sync :: "flash_mem \<Rightarrow> int \<times> flash_mem"
  read_size :: u32
  prog_size :: u32
  block_size :: u32
  block_count :: u32
  cache_size :: u32
  lookahead_size :: u32
  block_cycles :: int

definition LFS_CFG :: "flash_mem flash_exec \<Rightarrow> lfs_config" where
  "LFS_CFG exec = \<lparr>dev_read = \<lambda>m. flash_read (xip m), dev_prog = flash_prog exec,
     dev_erase = flash_erase exec, dev_sync = flash_sync,
     read_size = LFS_READ_SIZE, prog_size = LFS_PROG_SIZE, block_size = LFS_BLOCK_SIZE,
     block_count = LFS_BLOCK_COUNT, cache_size = LFS_CACHE_SIZE,
     lookahead_size = LFS_LOOKAHEAD div 8, block_cycles = 500\<rparr>"

lemmas geometry_defs = LFS_READ_SIZE_def LFS_PROG_SIZE_def LFS_CACHE_SIZE_def LFS_LOOKAHEAD_def
  LFS_BLOCK_SIZE_def LFS_BLOCK_COUNT_def STORAGE_SIZE_BYTES_def

lemma lfs_geometry:
  \<comment> \<open>what \<open>lfs_init\<close> asserts: the cache holds whole reads and programs, a block whole caches,
     and one pass of the lookahead buffer (8 blocks to a byte) covers the device\<close>
  "read_size (LFS_CFG exec) dvd cache_size (LFS_CFG exec)"
  "prog_size (LFS_CFG exec) dvd cache_size (LFS_CFG exec)"
  "cache_size (LFS_CFG exec) dvd block_size (LFS_CFG exec)"
  "block_count (LFS_CFG exec) = 8 * lookahead_size (LFS_CFG exec)"
  "block_count (LFS_CFG exec) * block_size (LFS_CFG exec) = STORAGE_SIZE_BYTES"
proof -
  have "(256 :: u32) dvd 4096"
    by (rule dvdI [of _ _ 16]) simp
  then show "read_size (LFS_CFG exec) dvd cache_size (LFS_CFG exec)"
    "prog_size (LFS_CFG exec) dvd cache_size (LFS_CFG exec)"
    "cache_size (LFS_CFG exec) dvd block_size (LFS_CFG exec)"
    by (simp_all add: LFS_CFG_def geometry_defs)
qed (simp_all add: LFS_CFG_def geometry_defs)

lemma outside_storage:
  assumes "nor_flash exec" and "b < LFS_BLOCK_COUNT" and "unat a < 1835008"
  shows "unat off \<le> 4096 \<Longrightarrow> snd (flash_prog exec b off d m) a = m a"
    and "snd (flash_erase exec b m) a = m a"
  using flash_prog_effect [OF assms(1), of b off d m] flash_erase_effect [OF assms(1), of b m]
    byte_addr_nat [OF assms(2), of off 0] byte_addr_nat [OF assms(2), of 0 0] assms(3)
  by auto

text \<open>C39: the device handed to littlefs behaves as a block device on any NOR flash whose
  \<open>flash_safe_execute\<close> runs the callback and returns 0 or does neither. After a successful erase
  the whole block reads 0xFF; data programmed then reads back; an operation that fails reports
  \<open>LFS_ERR_IO\<close> and has changed nothing; no other block changes, nor any byte of the firmware below
  the last 256 KB.\<close>

theorem flash_block_device:
  assumes "nor_flash exec" and "b < LFS_BLOCK_COUNT" and "unat off + length d \<le> 4096"
    and "dev_erase (LFS_CFG exec) b m = (rc, m1)" and "dev_prog (LFS_CFG exec) b off d m1 = (rc', m2)"
  shows "(if rc = 0 then dev_read (LFS_CFG exec) m1 b 0 4096 = (0, replicate 4096 0xFF)
      else rc = LFS_ERR_IO \<and> m1 = m)
    \<and> (if rc' = 0 then rc = 0 \<longrightarrow> dev_read (LFS_CFG exec) m2 b off (length d) = (0, d)
      else rc' = LFS_ERR_IO \<and> m2 = m1)
    \<and> (\<forall>c<LFS_BLOCK_COUNT. c \<noteq> b \<longrightarrow> dev_read (LFS_CFG exec) m2 c 0 4096 = dev_read (LFS_CFG exec) m c 0 4096)
    \<and> (\<forall>a. unat a < 2 * 1024 * 1024 - 256 * 1024 \<longrightarrow> m2 a = m a)"
proof -
  obtain code where exec: "exec = answering code"
    using answering_nor_flash [OF assms(1)] by blast
  have er: "flash_erase exec b m = (rc, m1)" and pr: "flash_prog exec b off d m1 = (rc', m2)"
    using assms(4,5) by (simp_all add: LFS_CFG_def)
  have rd: "dev_read (LFS_CFG exec) x c p n = (0, block_read x c p n)" for x c p n
    by (simp add: LFS_CFG_def block_read_def flash_read_def Let_def)
  have erc: "rc = 0 \<or> rc = LFS_ERR_IO \<and> m1 = m" and prc: "rc' = 0 \<or> rc' = LFS_ERR_IO \<and> m2 = m1"
    using flash_erase_effect [OF assms(1), of b m] flash_prog_effect [OF assms(1), of b off d m1] er pr by auto
  have e: "block_read m1 c p n = (if c = b then replicate n 0xFF else block_read m c p n)"
    if "rc = 0" "c < LFS_BLOCK_COUNT" "unat p + n \<le> 4096" for c p n
    using flash.erase_law [OF assms(2) _ that(2,3)] er that(1) exec by blast
  have p: "block_read m2 c 0 4096 = block_read m1 c 0 4096" if "rc' = 0" "c < LFS_BLOCK_COUNT" "c \<noteq> b" for c
    using flash.prog_other [OF assms(2,3) _ that(2), of code m1 m2 0 4096] pr that(1,3) exec by simp
  have "block_read m2 b off (length d) = d" if "rc = 0" "rc' = 0"
    using flash.rewrite_block(1) [OF assms(2) _ _ assms(3)] er pr that exec by blast
  moreover have "block_read m2 c 0 4096 = block_read m c 0 4096" if "c < LFS_BLOCK_COUNT" "c \<noteq> b" for c
    using e [OF _ that(1), of 0 4096] p [OF _ that] erc prc that(2) by auto
  moreover have "m2 a = m a" if "unat a < 1835008" for a
    using outside_storage(1) [OF assms(1,2) that, of off d m1] outside_storage(2) [OF assms(1,2) that, of m]
      er pr assms(3) by simp
  ultimately show ?thesis
    using erc prc e [OF _ assms(2), of 0 4096] by (auto simp: rd LFS_ERR_IO_def)
qed

theorem flash_block_device_witness:
  "snd (dev_read (LFS_CFG (answering (\<lambda>f m. 0)))
     (snd (dev_prog (LFS_CFG (answering (\<lambda>f m. 0))) 63 4094 [1, 2]
       (snd (dev_erase (LFS_CFG (answering (\<lambda>f m. 0))) 63 (\<lambda>a. 0))))) 63 4094 2) = [1, 2]"
proof -
  let ?x = "answering (\<lambda>f m. 0)"
  let ?m1 = "snd (dev_erase (LFS_CFG ?x) 63 (\<lambda>a. 0))"
  have b: "63 < LFS_BLOCK_COUNT" and n: "unat (4094 :: u32) + length [1, 2 :: u8] \<le> 4096"
    by (simp_all add: geometry_defs)
  have e: "dev_erase (LFS_CFG ?x) 63 (\<lambda>a. 0) = (0, ?m1)"
    and p: "dev_prog (LFS_CFG ?x) 63 4094 [1, 2] ?m1 = (0, snd (dev_prog (LFS_CFG ?x) 63 4094 [1, 2] ?m1))"
    by (simp_all add: LFS_CFG_def flash_erase_def flash_prog_def answering_def split_def)
  show ?thesis
    using flash_block_device [OF nor_flash_answering b n e p] by (simp add: numeral_2_eq_2)
qed

end
