(* ===== verification/Spec2Isabelle.thy ===== *)
theory Spec2Isabelle imports Service Flash
begin

text \<open>
  A verification library for hslock, the firmware of a door lock on a Raspberry Pi Pico W: a
  keypad takes a key identifier and a TOTP code, the lock opens for an enabled key, and keys
  are administered over a USB serial console.

  The program. Core 1 (\<open>core1.c\<close>) scans the keypad (\<open>hardware/keypad.c\<close>), collects digits and
  posts identifier and code in a mailbox shared with core 0 (\<open>shared/door_verify.h\<close>); it drives
  buzzer and latch and feeds the watchdog. Core 0 (\<open>main.c\<close>) mounts storage, connects WiFi and
  waits for a first NTP sync, then loops over four tasks: it answers the mailbox from the key
  store and the clock, reads the console (\<open>serial/console.c\<close>), checks the WiFi link
  (\<open>network/wifi.c\<close>) and resynchronises NTP (\<open>network/ntp.c\<close>). A console line is cut into
  words and dispatched (\<open>serial/commands.c\<close>) to one of twenty-three handlers, most behind an
  admin session. Keys and WiFi credentials are files of littlefs (\<open>storage/storage.c\<close>), moved
  between devices as base64 text of a binary backup (\<open>storage/backup.c\<close>).

  Theories, in the order of their imports:
  \<^item> \<open>Prelude\<close>: machine integers, bytes and characters, C strings, \<open>strncpy\<close>, decimal printing and
    parsing, the wipe loop of \<open>shared/wipe.h\<close>; the locales \<open>fixed_codec\<close> (an image of constant
    width that is read back), \<open>inv_machine\<close> (a step function with an invariant) and
    \<open>inv_steps\<close> (a step relation with one).
  \<^item> \<open>Base64\<close>, \<open>Base32\<close>: the codecs of \<open>libs/\<close>; round trip, canonical form, capacity, RFC 4648.
  \<^item> \<open>Clock\<close>, \<open>Totp\<close>: \<open>hardware/clock.c\<close> against the calendar, \<open>shared/totp.c\<close> against RFC 6238.
  \<^item> \<open>Lfs\<close>: littlefs as the record of operations \<open>lfs_api\<close>, its documented behaviour as \<open>lfs_laws\<close>
    over a view of its volume, two assumptions on the flash (below), and a volume in memory that
    obeys them all.
  \<^item> \<open>Storage\<close>, \<open>Keystore\<close>: \<open>storage/storage.c\<close>, and the contract it keeps: the locale \<open>key_store\<close>,
    a map from identifiers to records, interpreted on the operations of \<open>Storage\<close>.
  \<^item> \<open>Flash\<close>: the flash callbacks and the configuration littlefs is given; the locale
    \<open>block_device\<close>, interpreted on them over a NOR flash.
  \<^item> \<open>Backup\<close>: \<open>storage/backup.c\<close>, proved over \<open>key_store\<close>.
  \<^item> \<open>Ntp\<close>: \<open>network/ntp.c\<close>; DNS answers and datagrams are events, a sync is given the events of
    each poll before its deadline.
  \<^item> \<open>Door\<close>: the mailbox protocol, as one function and as the interleaving of the single volatile
    accesses of the two cores (an inductive step relation; safety by rule induction over the
    reachable states).
  \<^item> \<open>Hardware\<close>, \<open>Keypad\<close>, \<open>Core1\<close>: outputs as lists of effects, the matrix scan and debounce, the
    keypad core; a watchdog timer is run over the effects.
  \<^item> \<open>TwoCores\<close>: the keypad core of \<open>Core1\<close> run as core 1 of the protocol of \<open>Door\<close>, interleaved
    with core 0, with the history of its turns.
  \<^item> \<open>Text\<close>, \<open>Secret\<close>, \<open>Wifi\<close>: \<open>printf\<close> formats, \<open>shared/random.c\<close>, \<open>network/wifi.c\<close>.
  \<^item> \<open>Device\<close>: core 0 as the console sees it (store, session, NTP and WiFi state, mailbox, the
    static buffers of the handlers, log), and what a command meets while it runs (\<open>io\<close>).
  \<^item> \<open>CmdSystem\<close>, \<open>CmdKeys\<close>, \<open>CmdNetwork\<close>, \<open>CmdBackup\<close>: the handlers of
    \<open>serial/commands_system.c\<close>, \<open>commands_keys.c\<close>, \<open>commands_network.c\<close>, \<open>commands_backup.c\<close>,
    each with what it changes; \<open>Commands\<close>: the table, the session gate and the dispatcher.
  \<^item> \<open>Console\<close>, \<open>Firmware\<close>: the line editor and its in-place tokenizer; boot and main loop.
  \<^item> \<open>Service\<close>: the firmware of core 0 as core 0 of the protocol, and when it drives the latch.

  State and code. Static variables are record fields, an array of bytes or characters is a
  list of its length, a pointer into a buffer an index, \<open>uintN_t\<close> a word of N bits; a function
  that fails returns \<open>None\<close>, \<open>False\<close> or \<open>Inl\<close>, one per exit of the code. Readings of the timer and
  the RTC, characters, datagrams and radio results are arguments, in the order the code
  takes them. A handler that ends in the loop before a reset sets \<open>halted\<close>.

  What the theorems assume of the flash. \<open>lfs_laws\<close> lets every operation fail, and says that a
  failed one changes no committed file. The condition \<open>store_ok\<close> of most theorems about a working
  device adds that a volume is mounted, that its key directory holds only files of identifiers
  in range, and \<open>lfs_reliable\<close>: finding, reading, listing and removing what is there does not
  fail (the code ignores the result of several of these, among them the deletes of an import).
  Writes, syncs and closes may fail under it. The close after a write commits it, and the code
  ignores its result: theorems that conclude what is stored after a reported success assume that
  this close succeeds (\<open>save_commits\<close>, \<open>lfs_commits\<close>, \<open>saves\<close>), and \<open>save_ignores_close\<close> shows what
  happens when it does not. \<open>lfs_writable\<close>, that no write or sync fails, is assumed nowhere: it
  tells the two outcomes of the best-effort scrub of a deleted key apart.

  What is shown. Over the whole firmware: from a boot on a sound volume every run of the main
  loop keeps the store sound, the line buffer bounded and a session tied to a connection;
  without an allowed login nothing stored changes, in recovery mode either unless a format is
  confirmed; unplugging ends a session; boot returns unless NTP never answers. Over the commands: when login grants, when a session expires,
  that key commands refine operations on a map, that import does what the pasted backup
  says. Over the two cores: the latch opens only for a verified attempt, every attempt can
  complete, and with the keypad core in the place of core 1 every opening belongs to an entry
  typed at the keypad and verified for it; the services of the main loop, also those inside
  commands that wait, are those of the protocol, and core 0 itself drives the latch only for
  the command \<open>test\<close>, with or without a session. Below them, the contracts of storage, backup,
  NTP, TOTP, clock and codecs.
  Several theorems state defects (a close whose result is ignored, backups that lock out or
  cannot be pasted back, open logins on unreadable files, damaged records made valid).

  Bounds and loops. Loops over data are structural or have a measure. Loops that wait for a
  deadline are lists of what each iteration meets before it, so no fuel is chosen. The wait
  for the first NTP sync may not end: it is a partial function into \<open>option\<close>, and \<open>None\<close> is
  proved to mean that every attempt fails. Buffers have the sizes of the code: 256 for a
  line, 7533 characters and 5648 bytes for a backup of 128 keys.

  Not modelled. littlefs, HMAC-SHA1, the CRC, the DRBG, qrcodegen, lwIP and the CYW43 driver are
  parameters with documented laws. The diagnostics printed by storage and NTP, and copies of
  secrets on a stack with their wipes, are left out. A request of core 1 reaches core 0 between
  iterations in \<open>Firmware\<close> and \<open>Device\<close>; single accesses are interleaved in \<open>Door\<close> and
  \<open>TwoCores\<close>. How littlefs lays its volume out on the blocks of \<open>Flash\<close>, the lockout of core 1
  during flash writes, start-up of the SDK, tests and fuzz harnesses and build options are
  outside.
\<close>

end
